(* ===== verification/Fido_Prelude.thy ===== *)
theory Fido_Prelude
  imports Main "HOL-Library.Word"
begin

text \<open>
  Shared vocabulary of the development: C strings as character lists without the final NUL,
  file contents as lists of bytes (also of type \<^typ>\<open>char\<close>), C \<open>int\<close> arithmetic with its
  32-bit wrap-around, and the generic list and option lemmas the components use.
\<close>

unbundle bit_operations_syntax

named_theorems ftn_defs \<open>unfolding rules for small definitions of the model\<close>
named_theorems ftn_bounds \<open>range facts for C integers and buffers\<close>

type_synonym cstring = string
type_synonym bytes = "char list"

subsection \<open>C integers\<close>

text \<open>
  \<open>c_int x\<close> is the value a 32-bit two's complement \<open>int\<close> holds after \<open>x\<close> was computed in it.
\<close>

definition c_int :: "int \<Rightarrow> int" where
  "c_int x = (x + 2147483648) mod 4294967296 - 2147483648"

definition is_c_int :: "int \<Rightarrow> bool" where
  "is_c_int x \<longleftrightarrow> - 2147483648 \<le> x \<and> x < 2147483648"

lemma c_int_id [simp]: "is_c_int x \<Longrightarrow> c_int x = x"
  by (simp add: c_int_def is_c_int_def)

lemma is_c_int_c_int [ftn_bounds, simp]: "is_c_int (c_int x)"
proof -
  have "0 \<le> (x + 2147483648) mod 4294967296" "(x + 2147483648) mod 4294967296 < 4294967296"
    by simp_all
  then show ?thesis by (simp add: is_c_int_def c_int_def)
qed

lemma c_int_idem [simp]: "c_int (c_int x) = c_int x"
  by simp

lemma c_int_cong: "x mod 4294967296 = y mod 4294967296 \<Longrightarrow> c_int x = c_int y"
  by (metis c_int_def mod_add_left_eq)

lemma c_int_mod: "c_int x mod 4294967296 = x mod 4294967296"
  by (simp add: c_int_def mod_simps)

subsection \<open>Characters\<close>

abbreviation ch_nul :: char where "ch_nul \<equiv> CHR 0x00"
abbreviation ch_tab :: char where "ch_tab \<equiv> CHR 0x09"
abbreviation ch_lf :: char where "ch_lf \<equiv> CHR 0x0A"
abbreviation ch_cr :: char where "ch_cr \<equiv> CHR 0x0D"
abbreviation ch_sp :: char where "ch_sp \<equiv> CHR 0x20"
abbreviation ch_dquote :: char where "ch_dquote \<equiv> CHR 0x22"
abbreviation ch_bslash :: char where "ch_bslash \<equiv> CHR 0x5C"
abbreviation ch_ctrl_a :: char where "ch_ctrl_a \<equiv> CHR 0x01"

text \<open>The unsigned code of a byte, and the byte of an integer reduced to eight bits.\<close>

definition code :: "char \<Rightarrow> int" where
  "code c = int (of_char c)"

definition byte_of :: "int \<Rightarrow> char" where
  "byte_of v = char_of (nat (v mod 256))"

lemma code_range [ftn_bounds]: "0 \<le> code c" "code c < 256"
proof -
  have "(of_char c :: nat) < 256" by (rule nat_of_char_less_256)
  then show "0 \<le> code c" "code c < 256" by (simp_all add: code_def)
qed

lemma code_byte_of [simp]: "code (byte_of v) = v mod 256"
  by (simp add: code_def byte_of_def)

lemma byte_of_code [simp]: "byte_of (code c) = c"
  by (simp add: code_def byte_of_def nat_mod_distrib)

lemma code_inject [simp]: "code a = code b \<longleftrightarrow> a = b"
  by (metis byte_of_code)

lemma byte_of_mod [simp]: "byte_of (v mod 256) = byte_of v"
  by (simp add: byte_of_def)

subsection \<open>C strings: the byte under a pointer\<close>

text \<open>Reading the byte a string pointer points to gives the terminating NUL at the end.\<close>

definition peek :: "cstring \<Rightarrow> char" where
  "peek s = (case s of [] \<Rightarrow> ch_nul | c # _ \<Rightarrow> c)"

lemma peek_simps [simp]: "peek [] = ch_nul" "peek (c # s) = c"
  by (simp_all add: peek_def)

text \<open>\<open>s[k]\<close> for an index up to the terminating NUL.\<close>

definition at :: "cstring \<Rightarrow> nat \<Rightarrow> char" where
  "at s k = (if k < length s then s ! k else ch_nul)"

lemma at_simps [simp]:
  "at [] k = ch_nul" "at (c # s) 0 = c" "at (c # s) (Suc k) = at s k"
  by (simp_all add: at_def)

definition no_nul :: "cstring \<Rightarrow> bool" where
  "no_nul s \<longleftrightarrow> ch_nul \<notin> set s"

lemma no_nul_simps [simp]:
  "no_nul []" "no_nul (c # s) \<longleftrightarrow> c \<noteq> ch_nul \<and> no_nul s" "no_nul (s @ t) \<longleftrightarrow> no_nul s \<and> no_nul t"
  by (auto simp: no_nul_def)

subsection \<open>Lists and options\<close>

lemma takeWhile_append_stop:
  "(\<forall>x \<in> set xs. P x) \<Longrightarrow> (ys = [] \<or> \<not> P (hd ys)) \<Longrightarrow> takeWhile P (xs @ ys) = xs"
  by (cases ys) (simp_all add: takeWhile_append)

lemma dropWhile_append_stop:
  "(\<forall>x \<in> set xs. P x) \<Longrightarrow> (ys = [] \<or> \<not> P (hd ys)) \<Longrightarrow> dropWhile P (xs @ ys) = ys"
  by (cases ys) (simp_all add: dropWhile_append)

lemma length_dropWhile_le_Suc: "length (dropWhile P xs) < Suc (length xs)"
  by (simp add: length_dropWhile_le le_imp_less_Suc)

lemma find_append:
  "List.find P (xs @ ys) = (case List.find P xs of None \<Rightarrow> List.find P ys | Some x \<Rightarrow> Some x)"
  by (induction xs) auto

lemma find_None_all: "List.find P xs = None \<longleftrightarrow> (\<forall>x \<in> set xs. \<not> P x)"
  by (induction xs) auto

lemma find_Some_in: "List.find P xs = Some x \<Longrightarrow> x \<in> set xs \<and> P x"
  by (induction xs) (auto split: if_splits)

subsection \<open>Reading a sequence of items\<close>

text \<open>
  Many loops of the program call one routine that takes the next item off a state until it
  reports the end: tokens of a line, entries of an address list, messages of a packet.
  \<open>read_all\<close> is that loop with fuel; the locale \<open>reader\<close> states what makes the fuel irrelevant.
\<close>

fun read_all :: "nat \<Rightarrow> ('s \<Rightarrow> ('a \<times> 's) option) \<Rightarrow> 's \<Rightarrow> 'a list" where
  "read_all 0 get s = []"
| "read_all (Suc n) get s =
     (case get s of None \<Rightarrow> [] | Some (a, s') \<Rightarrow> a # read_all n get s')"

locale reader =
  fixes get :: "'s \<Rightarrow> ('a \<times> 's) option"
    and measure_of :: "'s \<Rightarrow> nat"
  assumes progress: "get s = Some (a, s') \<Longrightarrow> measure_of s' < measure_of s"
begin

lemma fuel_enough:
  "measure_of s < n \<Longrightarrow> measure_of s < m \<Longrightarrow> read_all n get s = read_all m get s"
proof (induction n arbitrary: s m)
  case (Suc n)
  then obtain m' where "m = Suc m'" by (cases m) auto
  with Suc show ?case
    by (auto split: option.splits dest!: progress intro!: Suc.IH)
qed simp

lemma read_all_unfold:
  assumes "measure_of s < n"
  shows "read_all n get s = (case get s of None \<Rightarrow> [] | Some (a, s') \<Rightarrow> a # read_all n get s')"
proof -
  obtain n' where n: "n = Suc n'" using assms by (cases n) auto
  show ?thesis
  proof (cases "get s")
    case (Some r)
    obtain a s' where r: "r = (a, s')" by (cases r)
    have "measure_of s' < n'" using progress Some r assms n by force
    then have "read_all n' get s' = read_all n get s'" using n by (intro fuel_enough) auto
    then show ?thesis using Some r n by simp
  qed (simp add: n)
qed

end

text \<open>
  A writer for the items: what is put in front of a state is what the next read gives back.
\<close>

locale codec = reader get measure_of
  for get :: "'s \<Rightarrow> ('a \<times> 's) option" and measure_of :: "'s \<Rightarrow> nat" +
  fixes put :: "'a \<Rightarrow> 's \<Rightarrow> 's" and ok :: "'a \<Rightarrow> bool"
  assumes get_put: "ok a \<Longrightarrow> get (put a s) = Some (a, s)"
begin

lemma read_all_puts:
  assumes "\<forall>a \<in> set as. ok a" "get z = None" "measure_of (foldr put as z) < n"
  shows "read_all n get (foldr put as z) = as"
  using assms
proof (induction as arbitrary: n)
  case Nil
  then show ?case by (cases n) auto
next
  case (Cons a as)
  then have g: "get (put a (foldr put as z)) = Some (a, foldr put as z)" by (simp add: get_put)
  moreover have "measure_of (foldr put as z) < n" using progress [OF g] Cons.prems by simp
  ultimately show ?case
    using Cons by (simp add: read_all_unfold)
qed

end

end
