(* ===== verification/C_Strings.thy ===== *)
theory C_Strings
  imports Fido_Prelude "HOL-Library.Monad_Syntax"
begin

text \<open>
  The string routines of \<open>src/common/misc.c\<close>, \<open>src/common/xstrnlen.c\<close> and the tokenizer of
  \<open>src/common/strtok_r.c\<close>.  A buffer that is written to is a list of fixed length, and a write
  outside of it makes the result \<open>None\<close>; a string that is only read is the list of its
  characters before the NUL.
\<close>

subsection \<open>Character classes\<close>

definition is_space :: "char \<Rightarrow> bool" where
  "is_space c \<longleftrightarrow> c = ch_sp \<or> c = ch_tab \<or> c = ch_cr \<or> c = ch_lf"

definition is_blank :: "char \<Rightarrow> bool" where
  "is_blank c \<longleftrightarrow> c = ch_sp \<or> c = ch_tab"

definition is_digit :: "char \<Rightarrow> bool" where
  "is_digit c \<longleftrightarrow> 48 \<le> code c \<and> code c \<le> 57"

definition is_xdigit :: "char \<Rightarrow> bool" where
  "is_xdigit c \<longleftrightarrow> is_digit c \<or> (65 \<le> code c \<and> code c \<le> 70) \<or> (97 \<le> code c \<and> code c \<le> 102)"

definition is_odigit :: "char \<Rightarrow> bool" where
  "is_odigit c \<longleftrightarrow> 48 \<le> code c \<and> code c < 56"

text \<open>\<open>isupper\<close>, \<open>islower\<close> in the C locale and the \<open>toupper\<close>, \<open>tolower\<close> macros of \<open>fidogate.h\<close>.\<close>

definition isupper :: "char \<Rightarrow> bool" where
  "isupper c \<longleftrightarrow> 65 \<le> code c \<and> code c \<le> 90"

definition islower :: "char \<Rightarrow> bool" where
  "islower c \<longleftrightarrow> 97 \<le> code c \<and> code c \<le> 122"

definition toupper :: "char \<Rightarrow> char" where
  "toupper c = (if islower c then byte_of (code c - 97 + 65) else c)"

definition tolower :: "char \<Rightarrow> char" where
  "tolower c = (if isupper c then byte_of (code c - 65 + 97) else c)"

text \<open>The value of a byte as a signed \<open>char\<close>.\<close>

definition schar :: "char \<Rightarrow> int" where
  "schar c = (if code c < 128 then code c else code c - 256)"

definition str_lower :: "cstring \<Rightarrow> cstring" where
  "str_lower s = map (\<lambda>c. if isupper c then tolower c else c) s"

definition str_upper :: "cstring \<Rightarrow> cstring" where
  "str_upper s = map (\<lambda>c. if islower c then toupper c else c) s"

fun atooct_loop :: "int \<Rightarrow> cstring \<Rightarrow> int" where
  "atooct_loop i [] = i"
| "atooct_loop i (c # s) =
     (if 48 \<le> code c \<and> code c \<le> 55 then atooct_loop (c_int (i * 8 + (code c - 48))) s else i)"

definition atooct :: "cstring \<Rightarrow> int" where
  "atooct s = atooct_loop 0 s"

text \<open>\<open>atoi\<close> of the C library: white space, an optional sign, decimal digits.\<close>

definition dec_digits :: "cstring \<Rightarrow> int" where
  "dec_digits s = foldl (\<lambda>v c. v * 10 + (code c - 48)) 0 (takeWhile is_digit s)"

definition atoi :: "cstring \<Rightarrow> int" where
  "atoi s =
     (let t = dropWhile (\<lambda>c. is_space c \<or> c = CHR 0x0B \<or> c = CHR 0x0C) s
      in if peek t = CHR ''-'' then c_int (- min 9223372036854775808 (dec_digits (tl t)))
         else if peek t = CHR ''+'' then c_int (min 9223372036854775807 (dec_digits (tl t)))
         else c_int (min 9223372036854775807 (dec_digits t)))"

definition atol :: "cstring \<Rightarrow> int" where
  "atol s =
     (let t = dropWhile (\<lambda>c. is_space c \<or> c = CHR 0x0B \<or> c = CHR 0x0C) s
      in if peek t = CHR ''-'' then - min 9223372036854775808 (dec_digits (tl t))
         else if peek t = CHR ''+'' then min 9223372036854775807 (dec_digits (tl t))
         else min 9223372036854775807 (dec_digits t))"

subsection \<open>Comparison ignoring case\<close>

fun strnicmp :: "cstring \<Rightarrow> cstring \<Rightarrow> nat \<Rightarrow> int" where
  "strnicmp sa sb 0 = 0"
| "strnicmp sa sb (Suc len) =
     (if tolower (peek sa) = tolower (peek sb) then strnicmp (tl sa) (tl sb) len
      else if schar (tolower (peek sa)) < schar (tolower (peek sb)) then -1 else 1)"

fun stricmp :: "cstring \<Rightarrow> cstring \<Rightarrow> int" where
  "stricmp [] sb = - schar (tolower (peek sb))"
| "stricmp (a # sa) sb =
     (if tolower a = tolower (peek sb) then stricmp sa (tl sb)
      else schar (tolower a) - schar (tolower (peek sb)))"

text \<open>The test macros \<open>strieq\<close> and \<open>strnieq\<close> of \<open>prototypes.h\<close>.\<close>

definition strieq :: "cstring \<Rightarrow> cstring \<Rightarrow> bool" where
  "strieq a b \<longleftrightarrow> map tolower a = map tolower b"

definition strnieq :: "cstring \<Rightarrow> cstring \<Rightarrow> nat \<Rightarrow> bool" where
  "strnieq a b n \<longleftrightarrow> map tolower (take n a) = map tolower (take n b)"

text \<open>\<open>strncmp (s, lit, strlen (lit)) == 0\<close>.\<close>

definition starts_with :: "cstring \<Rightarrow> cstring \<Rightarrow> bool" where
  "starts_with s lit \<longleftrightarrow> take (length lit) s = lit"

lemma code_numeral_char [simp]: "code (CHR 0x00) = 0"
  by (simp add: code_def)

lemma tolower_nul [simp]: "tolower ch_nul = ch_nul"
  by (simp add: tolower_def isupper_def)

lemma code_tolower: "code (tolower c) = (if 65 \<le> code c \<and> code c \<le> 90 then code c + 32 else code c)"
  using code_range [of c] by (simp add: tolower_def isupper_def)

lemma schar_zero_iff [simp]: "schar c = 0 \<longleftrightarrow> c = ch_nul"
  using code_inject [of c ch_nul] code_range [of c] by (auto simp: schar_def simp del: code_inject)

lemma schar_inject [simp]: "schar a = schar b \<longleftrightarrow> a = b"
  using code_range [of a] code_range [of b] code_inject [of a b]
  by (auto simp: schar_def split: if_splits simp del: code_inject)

lemma tolower_nul_iff [simp]: "tolower c = ch_nul \<longleftrightarrow> c = ch_nul"
proof
  assume "tolower c = ch_nul"
  then have "code (tolower c) = 0" by simp
  then show "c = ch_nul"
    using code_range [of c] code_inject [of c ch_nul]
    by (auto simp: tolower_def isupper_def split: if_splits simp del: code_inject)
qed simp

lemma nul_eq_tolower [simp]: "ch_nul = tolower c \<longleftrightarrow> c = ch_nul"
  using tolower_nul_iff [of c] by metis

lemma stricmp_zero: "no_nul a \<Longrightarrow> no_nul b \<Longrightarrow> stricmp a b = 0 \<longleftrightarrow> strieq a b"
proof (induction a b rule: stricmp.induct)
  case (1 sb)
  then show ?case by (cases sb) (auto simp: strieq_def)
next
  case (2 a sa sb)
  then show ?case by (cases sb) (auto simp: strieq_def)
qed

lemma strnicmp_nil: "strnicmp [] [] n = 0"
  by (induction n) simp_all

lemma strnieq_step:
  "strnieq (a # sa) (b # sb) (Suc n) \<longleftrightarrow> tolower a = tolower b \<and> strnieq sa sb n"
  "strnieq [] (b # sb) (Suc n) \<longleftrightarrow> False" "strnieq (a # sa) [] (Suc n) \<longleftrightarrow> False"
  "strnieq [] [] n \<longleftrightarrow> True" "strnieq sa sb 0 \<longleftrightarrow> True"
  by (auto simp: strnieq_def)

lemma strnicmp_zero: "no_nul a \<Longrightarrow> no_nul b \<Longrightarrow> strnicmp a b n = 0 \<longleftrightarrow> strnieq a b n"
proof (induction a b n rule: strnicmp.induct)
  case (2 sa sb len)
  then show ?case
    by (cases sa; cases sb) (auto simp: strnieq_step strnicmp_nil)
qed (simp add: strnieq_step)

subsection \<open>Buffers\<close>

text \<open>
  A buffer is the list of its bytes; \<open>cstr\<close> is the string it holds.  A write past its end is
  undefined behaviour in C and is the value \<open>None\<close> here.
\<close>

type_synonym cbuf = "char list"

text \<open>The size of the global line buffer.\<close>

definition BUFFERSIZE :: nat where "BUFFERSIZE = 32768"

definition cstr :: "cbuf \<Rightarrow> cstring" where
  "cstr b = takeWhile (\<lambda>c. c \<noteq> ch_nul) b"

definition buf_set :: "cbuf \<Rightarrow> nat \<Rightarrow> char \<Rightarrow> cbuf option" where
  "buf_set b i c = (if i < length b then Some (b[i := c]) else None)"

fun buf_write :: "cbuf \<Rightarrow> nat \<Rightarrow> char list \<Rightarrow> cbuf option" where
  "buf_write b i [] = Some b"
| "buf_write b i (c # cs) = do { b \<leftarrow> buf_set b i c; buf_write b (Suc i) cs }"

text \<open>\<open>d[n - 1] = 0\<close>: for \<open>n = 0\<close> the index is not in the buffer.\<close>

definition buf_close :: "cbuf \<Rightarrow> nat \<Rightarrow> cbuf option" where
  "buf_close b n = (if n = 0 then None else buf_set b (n - 1) ch_nul)"

definition str_copy :: "cbuf \<Rightarrow> nat \<Rightarrow> cstring \<Rightarrow> cbuf option" where
  "str_copy d n s = do { d \<leftarrow> buf_write d 0 (take n (s @ [ch_nul])); buf_close d n }"

definition str_append :: "cbuf \<Rightarrow> nat \<Rightarrow> cstring \<Rightarrow> cbuf option" where
  "str_append d n s =
     (let len = length (cstr d);
          max = int n - int len - 1;
          cnt = (if max < 0 then length s else nat max)
      in do { d \<leftarrow> buf_write d len (take cnt s @ [ch_nul]); buf_close d n })"

text \<open>
  The loop \<open>for (; *p && i < n; p++, i++) d[i] = *p;\<close> that \<open>str_copy2\<close> to \<open>str_copy5\<close> and
  \<open>str_append2\<close> repeat for each source.
\<close>

fun copy_loop :: "cbuf \<Rightarrow> nat \<Rightarrow> nat \<Rightarrow> cstring \<Rightarrow> (cbuf \<times> nat) option" where
  "copy_loop d n i [] = Some (d, i)"
| "copy_loop d n i (c # p) =
     (if i < n then do { d \<leftarrow> buf_set d i c; copy_loop d n (Suc i) p } else Some (d, i))"

fun copy_all :: "cbuf \<Rightarrow> nat \<Rightarrow> nat \<Rightarrow> cstring list \<Rightarrow> (cbuf \<times> nat) option" where
  "copy_all d n i [] = Some (d, i)"
| "copy_all d n i (s # ss) = do { (d, i) \<leftarrow> copy_loop d n i s; copy_all d n i ss }"

definition str_append2 :: "cbuf \<Rightarrow> nat \<Rightarrow> cstring \<Rightarrow> cstring \<Rightarrow> cbuf option" where
  "str_append2 d n s1 s2 =
     do { (d, sz) \<leftarrow> copy_all d n (length (cstr d)) [s1, s2]; buf_set d sz ch_nul }"

definition str_copy2 :: "cbuf \<Rightarrow> nat \<Rightarrow> cstring \<Rightarrow> cstring \<Rightarrow> cbuf option" where
  "str_copy2 d n s1 s2 = do { (d, i) \<leftarrow> copy_all d n 0 [s1, s2]; buf_set d i ch_nul }"

definition str_copy3 :: "cbuf \<Rightarrow> nat \<Rightarrow> cstring \<Rightarrow> cstring \<Rightarrow> cstring \<Rightarrow> cbuf option" where
  "str_copy3 d n s1 s2 s3 = do { (d, i) \<leftarrow> copy_all d n 0 [s1, s2, s3]; buf_set d i ch_nul }"

definition str_copy4 ::
  "cbuf \<Rightarrow> nat \<Rightarrow> cstring \<Rightarrow> cstring \<Rightarrow> cstring \<Rightarrow> cstring \<Rightarrow> cbuf option" where
  "str_copy4 d n s1 s2 s3 s4 =
     do { (d, i) \<leftarrow> copy_all d n 0 [s1, s2, s3, s4]; buf_set d i ch_nul }"

definition str_copy5 ::
  "cbuf \<Rightarrow> nat \<Rightarrow> cstring \<Rightarrow> cstring \<Rightarrow> cstring \<Rightarrow> cstring \<Rightarrow> cstring \<Rightarrow> cbuf option" where
  "str_copy5 d n s1 s2 s3 s4 s5 =
     do { (d, i) \<leftarrow> copy_all d n 0 [s1, s2, s3, s4, s5]; buf_set d i ch_nul }"

text \<open>\<open>str_copy_range\<close> copies the bytes between the pointers \<open>s\<close> and \<open>lim\<close>, here the list \<open>s\<close>.\<close>

fun copy_range_loop :: "cbuf \<Rightarrow> nat \<Rightarrow> nat \<Rightarrow> bytes \<Rightarrow> (cbuf \<times> nat) option" where
  "copy_range_loop d m i [] = Some (d, i)"
| "copy_range_loop d m i (c # s) =
     (if i < m then do { d \<leftarrow> buf_set d i c; copy_range_loop d m (Suc i) s } else Some (d, i))"

definition str_copy_range :: "cbuf \<Rightarrow> nat \<Rightarrow> bytes \<Rightarrow> cbuf option" where
  "str_copy_range d n s =
     (let m = (if n = 0 then 2 ^ 64 - 1 else n - 1)
      in do { (d, i) \<leftarrow> copy_range_loop d m 0 s; buf_set d i ch_nul })"

definition str_change_ext :: "cbuf \<Rightarrow> nat \<Rightarrow> cstring \<Rightarrow> cstring \<Rightarrow> cbuf option" where
  "str_change_ext new len old ext = do {
     new \<leftarrow> str_copy new len old;
     let off = nat (int (length (cstr new)) - int (length ext));
     rest \<leftarrow> str_copy (drop off new) (len - off) ext;
     Some (take off new @ rest) }"

text \<open>
  \<open>str_last\<close>: the comparison of the signed index with the \<open>size_t\<close> \<open>len\<close> is unsigned, so the index
  -1 of an empty string is clipped to \<open>len - 1\<close> too.
\<close>

definition str_last :: "cbuf \<Rightarrow> nat \<Rightarrow> char option" where
  "str_last b len =
     (let l = int (length (cstr b)) - 1;
          l = (if l < 0 \<or> l \<ge> int len then int len - 1 else l);
          l = nat (if l < 0 then 0 else l)
      in if l < length b then Some (b ! l) else None)"

lemma buf_write_eq:
  "i + length cs \<le> length b \<Longrightarrow>
     buf_write b i cs = Some (take i b @ cs @ drop (i + length cs) b)"
proof (induction cs arbitrary: b i)
  case (Cons c cs)
  then have "buf_write (b[i := c]) (Suc i) cs =
      Some (take (Suc i) (b[i := c]) @ cs @ drop (Suc i + length cs) (b[i := c]))"
    by simp
  moreover have "take (Suc i) (b[i := c]) = take i b @ [c]"
    using Cons.prems by (simp add: take_Suc_conv_app_nth)
  ultimately show ?case using Cons.prems by (simp add: buf_set_def)
qed simp

lemma buf_write_None: "i \<le> length b \<Longrightarrow> length b < i + length cs \<Longrightarrow> buf_write b i cs = None"
  by (induction cs arbitrary: b i) (auto simp: buf_set_def)

lemma copy_loop_eq:
  assumes "k = min (length s) (n - i)" "i + k \<le> length d"
  shows "copy_loop d n i s = Some (take i d @ take k s @ drop (i + k) d, i + k)"
  using assms
proof (induction s arbitrary: d i k)
  case (Cons c s)
  show ?case
  proof (cases "i < n")
    case True
    define k' where "k' = min (length s) (n - Suc i)"
    have k: "k = Suc k'" "k' = min (length s) (n - Suc i)"
      using Cons.prems True by (auto simp: k'_def min_def)
    have "take (Suc i) (d[i := c]) = take i d @ [c]"
      using Cons.prems k by (simp add: take_Suc_conv_app_nth)
    moreover have "copy_loop (d[i := c]) n (Suc i) s =
        Some (take (Suc i) (d[i := c]) @ take k' s @ drop (Suc i + k') (d[i := c]), Suc i + k')"
      by (rule Cons.IH) (use k Cons.prems in auto)
    moreover have "i < length d" using Cons.prems k by simp
    ultimately show ?thesis
      using True unfolding k(1) by (simp add: buf_set_def)
  qed (use Cons.prems in simp)
qed simp

lemma copy_all_eq:
  assumes "k = min (length (concat ss)) (n - i)" "i + k \<le> length d"
  shows "copy_all d n i ss = Some (take i d @ take k (concat ss) @ drop (i + k) d, i + k)"
  using assms
proof (induction ss arbitrary: d i k)
  case (Cons s ss)
  define k1 where "k1 = min (length s) (n - i)"
  define k2 where "k2 = min (length (concat ss)) (n - (i + k1))"
  let ?d = "take i d @ take k1 s @ drop (i + k1) d"
  have k: "k = k1 + k2" and le: "k1 \<le> length s"
    using Cons.prems by (auto simp: k1_def k2_def min_def)
  have len: "length ?d = length d"
    using Cons.prems le k by simp
  have "copy_loop d n i s = Some (?d, i + k1)"
    by (rule copy_loop_eq) (use Cons.prems k in \<open>auto simp: k1_def\<close>)
  moreover have "copy_all ?d n (i + k1) ss =
      Some (take (i + k1) ?d @ take k2 (concat ss) @ drop (i + k1 + k2) ?d, i + k1 + k2)"
    by (rule Cons.IH) (use Cons.prems k len in \<open>auto simp: k2_def\<close>)
  moreover have "take (i + k1) ?d = take i d @ take k1 s"
    using Cons.prems le k by simp
  moreover have "drop (i + k1 + k2) ?d = drop (i + k) d"
    using Cons.prems(2) le unfolding k by (simp add: ac_simps)
  moreover have "take k (s @ concat ss) = take k1 s @ take k2 (concat ss)"
  proof (cases "k1 = length s")
    case True
    then show ?thesis using k by simp
  next
    case False
    then have "k1 = n - i" by (auto simp: k1_def min_def split: if_splits)
    then show ?thesis using k le by (simp add: k2_def)
  qed
  ultimately show ?case using k by (simp add: add.assoc)
qed simp

lemma cstr_append: "no_nul s \<Longrightarrow> cstr (s @ ch_nul # r) = s"
  by (simp add: cstr_def no_nul_def takeWhile_append)

lemma cstr_whole: "no_nul s \<Longrightarrow> cstr s = s"
  by (auto simp: cstr_def no_nul_def takeWhile_eq_all_conv)

lemma cstr_no_nul [simp]: "no_nul (cstr b)"
  by (auto simp: cstr_def no_nul_def dest: set_takeWhileD)

lemma no_nul_take: "no_nul s \<Longrightarrow> no_nul (take k s)"
  by (auto simp: no_nul_def dest: in_set_takeD)

lemma take_cstr: "take (length (cstr b)) b = cstr b"
  unfolding cstr_def by (rule takeWhile_eq_take [symmetric])

lemma cstr_length_le: "length (cstr b) \<le> length b"
  by (simp add: cstr_def length_takeWhile_le)

subsection \<open>What the copies leave in the buffer\<close>

lemma close_tail:
  assumes "length xs \<le> j"
  shows "\<exists>r'. (xs @ ch_nul # r)[j := ch_nul] = xs @ ch_nul # r' \<and> length r' = length r"
proof (cases "j = length xs")
  case True
  then show ?thesis by (auto intro: exI [of _ r])
next
  case False
  then obtain i where "j = length xs + Suc i"
    using assms by (metis le_neq_implies_less less_imp_Suc_add add_Suc_right)
  then show ?thesis by (intro exI [of _ "r[i := ch_nul]"]) (simp add: list_update_append)
qed

lemma str_copy_eq:
  assumes "0 < n" "n \<le> length d" "no_nul s"
  obtains r where "str_copy d n s = Some (take (n - 1) s @ ch_nul # r)"
    "length (take (n - 1) s @ ch_nul # r) = length d"
proof -
  let ?w = "take n (s @ [ch_nul])"
  have w: "buf_write d 0 ?w = Some (?w @ drop (length ?w) d)"
    using buf_write_eq [of 0 ?w d] assms(2) by simp
  show ?thesis
  proof (cases "length s < n")
    case True
    then have "?w = s @ [ch_nul]" by simp
    with w have b: "buf_write d 0 ?w = Some (s @ ch_nul # drop (Suc (length s)) d)"
      by (simp only: length_append list.size append.assoc append_Cons append_Nil) simp
    have "length s \<le> n - 1" using True by simp
    from close_tail [OF this, of "drop (Suc (length s)) d"]
    obtain r where "(s @ ch_nul # drop (Suc (length s)) d)[n - 1 := ch_nul] = s @ ch_nul # r"
      "length r = length (drop (Suc (length s)) d)"
      by blast
    then show ?thesis
      using b True assms that [of r] by (simp add: str_copy_def buf_close_def buf_set_def)
  next
    case False
    then have "?w = take (n - 1) s @ [s ! (n - 1)]"
      using assms(1) by (simp add: take_Suc_conv_app_nth [symmetric])
    with w have "buf_write d 0 ?w = Some (take (n - 1) s @ s ! (n - 1) # drop n d)"
      using False assms(1) by simp
    moreover have "(take (n - 1) s @ s ! (n - 1) # drop n d)[n - 1 := ch_nul]
        = take (n - 1) s @ ch_nul # drop n d"
      using False by (simp add: list_update_append)
    ultimately show ?thesis
      using False assms that [of "drop n d"] by (simp add: str_copy_def buf_close_def buf_set_def)
  qed
qed

lemma str_append_eq:
  assumes "length (cstr d) < n" "n \<le> length d" "no_nul s"
  obtains r where "str_append d n s = Some (take (n - 1) (cstr d @ s) @ ch_nul # r)"
    "length (take (n - 1) (cstr d @ s) @ ch_nul # r) = length d"
proof -
  define len where "len = length (cstr d)"
  define w where "w = take (n - len - 1) s"
  have cnt: "nat (int n - int len - 1) = n - len - 1" "\<not> int n - int len - 1 < 0"
    using assms(1) by (auto simp: len_def)
  have lw: "len + length w < n" using assms(1) by (auto simp: w_def len_def)
  have "buf_write d len (w @ [ch_nul]) = Some (take len d @ (w @ [ch_nul]) @ drop (len + length (w @ [ch_nul])) d)"
    by (rule buf_write_eq) (use lw assms(2) in simp)
  moreover have "take len d = cstr d" unfolding len_def by (rule take_cstr)
  ultimately have b: "buf_write d len (w @ [ch_nul]) = Some (cstr d @ w @ ch_nul # drop (Suc (len + length w)) d)"
    by simp
  have tk: "take (n - 1) (cstr d @ s) = cstr d @ w"
    using assms(1) by (simp add: w_def len_def)
  have "length (cstr d @ w) \<le> n - 1" using lw by (simp add: len_def)
  from close_tail [OF this, of "drop (Suc (len + length w)) d"]
  obtain r where "((cstr d @ w) @ ch_nul # drop (Suc (len + length w)) d)[n - 1 := ch_nul] = (cstr d @ w) @ ch_nul # r"
    "length r = length (drop (Suc (len + length w)) d)"
    by blast
  moreover have "length (cstr d @ w) + Suc (length r) = length d"
    using \<open>length r = _\<close> lw assms(2) by (simp add: len_def)
  ultimately have "str_append d n s = Some ((cstr d @ w) @ ch_nul # r)"
    using b assms lw cnt w_def
    by (simp add: str_append_def buf_close_def buf_set_def len_def [symmetric])
  with \<open>length (cstr d @ w) + _ = _\<close> show ?thesis
    unfolding tk [symmetric] by (metis that length_append length_Cons)
qed

text \<open>
  The repaired reading of the many-source copies: they stay inside the buffer, and hold the whole
  concatenation, exactly when it is shorter than \<open>n\<close>; with more text and a buffer of \<open>n\<close> bytes the
  closing NUL lands behind the buffer.
\<close>

definition copy_close :: "cbuf \<Rightarrow> nat \<Rightarrow> nat \<Rightarrow> cstring list \<Rightarrow> cbuf option" where
  "copy_close d n i ss = do { (d, i) \<leftarrow> copy_all d n i ss; buf_set d i ch_nul }"

lemmas str_copies_close [ftn_defs] =
  str_copy2_def [folded copy_close_def] str_copy3_def [folded copy_close_def]
  str_copy4_def [folded copy_close_def] str_copy5_def [folded copy_close_def]
  str_append2_def [folded copy_close_def]

lemma copy_close_fits:
  assumes "i + length (concat ss) < n" "n \<le> length d"
  shows "copy_close d n i ss =
    Some (take i d @ concat ss @ ch_nul # drop (Suc (i + length (concat ss))) d)"
proof -
  have "copy_all d n i ss = Some (take i d @ concat ss @ drop (i + length (concat ss)) d,
      i + length (concat ss))"
    using copy_all_eq [of "length (concat ss)" ss n i d] assms by simp
  moreover have "drop (i + length (concat ss)) d
      = d ! (i + length (concat ss)) # drop (Suc (i + length (concat ss))) d"
    using assms by (intro Cons_nth_drop_Suc [symmetric]) simp
  ultimately show ?thesis
    using assms by (simp add: copy_close_def buf_set_def list_update_append)
qed

lemma copy_close_overflow:
  assumes "i \<le> n" "n \<le> i + length (concat ss)" "length d = n"
  shows "copy_close d n i ss = None"
  using copy_all_eq [of "n - i" ss n i d] assms by (simp add: copy_close_def buf_set_def)

subsection \<open>End of line and white space\<close>

text \<open>
  \<open>strip_crlf\<close> looks at the last byte of the line twice; for a line without one it reads
  \<open>line[-1]\<close>, which is the value \<open>None\<close>.  \<open>chomp\<close> is the text it leaves otherwise.
\<close>

definition strip_last :: "char \<Rightarrow> cstring \<Rightarrow> cstring option" where
  "strip_last c line =
     (if line = [] then None else if last line = c then Some (butlast line) else Some line)"

definition strip_crlf :: "cstring \<Rightarrow> cstring option" where
  "strip_crlf line = do { line \<leftarrow> strip_last ch_lf line; strip_last ch_cr line }"

definition chomp :: "cstring \<Rightarrow> cstring" where
  "chomp line =
     (let line = (if line \<noteq> [] \<and> last line = ch_lf then butlast line else line)
      in if line \<noteq> [] \<and> last line = ch_cr then butlast line else line)"

lemma strip_crlf_eq:
  "strip_crlf line = (if line = [] \<or> line = [ch_lf] then None else Some (chomp line))"
proof (cases line rule: rev_cases)
  case (snoc l c)
  then show ?thesis
    by (cases l rule: rev_cases)
       (simp_all add: strip_crlf_def strip_last_def chomp_def butlast_append)
qed (simp add: strip_crlf_def strip_last_def)

lemma chomp_line:
  "t = [] \<or> (last t \<noteq> ch_cr \<and> last t \<noteq> ch_lf) \<Longrightarrow>
     chomp (t @ [ch_cr, ch_lf]) = t \<and> chomp (t @ [ch_lf]) = t \<and> chomp (t @ [ch_cr]) = t \<and> chomp t = t"
  by (auto simp: chomp_def butlast_append)

definition strip_space :: "cstring \<Rightarrow> cstring" where
  "strip_space line = dropWhile is_space (rev (dropWhile is_space (rev line)))"

lemma strip_space_idem: "strip_space (strip_space s) = strip_space s"
proof -
  define t where "t = rev (dropWhile is_space (rev s))"
  have "rev (dropWhile is_space (rev (dropWhile is_space t))) = dropWhile is_space t"
  proof (cases "dropWhile is_space t" rule: rev_cases)
    case (snoc u c)
    have "t \<noteq> []" using snoc by auto
    then have "last t = hd (dropWhile is_space (rev s))" and "dropWhile is_space (rev s) \<noteq> []"
      by (auto simp: t_def last_rev)
    then have "\<not> is_space (last t)" by (metis hd_dropWhile)
    moreover have "last t = c"
    proof -
      have "t = takeWhile is_space t @ u @ [c]"
        using takeWhile_dropWhile_id [of is_space t] snoc by simp
      then have "last t = last (takeWhile is_space t @ u @ [c])" by (rule arg_cong)
      then show ?thesis by simp
    qed
    ultimately show ?thesis using snoc by simp
  qed (simp only: rev.simps dropWhile.simps)
  then show ?thesis by (simp add: strip_space_def t_def)
qed

definition str_dosify :: "cstring \<Rightarrow> cstring" where
  "str_dosify s = map (\<lambda>c. if c = CHR ''/'' then ch_bslash else c) s"

text \<open>
  \<open>str_expand_name\<close>: the table of \<open>%X\<close> abbreviations is generated by the build, so it is an
  argument.
\<close>

definition str_expand_name :: "(char \<Rightarrow> cstring option) \<Rightarrow> cbuf \<Rightarrow> nat \<Rightarrow> cstring \<Rightarrow> cbuf option" where
  "str_expand_name atable d n s = do {
     d \<leftarrow> buf_set d 0 ch_nul;
     if peek s = CHR ''%'' then
       (case atable (peek (tl s)) of
          None \<Rightarrow> str_append d n s
        | Some v \<Rightarrow> do { d \<leftarrow> str_append d n v; str_append d n (drop 2 s) })
     else str_append d n s }"

text \<open>
  str_copy and str_append stay inside a buffer of the given size and leave the terminated
  prefix of the text that fits.
\<close>

theorem str_copy_str_append:
  assumes "0 < n" "n \<le> length d" "no_nul a" "no_nul b"
  shows "\<exists>d1 d2. str_copy d n a = Some d1 \<and> cstr d1 = take (n - 1) a \<and>
     str_append d1 n b = Some d2 \<and> cstr d2 = take (n - 1) (a @ b) \<and> length d2 = length d"
proof -
  obtain r where 1: "str_copy d n a = Some (take (n - 1) a @ ch_nul # r)"
      "length (take (n - 1) a @ ch_nul # r) = length d"
    using str_copy_eq assms by metis
  define d1 where "d1 = take (n - 1) a @ ch_nul # r"
  have c: "cstr d1 = take (n - 1) a"
    unfolding d1_def by (intro cstr_append no_nul_take assms)
  then have "length (cstr d1) < n" using assms(1) by simp
  then obtain r2 where 2: "str_append d1 n b = Some (take (n - 1) (cstr d1 @ b) @ ch_nul # r2)"
      "length (take (n - 1) (cstr d1 @ b) @ ch_nul # r2) = length d1"
    using str_append_eq [of d1 n b] assms 1 d1_def by metis
  have t: "take (n - 1) (cstr d1 @ b) = take (n - 1) (a @ b)"
    by (cases "length a \<le> n - 1") (simp_all add: c)
  have "cstr (take (n - 1) (a @ b) @ ch_nul # r2) = take (n - 1) (a @ b)"
    by (intro cstr_append no_nul_take) (simp add: assms)
  moreover have "str_append d1 n b = Some (take (n - 1) (a @ b) @ ch_nul # r2)"
    using 2(1) unfolding t .
  moreover have "length (take (n - 1) (a @ b) @ ch_nul # r2) = length d"
    using 2(2) 1(2) unfolding t by (simp only: d1_def)
  ultimately show ?thesis using 1(1) c unfolding d1_def by blast
qed

theorem str_copy_str_append_witness:
  "\<exists>d1 d2. str_copy (replicate 6 CHR ''x'') 6 ''ab'' = Some d1 \<and> cstr d1 = take (6 - 1) ''ab'' \<and>
     str_append d1 6 ''cdefg'' = Some d2 \<and> cstr d2 = take (6 - 1) (''ab'' @ ''cdefg'') \<and>
     length d2 = length (replicate 6 CHR ''x'')"
  by (rule str_copy_str_append) simp_all

text \<open>
  C16. str_copy2, str_copy3, str_copy4, str_copy5 and str_append2 write their terminator one
  byte behind a buffer that the text fills: each has an input on which the buffer write fails.
\<close>

theorem str_copies_overflow:
  "(str_copy2 d (length d) a b \<noteq> None \<longleftrightarrow> length (a @ b) < length d) \<and>
   (str_copy3 d (length d) a b c \<noteq> None \<longleftrightarrow> length (a @ b @ c) < length d) \<and>
   (str_copy4 d (length d) a b c e \<noteq> None \<longleftrightarrow> length (a @ b @ c @ e) < length d) \<and>
   (str_copy5 d (length d) a b c e f \<noteq> None \<longleftrightarrow> length (a @ b @ c @ e @ f) < length d) \<and>
   (str_append2 d (length d) a b \<noteq> None \<longleftrightarrow> length (cstr d @ a @ b) < length d)"
proof -
  have *: "copy_close d (length d) i ss \<noteq> None \<longleftrightarrow> i + length (concat ss) < length d"
    if "i \<le> length d" for i ss
    using that copy_close_fits [of i ss "length d" d] copy_close_overflow [of i "length d" ss d]
    by (cases "i + length (concat ss) < length d") auto
  show ?thesis
    unfolding ftn_defs using * [of 0] * [of "length (cstr d)"] cstr_length_le [of d]
    by (simp only: le0 if_True concat.simps append_Nil2 length_append add_0 simp_thms)
qed

end
