(* ===== verification/Strtok.thy ===== *)
theory Strtok
  imports C_Strings
begin

text \<open>
  The tokenizer of \<open>src/common/strtok_r.c\<close> (\<open>strtok_r_ext\<close> and its quoting mode, used for every
  configuration file) and the word splitter \<open>argify\<close> / \<open>list_init\<close> of \<open>src/common/misc.c\<close>.
\<close>

subsection \<open>strtok_r_ext\<close>

text \<open>Finding the closing quote: the raw text and what is left, starting at the quote.\<close>

fun quote_scan :: "char \<Rightarrow> cstring \<Rightarrow> cstring \<times> cstring" where
  "quote_scan q [] = ([], [])"
| "quote_scan q (c # s) =
     (if c = ch_bslash \<and> s \<noteq> [] \<and> hd s = q
      then let (raw, rest) = quote_scan q (tl s) in (c # q # raw, rest)
      else if c = q then ([], c # s)
      else let (raw, rest) = quote_scan q s in (c # raw, rest))"

fun unescape :: "char \<Rightarrow> cstring \<Rightarrow> cstring" where
  "unescape q [] = []"
| "unescape q (c # s) =
     (if c = ch_bslash \<and> s \<noteq> [] \<and> hd s = q then q # unescape q (tl s) else c # unescape q s)"

text \<open>
  The arguments are \<open>s\<close> (a string or NULL), the delimiters, the saved \<open>*lasts\<close> and the quote
  character with \<open>FALSE\<close> = NUL and \<open>TRUE\<close> = 1; the result is the token and the new \<open>*lasts\<close>.
\<close>

definition strtok_r_ext ::
  "cstring option \<Rightarrow> cstring \<Rightarrow> cstring option \<Rightarrow> char \<Rightarrow> cstring option \<times> cstring option" where
  "strtok_r_ext s delim lasts quote =
     (let quote = (if quote = CHR 0x01 then ch_dquote else quote)
      in case (if s = None then lasts else s) of
        None \<Rightarrow> (None, lasts)
      | Some s \<Rightarrow>
         (let s = dropWhile (\<lambda>c. c \<in> set delim) s
          in if s = [] then (None, None)
             else if quote \<noteq> ch_nul \<and> hd s = quote then
               (let (raw, rest) = quote_scan quote (tl s)
                in (Some (unescape quote raw), Some (tl rest)))
             else
               (let tok = takeWhile (\<lambda>c. c \<notin> set delim) s;
                    rest = dropWhile (\<lambda>c. c \<notin> set delim) s
                in (Some tok,
                    if rest = [] then None
                    else Some (dropWhile (\<lambda>c. c \<in> set delim) (tl rest))))))"

text \<open>\<open>strtok_r\<close> and \<open>strtok\<close> take no quotes, \<open>xstrtok\<close> double quotes; \<open>lasts\<close> is their state.\<close>

definition strtok_r :: "cstring option \<Rightarrow> cstring \<Rightarrow> cstring option \<Rightarrow> cstring option \<times> cstring option" where
  "strtok_r s delim lasts = strtok_r_ext s delim lasts ch_nul"

definition xstrtok :: "cstring option \<Rightarrow> cstring \<Rightarrow> cstring option \<Rightarrow> cstring option \<times> cstring option" where
  "xstrtok s delim lasts = strtok_r_ext s delim lasts ch_dquote"

definition DELIM_WS :: cstring where "DELIM_WS = [ch_sp, ch_tab, ch_cr, ch_lf]"
definition DELIM_EOL :: cstring where "DELIM_EOL = [ch_cr, ch_lf]"

text \<open>The loop \<open>for (p = strtok (s, d); p; p = strtok (NULL, d))\<close>.\<close>

definition next_token :: "char \<Rightarrow> cstring \<Rightarrow> cstring option \<Rightarrow> (cstring \<times> cstring option) option" where
  "next_token q delim lasts =
     (case strtok_r_ext None delim lasts q of
        (None, _) \<Rightarrow> None | (Some tok, lasts) \<Rightarrow> Some (tok, lasts))"

definition tokens :: "char \<Rightarrow> cstring \<Rightarrow> cstring \<Rightarrow> cstring list" where
  "tokens q delim s = read_all (length s + 2) (next_token q delim) (Some s)"

fun left_of :: "cstring option \<Rightarrow> nat" where
  "left_of None = 0"
| "left_of (Some s) = Suc (length s)"

lemma quote_scan_length: "length (snd (quote_scan q s)) \<le> length s"
  by (induction q s rule: quote_scan.induct) (auto simp: split_beta)

lemma strtok_r_ext_progress:
  assumes "strtok_r_ext None delim lasts q = (Some tok, lasts')"
  shows "left_of lasts' < left_of lasts"
proof (cases lasts)
  case (Some s)
  define t where "t = dropWhile (\<lambda>c. c \<in> set delim) s"
  have t: "length t \<le> length s" by (simp add: t_def length_dropWhile_le)
  have ne: "t \<noteq> []"
    using assms Some by (auto simp: strtok_r_ext_def Let_def t_def [symmetric])
  define q' where "q' = (if q = CHR 0x01 then ch_dquote else q)"
  show ?thesis
  proof (cases "q' \<noteq> ch_nul \<and> hd t = q'")
    case True
    then have "lasts' = Some (tl (snd (quote_scan q' (tl t))))"
      using assms Some ne by (auto simp: strtok_r_ext_def t_def [symmetric] q'_def Let_def split_beta)
    moreover have "length (tl (snd (quote_scan q' (tl t)))) < length t"
      using quote_scan_length [of q' "tl t"] ne by (cases t) auto
    ultimately show ?thesis using t Some by simp
  next
    case False
    define r where "r = dropWhile (\<lambda>c. c \<notin> set delim) t"
    have lr: "lasts' = (if r = [] then None else Some (dropWhile (\<lambda>c. c \<in> set delim) (tl r)))"
      using assms Some ne False
      by (auto simp: strtok_r_ext_def t_def [symmetric] q'_def r_def Let_def split: if_splits)
    show ?thesis
    proof (cases r)
      case (Cons c r')
      have "length (dropWhile (\<lambda>c. c \<in> set delim) r') < length r"
        using length_dropWhile_le_Suc Cons by simp
      moreover have "length r \<le> length t" by (simp add: r_def length_dropWhile_le)
      ultimately show ?thesis using lr Cons t Some by simp
    qed (use lr Some in simp)
  qed
qed (use assms in \<open>simp add: strtok_r_ext_def\<close>)

interpretation tk: reader "next_token q delim" left_of for q delim
  by unfold_locales
     (auto simp: next_token_def strtok_r_ext_progress split: prod.splits option.splits)

lemma tokens_unfold:
  "tokens q delim s = (case next_token q delim (Some s) of
     None \<Rightarrow> [] | Some (t, None) \<Rightarrow> [t] | Some (t, Some r) \<Rightarrow> t # tokens q delim r)"
proof (cases "next_token q delim (Some s)")
  case (Some r)
  obtain t l where r: "r = (t, l)" by (cases r)
  have lt: "left_of l < Suc (length s)" using tk.progress Some r by fastforce
  have "tokens q delim s = t # read_all (length s + 2) (next_token q delim) l"
    unfolding tokens_def using tk.read_all_unfold [of "Some s" "length s + 2" q delim] Some r by simp
  also have "\<dots> = t # (case l of None \<Rightarrow> [] | Some r \<Rightarrow> tokens q delim r)"
  proof (cases l)
    case None
    then show ?thesis by (simp add: next_token_def strtok_r_ext_def)
  next
    case (Some u)
    then show ?thesis
      using lt tk.fuel_enough [of "Some u" "length s + 2" "length u + 2" q delim]
      by (simp only: tokens_def left_of.simps option.case)
  qed
  finally show ?thesis using Some r by (cases l) auto
qed (simp add: tokens_def)
lemma next_token_skip:
  "next_token q delim (Some (dropWhile (\<lambda>c. c \<in> set delim) s)) = next_token q delim (Some s)"
  by (simp add: next_token_def strtok_r_ext_def dropWhile_idem)

lemma next_token_skip_append:
  "set ds \<subseteq> set delim \<Longrightarrow> next_token q delim (Some (ds @ s)) = next_token q delim (Some s)"
  by (induction ds) (simp_all add: next_token_def strtok_r_ext_def)

lemma tokens_skip:
  "tokens q delim (dropWhile (\<lambda>c. c \<in> set delim) s) = tokens q delim s"
  by (subst (1 2) tokens_unfold) (simp add: next_token_skip)

lemma tokens_skip_append: "set ds \<subseteq> set delim \<Longrightarrow> tokens q delim (ds @ s) = tokens q delim s"
  by (subst (1 2) tokens_unfold) (simp add: next_token_skip_append)

lemma tokens_Nil: "tokens q delim [] = []"
  by (simp add: tokens_unfold next_token_def strtok_r_ext_def)

subsection \<open>Writing a line the tokenizer reads back\<close>

fun escape :: "char \<Rightarrow> cstring \<Rightarrow> cstring" where
  "escape q [] = []"
| "escape q (c # s) = (if c = q then ch_bslash # q # escape q s else c # escape q s)"

text \<open>A word stands in the line as it is, or between quotes with its quotes escaped.\<close>

inductive written :: "char \<Rightarrow> cstring \<Rightarrow> cstring \<Rightarrow> cstring \<Rightarrow> bool" for q delim where
  plain: "w \<noteq> [] \<Longrightarrow> set w \<inter> set delim = {} \<Longrightarrow> hd w \<noteq> q \<Longrightarrow> written q delim w w"
| quoted: "ch_bslash \<notin> set w \<Longrightarrow> written q delim w (q # escape q w @ [q])"

inductive_cases writtenE: "written q delim w t"

lemma quote_scan_escape:
  "ch_bslash \<notin> set w \<Longrightarrow> q \<noteq> ch_bslash \<Longrightarrow>
     quote_scan q (escape q w @ q # s) = (escape q w, q # s)"
  by (induction w) auto

lemma unescape_escape: "ch_bslash \<notin> set w \<Longrightarrow> q \<noteq> ch_bslash \<Longrightarrow> unescape q (escape q w) = w"
  by (induction w) auto

lemma next_token_quoted:
  assumes "ch_bslash \<notin> set w" "q \<notin> {ch_nul, ch_ctrl_a, ch_bslash}" "q \<notin> set delim"
  shows "next_token q delim (Some (q # escape q w @ q # s)) = Some (w, Some s)"
  using assms
  by (simp add: next_token_def strtok_r_ext_def quote_scan_escape unescape_escape)

lemma next_token_plain:
  assumes "w \<noteq> []" "set w \<inter> set delim = {}" "hd w \<noteq> q \<or> q = ch_nul" "sep \<in> set delim" "q \<noteq> ch_ctrl_a"
  shows "next_token q delim (Some (w @ sep # s)) = Some (w, Some (dropWhile (\<lambda>c. c \<in> set delim) s))"
proof -
  have "hd w \<notin> set delim" using assms by (cases w) auto
  then have d: "dropWhile (\<lambda>c. c \<in> set delim) (w @ sep # s) = w @ sep # s"
    using assms(1) by (cases w) auto
  have t: "takeWhile (\<lambda>c. c \<notin> set delim) (w @ sep # s) = w"
    using assms by (intro takeWhile_append_stop) auto
  have r: "dropWhile (\<lambda>c. c \<notin> set delim) (w @ sep # s) = sep # s"
    using assms by (intro dropWhile_append_stop) auto
  show ?thesis
    using assms by (auto simp: next_token_def strtok_r_ext_def d t r Let_def)
qed

lemma tokens_written:
  assumes "written q delim w t" "sep \<in> set delim" "q \<notin> {ch_nul, ch_ctrl_a, ch_bslash}" "q \<notin> set delim"
  shows "tokens q delim (t @ sep # s) = w # tokens q delim s"
  using assms(1)
proof cases
  case plain
  then have "next_token q delim (Some (t @ sep # s)) = Some (w, Some (dropWhile (\<lambda>c. c \<in> set delim) s))"
    using next_token_plain assms by auto
  then show ?thesis by (subst tokens_unfold) (simp add: tokens_skip)
next
  case quoted
  then have "next_token q delim (Some (t @ sep # s)) = Some (w, Some (sep # s))"
    using next_token_quoted [of w q delim "sep # s"] assms by simp
  then show ?thesis
    using tokens_skip_append [of "[sep]" delim q s] assms(2) by (subst tokens_unfold) simp
qed

text \<open>
  C13. Words written bare or in double quotes with escapes and joined by delimiters come back
  one by one from xstrtok.
\<close>

theorem tokens_roundtrip:
  assumes "list_all2 (written q delim) ws ts" "sep \<in> set delim"
    and "q \<notin> {ch_nul, ch_ctrl_a, ch_bslash}" "q \<notin> set delim"
  shows "tokens q delim (concat (map (\<lambda>t. t @ [sep]) ts)) = ws"
  using assms(1)
  by (induction rule: list_all2_induct) (simp_all add: tokens_Nil tokens_written [OF _ assms(2-4)])

theorem tokens_roundtrip_witness:
  "tokens ch_dquote DELIM_WS
     (concat (map (\<lambda>t. t @ [ch_sp]) [''zone'', ch_dquote # ''a b'' @ [ch_dquote]])) = [''zone'', ''a b'']"
proof (rule tokens_roundtrip)
  have "escape ch_dquote ''a b'' = ''a b''" by simp
  then have "written ch_dquote DELIM_WS ''a b'' (ch_dquote # ''a b'' @ [ch_dquote])"
    using written.quoted [of "''a b''" ch_dquote DELIM_WS] by simp
  then show "list_all2 (written ch_dquote DELIM_WS) [''zone'', ''a b''] [''zone'', ch_dquote # ''a b'' @ [ch_dquote]]"
    by (auto simp: DELIM_WS_def intro: written.plain)
qed (simp_all add: DELIM_WS_def)

subsection \<open>argify and list_init\<close>

abbreviation nonblank :: "char \<Rightarrow> bool" where
  "nonblank c \<equiv> \<not> is_blank c"

lemma length_skip_word: "p \<noteq> [] \<Longrightarrow> length (dropWhile is_blank (dropWhile nonblank p)) < length p"
  by (cases p)
     (auto intro: le_less_trans [OF length_dropWhile_le] length_dropWhile_le_Suc
       simp: length_dropWhile_le_Suc)

function argify_loop :: "cstring \<Rightarrow> cstring list" where
  "argify_loop p =
     (if p = [] then []
      else takeWhile nonblank p # argify_loop (dropWhile is_blank (dropWhile nonblank p)))"
  by auto
termination by (relation "measure length") (simp_all add: length_skip_word)

declare argify_loop.simps [simp del]

definition argify :: "cstring \<Rightarrow> cstring list" where
  "argify line = argify_loop (dropWhile is_blank line)"

text \<open>\<open>list_init\<close>: a NULL list leaves \<open>argvp\<close> as it was.\<close>

definition list_init :: "cstring list option \<Rightarrow> cstring option \<Rightarrow> cstring list option" where
  "list_init argvp list =
     (case list of None \<Rightarrow> argvp
      | Some l \<Rightarrow> Some (argify (map (\<lambda>c. if c = CHR '','' then ch_sp else c) l)))"

lemma blank_delims: "(\<lambda>c. c \<in> set [ch_sp, ch_tab]) = is_blank"
  by (auto simp: is_blank_def)

lemma argify_loop_tokens:
  "p = [] \<or> nonblank (hd p) \<Longrightarrow> argify_loop p = tokens ch_nul [ch_sp, ch_tab] p"
proof (induction p rule: argify_loop.induct)
  case (1 p)
  show ?case
  proof (cases "p = []")
    case True
    then show ?thesis by (simp add: argify_loop.simps tokens_Nil)
  next
    case False
    define r where "r = dropWhile nonblank p"
    have "dropWhile is_blank p = p" using 1 False by (cases p) auto
    then have n: "next_token ch_nul [ch_sp, ch_tab] (Some p) =
        Some (takeWhile nonblank p, if r = [] then None else Some (dropWhile is_blank (tl r)))"
      using False unfolding next_token_def strtok_r_ext_def blank_delims
      by (simp add: Let_def is_blank_def r_def)
    have r: "dropWhile is_blank r = (if r = [] then [] else dropWhile is_blank (tl r))"
    proof (cases r)
      case (Cons a l)
      then have "is_blank a"
        using hd_dropWhile [of nonblank p] by (metis r_def list.distinct(1) list.sel(1))
      then show ?thesis using Cons by simp
    qed simp
    have "dropWhile is_blank r = [] \<or> nonblank (hd (dropWhile is_blank r))"
      by (metis hd_dropWhile)
    then have "argify_loop p = takeWhile nonblank p # tokens ch_nul [ch_sp, ch_tab] (dropWhile is_blank r)"
      using 1 False by (simp add: argify_loop.simps [of p] r_def)
    then show ?thesis
      using n r by (subst tokens_unfold) (simp add: tokens_Nil)
  qed
qed

lemma argify_tokens: "argify line = tokens ch_nul [ch_sp, ch_tab] line"
proof -
  have "argify line = tokens ch_nul [ch_sp, ch_tab] (dropWhile is_blank line)"
    unfolding argify_def by (rule argify_loop_tokens) (metis hd_dropWhile)
  then show ?thesis by (metis tokens_skip blank_delims)
qed

end
