(* ===== verification/Node.thy ===== *)
theory Node
  imports Strtok "HOL-Library.Product_Lexorder"
begin

text \<open>
  FTN addresses: the \<open>Node\<close> structure of \<open>src/include/node.h\<close>, the parsers and printers of
  \<open>src/common/parsenode.c\<close> and the address functions of \<open>src/common/node.c\<close>.
\<close>

subsection \<open>The address record\<close>

abbreviation EMPTY :: int where "EMPTY \<equiv> -1"
abbreviation INVALID :: int where "INVALID \<equiv> -1"
abbreviation WILDCARD :: int where "WILDCARD \<equiv> -2"
abbreviation ERROR :: int where "ERROR \<equiv> -1"

definition MAX_DOMAIN :: nat where "MAX_DOMAIN = 32"

record fnode =
  zone :: int
  net :: int
  node :: int
  point :: int
  domain :: cstring
  flags :: int

definition mk_node :: "int \<Rightarrow> int \<Rightarrow> int \<Rightarrow> int \<Rightarrow> fnode" where
  "mk_node z n f p = \<lparr>zone = z, net = n, node = f, point = p, domain = [], flags = 0\<rparr>"

lemma mk_node_simps [simp]:
  "zone (mk_node z n f p) = z" "net (mk_node z n f p) = n" "node (mk_node z n f p) = f"
  "point (mk_node z n f p) = p" "domain (mk_node z n f p) = []" "flags (mk_node z n f p) = 0"
  by (simp_all add: mk_node_def)

definition node_clear :: "fnode \<Rightarrow> fnode" where
  "node_clear n = n\<lparr>zone := 0, net := 0, node := 0, point := 0, domain := []\<rparr>"

definition node_invalid :: "fnode \<Rightarrow> fnode" where
  "node_invalid n = n\<lparr>zone := -1, net := -1, node := -1, point := -1, domain := []\<rparr>"

definition node_eq :: "fnode \<Rightarrow> fnode \<Rightarrow> bool" where
  "node_eq a b \<longleftrightarrow> zone a = zone b \<and> net a = net b \<and> node a = node b \<and> point a = point b"

definition node_np_eq :: "fnode \<Rightarrow> fnode \<Rightarrow> bool" where
  "node_np_eq a b \<longleftrightarrow> zone a = zone b \<and> net a = net b \<and> node a = node b"

definition wild_compare_node :: "fnode \<Rightarrow> fnode \<Rightarrow> bool" where
  "wild_compare_node a b \<longleftrightarrow>
     (zone a = WILDCARD \<or> zone a = zone b) \<and> (net a = WILDCARD \<or> net a = net b) \<and>
     (node a = WILDCARD \<or> node a = node b)"

definition node_cmp :: "fnode \<Rightarrow> fnode \<Rightarrow> int" where
  "node_cmp a b =
     (if zone a < zone b then -1 else if zone a > zone b then 1
      else if net a < net b then -1 else if net a > net b then 1
      else if node a < node b then -1 else if node a > node b then 1
      else if point a < point b then -1 else if point a > point b then 1 else 0)"

text \<open>
  What identifies an address: the four numbers, ordered the way \<open>node_cmp\<close> compares them.
\<close>

datatype znfp = ZNFP int int int int

fun znfp_tuple :: "znfp \<Rightarrow> int \<times> int \<times> int \<times> int" where
  "znfp_tuple (ZNFP z n f p) = (z, n, f, p)"

definition znfp_of :: "fnode \<Rightarrow> znfp" where
  "znfp_of n = ZNFP (zone n) (net n) (node n) (point n)"

instantiation znfp :: linorder
begin

definition less_eq_znfp :: "znfp \<Rightarrow> znfp \<Rightarrow> bool" where
  "less_eq_znfp a b \<longleftrightarrow> znfp_tuple a \<le> znfp_tuple b"

definition less_znfp :: "znfp \<Rightarrow> znfp \<Rightarrow> bool" where
  "less_znfp a b \<longleftrightarrow> znfp_tuple a < znfp_tuple b"

instance
proof
  fix a b :: znfp
  show "a \<le> b \<Longrightarrow> b \<le> a \<Longrightarrow> a = b"
    by (cases a; cases b) (auto simp: less_eq_znfp_def)
qed (auto simp: less_eq_znfp_def less_znfp_def)

end

lemma node_cmp_less: "node_cmp a b < 0 \<longleftrightarrow> znfp_of a < znfp_of b"
  by (auto simp: node_cmp_def znfp_of_def less_znfp_def)

lemma node_cmp_zero: "node_cmp a b = 0 \<longleftrightarrow> node_eq a b"
  by (auto simp: node_cmp_def node_eq_def)

lemma node_eq_key: "node_eq a b \<longleftrightarrow> znfp_of a = znfp_of b"
  by (simp add: node_eq_def znfp_of_def)

lemma node_cmp_greater: "node_cmp a b > 0 \<longleftrightarrow> znfp_of b < znfp_of a"
  by (auto simp: node_cmp_def znfp_of_def less_znfp_def)

subsection \<open>Numbers\<close>

definition parse_digits :: "cstring \<Rightarrow> int" where
  "parse_digits ds = foldl (\<lambda>val c. c_int (val * 10 + code c - 48)) 0 ds"

text \<open>The result is the value and the string pointer after it; on \<open>ERROR\<close> the pointer stays.\<close>

definition znfp_get_number :: "cstring \<Rightarrow> int \<times> cstring" where
  "znfp_get_number s =
     (if peek s = CHR ''*'' then (WILDCARD, tl s)
      else if strnieq s ''all'' 3 then (WILDCARD, drop 3 s)
      else if \<not> is_digit (peek s) then (ERROR, s)
      else (parse_digits (takeWhile is_digit s), dropWhile is_digit s))"

text \<open>\<open>%d\<close> of \<open>printf\<close>.\<close>

fun dec_nat :: "nat \<Rightarrow> cstring" where
  "dec_nat n = (if n < 10 then [byte_of (48 + int n)]
                else dec_nat (n div 10) @ [byte_of (48 + int (n mod 10))])"

declare dec_nat.simps [simp del]

definition dec :: "int \<Rightarrow> cstring" where
  "dec v = (if v < 0 then CHR ''-'' # dec_nat (nat (- v)) else dec_nat (nat v))"

definition znfp_put_number :: "int \<Rightarrow> bool \<Rightarrow> cstring" where
  "znfp_put_number val wildcards = (if wildcards \<and> val = WILDCARD then ''*'' else dec val)"

subsection \<open>Parsing an address\<close>

text \<open>
  The three stages after the first number: \<open>st_char ch s val1\<close> is whether the separator \<open>ch\<close> is
  next.  A stage takes the number read so far (\<open>val1\<close>, -1 when used up), the node and the pointer.
\<close>

definition parse_stage ::
  "char \<Rightarrow> (int \<Rightarrow> fnode \<Rightarrow> fnode) \<Rightarrow> (int \<Rightarrow> fnode \<Rightarrow> fnode) \<Rightarrow> int \<times> fnode \<times> cstring
     \<Rightarrow> (int \<times> fnode \<times> cstring) option" where
  "parse_stage sep put1 put2 st =
     (let (val1, n, s) = st in
      if peek s = sep then
        (let (val1', n) = (if val1 \<noteq> -1 then (-1, put1 val1 n) else (val1, n));
             (val, s) = znfp_get_number (tl s)
         in if val = ERROR then None else Some (val1', put2 val n, s))
      else Some (val1, n, s))"

definition parse_end :: "int \<times> fnode \<times> cstring \<Rightarrow> fnode option" where
  "parse_end st =
     (let (val1, n, s) = st;
          n = (if val1 \<noteq> -1 then n\<lparr>node := val1\<rparr> else n) in
      if peek s = CHR ''@'' then Some (n\<lparr>domain := take (MAX_DOMAIN - 1) (tl s)\<rparr>)
      else if s \<noteq> [] then None
      else Some n)"

definition znfp_parse_partial :: "cstring \<Rightarrow> fnode option" where
  "znfp_parse_partial asc =
     (let n = mk_node EMPTY EMPTY EMPTY EMPTY in
      if asc = ''*'' \<or> strieq asc ''all'' \<or> strieq asc ''world'' then
        Some (mk_node WILDCARD WILDCARD WILDCARD WILDCARD)
      else if asc = [] then None
      else do {
        (val1, s) \<leftarrow> (if peek asc \<noteq> CHR ''.'' then
                      (let (v, s) = znfp_get_number asc in if v = ERROR then None else Some (v, s))
                    else Some (-1, asc));
        st \<leftarrow> parse_stage CHR '':'' (\<lambda>v n. n\<lparr>zone := v\<rparr>) (\<lambda>v n. n\<lparr>net := v\<rparr>) (val1, n, s);
        st \<leftarrow> parse_stage CHR ''/'' (\<lambda>v n. n\<lparr>net := v\<rparr>) (\<lambda>v n. n\<lparr>node := v\<rparr>) st;
        st \<leftarrow> parse_stage CHR ''.'' (\<lambda>v n. n\<lparr>node := v\<rparr>) (\<lambda>v n. n\<lparr>point := v\<rparr>) st;
        parse_end st })"

text \<open>
  The functions that fill \<open>*node\<close> and may still fail afterwards return the success flag and the
  node as they leave it.
\<close>

definition znfp_parse_diff :: "cstring \<Rightarrow> fnode \<Rightarrow> fnode \<Rightarrow> bool \<times> fnode" where
  "znfp_parse_diff asc nd oldnode =
     (case znfp_parse_partial asc of
        None \<Rightarrow> (False, nd)
      | Some n \<Rightarrow>
         (True,
          if zone n = EMPTY then
            (let n = n\<lparr>zone := zone oldnode\<rparr> in
             if net n = EMPTY then
               (let n = n\<lparr>net := net oldnode\<rparr> in
                if node n = EMPTY then n\<lparr>node := node oldnode\<rparr> else n)
             else n)
          else n))"

definition has_wildcard :: "fnode \<Rightarrow> bool" where
  "has_wildcard n \<longleftrightarrow>
     zone n = WILDCARD \<or> net n = WILDCARD \<or> node n = WILDCARD \<or> point n = WILDCARD"

definition asc_to_node :: "int \<Rightarrow> cstring \<Rightarrow> fnode \<Rightarrow> bool \<Rightarrow> bool \<times> fnode" where
  "asc_to_node defzone asc nd point_flag =
     (case znfp_parse_partial asc of
        None \<Rightarrow> (False, nd)
      | Some n \<Rightarrow>
          if has_wildcard n then (False, n)
          else
            (let n = (if zone n = EMPTY then n\<lparr>zone := defzone\<rparr> else n) in
             if net n = EMPTY \<or> node n = EMPTY then (False, n)
             else (True, if point n = EMPTY \<and> \<not> point_flag then n\<lparr>point := 0\<rparr> else n)))"

definition asc_to_node_diff :: "cstring \<Rightarrow> fnode \<Rightarrow> fnode \<Rightarrow> bool \<times> fnode" where
  "asc_to_node_diff asc nd oldnode =
     (let (ok, n) = znfp_parse_diff asc nd oldnode in
      if \<not> ok then (False, n)
      else if has_wildcard n then (False, n)
      else if zone n = EMPTY \<or> net n = EMPTY \<or> node n = EMPTY then (False, n)
      else (True, if point n = EMPTY then n\<lparr>point := 0\<rparr> else n))"

lemma znfp_get_number_length: "length (snd (znfp_get_number s)) \<le> length s"
  by (simp add: znfp_get_number_def length_dropWhile_le)

lemma pfnz_step_shorter:
  "s \<noteq> [] \<Longrightarrow> (val, t) = znfp_get_number (tl s) \<Longrightarrow> length t - Suc 0 < length s"
  using znfp_get_number_length [of "tl s"] by (cases s) (auto dest: sym)

text \<open>\<open>pfnz_to_node\<close>: the loop over the \<open>p1.f2.n3.z4\<close> components.\<close>

function pfnz_loop :: "cstring \<Rightarrow> fnode \<Rightarrow> bool \<times> fnode" where
  "pfnz_loop s nd =
     (if s = [] then (True, nd)
      else if hd s \<in> set ''pPfFnNzZ'' then
        (let c = tolower (hd s); (val, t) = znfp_get_number (tl s) in
         if val < 0 then (False, nd)
         else if peek t \<noteq> CHR ''.'' \<and> t \<noteq> [] then (False, nd)
         else pfnz_loop (tl t)
                (if c = CHR ''p'' then nd\<lparr>point := val\<rparr> else if c = CHR ''f'' then nd\<lparr>node := val\<rparr>
                 else if c = CHR ''n'' then nd\<lparr>net := val\<rparr> else nd\<lparr>zone := val\<rparr>))
      else (False, nd))"
  by auto
termination
  by (relation "measure (length o fst)") (auto simp: pfnz_step_shorter)

declare pfnz_loop.simps [simp del]

definition pfnz_to_node :: "int \<Rightarrow> cstring \<Rightarrow> fnode \<Rightarrow> bool \<times> fnode" where
  "pfnz_to_node defzone pfnz nd =
     (let nd = nd\<lparr>zone := -1, net := -1, node := -1, point := -1\<rparr>;
          (ok, nd) = pfnz_loop pfnz nd in
      if \<not> ok then (False, nd)
      else
        (let nd = (if zone nd = -1 then nd\<lparr>zone := defzone\<rparr> else nd) in
         if net nd = -1 then (False, nd)
         else if node nd = -1 then (False, nd)
         else (True, if point nd = -1 then nd\<lparr>point := 0\<rparr> else nd)))"

subsection \<open>Printing an address\<close>

definition LEN_ZNFP :: nat where "LEN_ZNFP = 48"

text \<open>The text after a \<open>str_append (s, len, t)\<close>.\<close>

definition app :: "nat \<Rightarrow> cstring \<Rightarrow> cstring \<Rightarrow> cstring" where
  "app len s t = take (len - 1) (s @ t)"

definition str_znfp_print :: "nat \<Rightarrow> fnode \<Rightarrow> bool \<Rightarrow> bool \<Rightarrow> bool \<Rightarrow> cstring" where
  "str_znfp_print len nd point0 wildcards zp_print =
     (let point0 = (if wildcards then True else point0) in
      if zone nd = INVALID \<and> net nd = INVALID \<and> node nd = INVALID \<and> point nd = INVALID then
        take (len - 1) ''INVALID''
      else if wildcards \<and> zone nd = WILDCARD \<and> net nd = WILDCARD \<and> node nd = WILDCARD \<and>
              point nd = WILDCARD then
        take (len - 1) ''*''
      else
        (let s = [];
             s = (if zone nd \<noteq> EMPTY \<and> zp_print
                  then app len (app len s (znfp_put_number (zone nd) wildcards)) '':'' else s);
             s = (if net nd \<noteq> EMPTY
                  then (let s = app len s (znfp_put_number (net nd) wildcards) in
                        if node nd \<noteq> EMPTY then app len s ''/'' else s)
                  else s);
             s = (if node nd \<noteq> EMPTY then app len s (znfp_put_number (node nd) wildcards) else s);
             s = (if \<not> (point nd = EMPTY \<or> (point nd = 0 \<and> \<not> point0)) \<and> zp_print
                  then app len (app len s ''.'') (znfp_put_number (point nd) wildcards) else s);
             s = (if domain nd \<noteq> [] then app len (app len s ''@'') (domain nd) else s)
         in s))"

definition s_znfp_print :: "fnode \<Rightarrow> bool \<Rightarrow> cstring" where
  "s_znfp_print nd wildcards = str_znfp_print LEN_ZNFP nd True wildcards True"

definition znfp1 :: "fnode \<Rightarrow> cstring" where
  "znfp1 nd = str_znfp_print LEN_ZNFP nd True True True"

definition znf1 :: "fnode \<Rightarrow> cstring" where
  "znf1 nd = str_znfp_print LEN_ZNFP nd False False True"

definition nf1 :: "fnode \<Rightarrow> cstring" where
  "nf1 nd = str_znfp_print LEN_ZNFP nd False False False"

definition node_to_pfnz :: "fnode \<Rightarrow> cstring" where
  "node_to_pfnz nd =
     (if point nd > 0
      then ''p'' @ dec (point nd) @ ''.f'' @ dec (node nd) @ ''.n'' @ dec (net nd) @ ''.z'' @ dec (zone nd)
      else ''f'' @ dec (node nd) @ ''.n'' @ dec (net nd) @ ''.z'' @ dec (zone nd))"

definition node_to_asc_diff :: "fnode \<Rightarrow> fnode \<Rightarrow> cstring" where
  "node_to_asc_diff nd oldnode =
     (let pt = (if point nd \<noteq> 0 then ''.'' @ dec (point nd) else []) in
      if zone nd = zone oldnode then
        if net nd = net oldnode then
          if node nd = node oldnode then pt
          else dec (node nd) @ pt
        else dec (net nd) @ ''/'' @ dec (node nd) @ pt
      else dec (zone nd) @ '':'' @ dec (net nd) @ ''/'' @ dec (node nd) @ pt)"

lemma byte_of_eqI: "code c = v \<Longrightarrow> byte_of v = c"
  using byte_of_code by blast

lemma byte_digits [simp]:
  "byte_of 48 = CHR ''0''" "byte_of 49 = CHR ''1''" "byte_of 50 = CHR ''2''" "byte_of 51 = CHR ''3''"
  "byte_of 52 = CHR ''4''" "byte_of 53 = CHR ''5''" "byte_of 54 = CHR ''6''" "byte_of 55 = CHR ''7''"
  "byte_of 56 = CHR ''8''" "byte_of 57 = CHR ''9''"
  by (rule byte_of_eqI, simp add: code_def)+

lemmas dec_eval = dec_def dec_nat.simps

subsection \<open>Numbers read back\<close>

definition ftn_num :: "int \<Rightarrow> bool" where
  "ftn_num v \<longleftrightarrow> 0 \<le> v \<and> v < 2147483648"

definition ends_number :: "cstring \<Rightarrow> bool" where
  "ends_number r \<longleftrightarrow> r = [] \<or> \<not> is_digit (hd r)"

lemma ends_number_simps [simp]: "ends_number []" "ends_number (c # r) \<longleftrightarrow> \<not> is_digit c"
  by (simp_all add: ends_number_def)

lemma is_digit_seps [simp]:
  "\<not> is_digit CHR '':''" "\<not> is_digit CHR ''/''" "\<not> is_digit CHR ''.''" "\<not> is_digit CHR ''@''"
  "\<not> is_digit CHR '' ''" "\<not> is_digit CHR '',''" "\<not> is_digit ch_nul"
  by (simp_all add: is_digit_def code_def)

lemma digit_byte: "k < 10 \<Longrightarrow> is_digit (byte_of (48 + int k))"
  by (simp add: is_digit_def)

lemma digit_not: "is_digit c \<Longrightarrow> \<not> is_digit d \<Longrightarrow> c \<noteq> d"
  by auto

lemma dec_nat_digits: "\<forall>c \<in> set (dec_nat n). is_digit c"
proof (induction n rule: dec_nat.induct)
  case (1 n)
  then show ?case by (subst dec_nat.simps) (auto simp: digit_byte)
qed

lemma dec_nat_not_Nil [simp]: "dec_nat n \<noteq> []"
  by (subst dec_nat.simps) simp

lemma parse_digits_snoc:
  "parse_digits (ds @ [c]) = c_int (parse_digits ds * 10 + code c - 48)"
  by (simp add: parse_digits_def)

lemma parse_dec_nat: "n < 2147483648 \<Longrightarrow> parse_digits (dec_nat n) = int n"
proof (induction n rule: dec_nat.induct)
  case (1 n)
  show ?case
  proof (cases "n < 10")
    case True
    have "is_c_int (int n)" using 1(2) by (simp add: is_c_int_def)
    then show ?thesis
      using True parse_digits_snoc [of "[]"] by (simp add: dec_nat.simps [of n] parse_digits_def)
  next
    case False
    then have "parse_digits (dec_nat (n div 10)) = int (n div 10)" using 1 by simp
    moreover have "is_c_int (int n)" using 1(2) by (simp add: is_c_int_def)
    moreover have "int (n div 10) * 10 + int (n mod 10) = int n"
      by (metis div_mult_mod_eq of_nat_add of_nat_mult of_nat_numeral)
    ultimately show ?thesis
      using False by (simp add: dec_nat.simps [of n] parse_digits_snoc)
  qed
qed

lemma dec_digits_all: "0 \<le> v \<Longrightarrow> \<forall>c \<in> set (dec v). is_digit c"
  by (simp add: dec_def dec_nat_digits)

lemma dec_not_Nil [simp]: "dec v \<noteq> []"
  by (simp add: dec_def)

lemma peek_dec: "0 \<le> v \<Longrightarrow> is_digit (peek (dec v @ r))"
  using dec_digits_all [of v] by (cases "dec v") auto

lemma dec_digits_dec_nat: "foldl (\<lambda>v c. v * 10 + (code c - 48)) 0 (dec_nat n) = int n"
proof (induction n rule: dec_nat.induct)
  case (1 n)
  show ?case
  proof (cases "n < 10")
    case True
    then show ?thesis by (subst dec_nat.simps) simp
  next
    case False
    have "48 + int (n mod 10) < 256" by simp
    then have "(48 + int (n mod 10)) mod 256 = 48 + int (n mod 10)" by simp
    moreover have "int (n div 10) * 10 + int (n mod 10) = int n"
      by (metis div_mod_decomp of_nat_add of_nat_mult of_nat_numeral)
    ultimately show ?thesis using False 1 by (subst dec_nat.simps) simp
  qed
qed

lemma digit_not_special:
  assumes "is_digit c"
  shows "\<not> is_space c" "c \<noteq> CHR 0x0B" "c \<noteq> CHR 0x0C" "c \<noteq> CHR ''-''" "c \<noteq> CHR ''+''" "c \<noteq> ch_lf" "c \<noteq> ch_nul"
  using assms by (auto simp: is_digit_def is_space_def code_def)

lemma dec_digits_dec:
  assumes "0 \<le> v" "ends_number r"
  shows "dec_digits (dec v @ r) = v"
proof -
  have "takeWhile is_digit (dec v @ r) = dec v"
    by (rule takeWhile_append_stop) (use assms dec_digits_all [of v] in \<open>auto simp: ends_number_def\<close>)
  then show ?thesis using dec_digits_dec_nat [of "nat v"] assms(1) by (simp add: dec_digits_def dec_def)
qed

lemma strnieq_digit: "is_digit (peek s) \<Longrightarrow> \<not> strnieq s ''all'' 3"
proof -
  assume d: "is_digit (peek s)"
  then have "tolower (peek s) = peek s" by (simp add: tolower_def isupper_def is_digit_def)
  moreover have "tolower CHR ''a'' = CHR ''a''" by (simp add: tolower_def isupper_def code_def)
  moreover have "peek s \<noteq> CHR ''a''" using d by (auto simp: is_digit_def code_def)
  ultimately show ?thesis by (cases s) (auto simp: strnieq_def numeral_3_eq_3)
qed

lemma znfp_get_number_dec:
  assumes "ftn_num v" "ends_number r"
  shows "znfp_get_number (dec v @ r) = (v, r)"
proof -
  have v: "0 \<le> v" using assms by (simp add: ftn_num_def)
  have d: "is_digit (peek (dec v @ r))" using peek_dec v by simp
  have "peek (dec v @ r) \<noteq> CHR ''*''" using d by (auto simp: is_digit_def code_def)
  moreover have "takeWhile is_digit (dec v @ r) = dec v" "dropWhile is_digit (dec v @ r) = r"
    using takeWhile_append_stop [OF dec_digits_all [OF v]] dropWhile_append_stop [OF dec_digits_all [OF v]]
      assms(2) unfolding ends_number_def by blast+
  moreover have "parse_digits (dec v) = v"
  proof -
    have "nat v < 2147483648" using assms(1) by (simp add: ftn_num_def nat_less_iff)
    from parse_dec_nat [OF this] show ?thesis using v by (simp add: dec_def)
  qed
  ultimately show ?thesis
    using d strnieq_digit [OF d] by (simp add: znfp_get_number_def)
qed

subsection \<open>Addresses read back\<close>

lemma stage_skip: "peek s \<noteq> sep \<Longrightarrow> parse_stage sep f g (v, n, s) = Some (v, n, s)"
  by (simp add: parse_stage_def)

lemma stage_take:
  assumes "ftn_num x" "ends_number r"
  shows "parse_stage sep f g (v, n, sep # dec x @ r)
    = Some (-1, g x (if v \<noteq> -1 then f v n else n), r)"
  using znfp_get_number_dec [OF assms] assms by (auto simp: parse_stage_def ftn_num_def)

lemma not_special:
  assumes "is_digit (peek s) \<or> peek s = CHR ''.''"
  shows "s \<noteq> ''*''" "\<not> strieq s ''all''" "\<not> strieq s ''world''" "s \<noteq> []"
proof -
  have l: "tolower (peek s) = peek s"
    using assms by (auto simp: tolower_def isupper_def is_digit_def code_def)
  have "peek s \<notin> {CHR ''*'', CHR ''a'', CHR ''w'', ch_nul}"
    using assms by (auto simp: is_digit_def code_def)
  moreover have "tolower CHR ''a'' = CHR ''a''" "tolower CHR ''w'' = CHR ''w''"
    by (simp_all add: tolower_def isupper_def code_def)
  ultimately show "s \<noteq> ''*''" "\<not> strieq s ''all''" "\<not> strieq s ''world''" "s \<noteq> []"
    using l by (cases s; auto simp: strieq_def)+
qed

text \<open>What may follow the node number: an optional point and an optional domain.\<close>

definition tail_text :: "int option \<Rightarrow> cstring \<Rightarrow> cstring" where
  "tail_text p d = (case p of None \<Rightarrow> [] | Some p \<Rightarrow> CHR ''.'' # dec p)
     @ (if d = [] then [] else CHR ''@'' # d)"

definition with_tail :: "int option \<Rightarrow> cstring \<Rightarrow> fnode \<Rightarrow> fnode" where
  "with_tail p d n = (case p of None \<Rightarrow> n | Some p \<Rightarrow> n\<lparr>point := p\<rparr>)
     \<lparr>domain := take (MAX_DOMAIN - 1) d\<rparr>"

lemma ends_number_tail [simp]: "ends_number (tail_text p d)"
  by (simp add: tail_text_def split: option.split)

lemma peek_tail: "peek (tail_text p d) \<noteq> CHR '':''" "peek (tail_text p d) \<noteq> CHR ''/''"
  by (simp_all add: tail_text_def split: option.split)

lemma parse_tail:
  assumes "pred_option ftn_num p" "domain n = []" "f = (\<lambda>v n. n\<lparr>node := v\<rparr>)"
  shows "parse_stage CHR ''.'' f (\<lambda>v n. n\<lparr>point := v\<rparr>) (v, n, tail_text p d) \<bind> parse_end
   = Some (with_tail p d (if v \<noteq> -1 then n\<lparr>node := v\<rparr> else n))"
proof (cases p)
  case None
  then have "peek (tail_text p d) \<noteq> CHR ''.''" by (simp add: tail_text_def)
  then show ?thesis using None assms(2)
    by (simp add: stage_skip parse_end_def tail_text_def with_tail_def)
next
  case (Some q)
  define r where "r = (if d = [] then [] else CHR ''@'' # d)"
  have t: "tail_text p d = CHR ''.'' # dec q @ r" by (simp add: Some tail_text_def r_def)
  have r: "ends_number r" by (simp add: r_def)
  show ?thesis unfolding t using stage_take [of q r] r assms Some
    by (simp add: parse_end_def with_tail_def r_def)
qed

lemmas parse_stages = znfp_parse_partial_def Let_def not_special stage_take stage_skip
  znfp_get_number_dec

lemma parse_first:
  assumes "ftn_num v" "ends_number r"
  shows "znfp_parse_partial (dec v @ r) = do {
     st \<leftarrow> parse_stage CHR '':'' (\<lambda>v n. n\<lparr>zone := v\<rparr>) (\<lambda>v n. n\<lparr>net := v\<rparr>) (v, mk_node EMPTY EMPTY EMPTY EMPTY, r);
     st \<leftarrow> parse_stage CHR ''/'' (\<lambda>v n. n\<lparr>net := v\<rparr>) (\<lambda>v n. n\<lparr>node := v\<rparr>) st;
     st \<leftarrow> parse_stage CHR ''.'' (\<lambda>v n. n\<lparr>node := v\<rparr>) (\<lambda>v n. n\<lparr>point := v\<rparr>) st;
     parse_end st }"
proof -
  have d: "is_digit (peek (dec v @ r))" using peek_dec assms by (simp add: ftn_num_def)
  have n: "dec v @ r \<noteq> ''*'' \<and> \<not> strieq (dec v @ r) ''all'' \<and> \<not> strieq (dec v @ r) ''world''"
    using not_special d by blast
  have p: "peek (dec v @ r) \<noteq> CHR ''.''" using d by auto
  have "v \<noteq> ERROR" using assms by (simp add: ftn_num_def)
  then show ?thesis
    using n p znfp_get_number_dec [OF assms] unfolding znfp_parse_partial_def Let_def by simp
qed

lemma parse_zone:
  assumes "ftn_num z" "ftn_num n" "ftn_num f" "pred_option ftn_num p"
  shows "znfp_parse_partial (dec z @ CHR '':'' # dec n @ CHR ''/'' # dec f @ tail_text p d)
    = Some (with_tail p d (mk_node z n f EMPTY))"
proof -
  have "z \<noteq> -1" "f \<noteq> -1" using assms by (auto simp: ftn_num_def)
  then show ?thesis
    using assms by (simp add: parse_first stage_take parse_tail bind_assoc)
       (simp add: mk_node_def)
qed

lemma parse_net:
  assumes "ftn_num n" "ftn_num f" "pred_option ftn_num p"
  shows "znfp_parse_partial (dec n @ CHR ''/'' # dec f @ tail_text p d)
    = Some (with_tail p d (mk_node EMPTY n f EMPTY))"
proof -
  have "n \<noteq> -1" "f \<noteq> -1" using assms by (auto simp: ftn_num_def)
  then show ?thesis
    using assms by (simp add: parse_first stage_skip stage_take parse_tail)
       (simp add: mk_node_def)
qed

lemma parse_node:
  assumes "ftn_num f" "pred_option ftn_num p"
  shows "znfp_parse_partial (dec f @ tail_text p d)
    = Some (with_tail p d (mk_node EMPTY EMPTY f EMPTY))"
proof -
  have "f \<noteq> -1" using assms by (auto simp: ftn_num_def)
  then show ?thesis
    using assms by (simp add: parse_first stage_skip peek_tail parse_tail)
       (simp add: mk_node_def)
qed

lemma parse_point:
  assumes "ftn_num p"
  shows "znfp_parse_partial (tail_text (Some p) d)
    = Some (with_tail (Some p) d (mk_node EMPTY EMPTY EMPTY EMPTY))"
proof -
  have p: "peek (tail_text (Some p) d) = CHR ''.''" by (simp add: tail_text_def)
  then show ?thesis
    using assms not_special [of "tail_text (Some p) d"] unfolding znfp_parse_partial_def Let_def
    by (simp add: stage_skip parse_tail)
qed

text \<open>A complete address: the four numbers in the range of \<open>int\<close> and a domain that fits.\<close>

definition valid_node :: "fnode \<Rightarrow> bool" where
  "valid_node n \<longleftrightarrow> ftn_num (zone n) \<and> ftn_num (net n) \<and> ftn_num (node n) \<and> ftn_num (point n)"

lemma ftn_num_not_special: "ftn_num v \<Longrightarrow> v \<noteq> -1 \<and> v \<noteq> -2"
  by (auto simp: ftn_num_def)

lemma ftn_num_0 [simp]: "ftn_num 0"
  by (simp add: ftn_num_def)

lemma valid_node_parts:
  assumes "valid_node n"
  shows "zone n \<noteq> -1" "net n \<noteq> -1" "node n \<noteq> -1" "point n \<noteq> -1" "\<not> has_wildcard n"
    "ftn_num (zone n)" "ftn_num (net n)" "ftn_num (node n)" "ftn_num (point n)"
  using assms by (auto simp: valid_node_def has_wildcard_def ftn_num_def)

text \<open>The printed form in full, before the buffer cuts it.\<close>

definition znf_text :: "fnode \<Rightarrow> cstring" where
  "znf_text n = dec (zone n) @ '':'' @ dec (net n) @ ''/'' @ dec (node n) @
     tail_text (if point n = 0 then None else Some (point n)) (domain n)"

lemma app_take: "app len (take (len - Suc 0) s) t = take (len - Suc 0) (s @ t)"
  by (cases "length s \<le> len - 1") (simp_all add: app_def)

lemma app_Nil: "app len [] t = take (len - Suc 0) t"
  by (simp add: app_def)

lemma str_znfp_print_valid:
  assumes "valid_node n"
  shows "str_znfp_print len n False False True = take (len - 1) (znf_text n)"
  using valid_node_parts [OF assms]
  by (auto simp: str_znfp_print_def Let_def znfp_put_number_def app_Nil app_take znf_text_def
      tail_text_def simp del: take_append)

lemma asc_to_node_text:
  assumes "valid_node n"
  shows "asc_to_node dz (znf_text n) nd False
    = (True, mk_node (zone n) (net n) (node n) (point n) \<lparr>domain := take (MAX_DOMAIN - 1) (domain n)\<rparr>)"
  using valid_node_parts [OF assms]
  by (auto simp: asc_to_node_def znf_text_def parse_zone with_tail_def has_wildcard_def mk_node_def)

text \<open>
  C10. The zone:net/node.point@domain text of an address parses back to the address.
\<close>

theorem znf1_roundtrip:
  assumes "valid_node n" "length (domain n) < MAX_DOMAIN" "length (znf_text n) < LEN_ZNFP"
  shows "asc_to_node dz (znf1 n) nd False = (True, n\<lparr>flags := 0\<rparr>)"
proof -
  have "znf1 n = znf_text n"
    using assms(3) by (simp add: znf1_def str_znfp_print_valid assms(1))
  then show ?thesis
    using assms(2) by (simp add: asc_to_node_text assms(1) mk_node_def)
qed

theorem znf1_roundtrip_witness:
  "asc_to_node 2 (znf1 ((mk_node 2 5020 545 1)\<lparr>domain := ''fidonet''\<rparr>)) (mk_node 0 0 0 0) False
     = (True, (mk_node 2 5020 545 1)\<lparr>domain := ''fidonet''\<rparr>\<lparr>flags := 0\<rparr>)"
proof (rule znf1_roundtrip)
  show "valid_node ((mk_node 2 5020 545 1)\<lparr>domain := ''fidonet''\<rparr>)"
    by (simp add: valid_node_def ftn_num_def)
  show "length (domain ((mk_node 2 5020 545 1)\<lparr>domain := ''fidonet''\<rparr>)) < MAX_DOMAIN"
    by (simp add: MAX_DOMAIN_def)
  show "length (znf_text ((mk_node 2 5020 545 1)\<lparr>domain := ''fidonet''\<rparr>)) < LEN_ZNFP"
    by (simp add: znf_text_def tail_text_def LEN_ZNFP_def dec_def dec_nat.simps)
qed

text \<open>The short form: what \<open>node_to_asc_diff\<close> prints is read back relative to the same address.\<close>

lemma asc_diff_roundtrip_aux:
  assumes "valid_node n" "valid_node (oldn\<lparr>point := 0\<rparr>)"
    and "\<not> (node_np_eq n oldn \<and> point n = 0)"
  shows "asc_to_node_diff (node_to_asc_diff n oldn) nd oldn = (True, mk_node (zone n) (net n) (node n) (point n))"
proof -
  define pt where "pt = tail_text (if point n = 0 then None else Some (point n)) []"
  note v = valid_node_parts [OF assms(1)]
  have old: "zone oldn \<noteq> -1" "net oldn \<noteq> -1" "node oldn \<noteq> -1" "zone oldn \<noteq> -2" "net oldn \<noteq> -2" "node oldn \<noteq> -2"
    using assms(2) by (auto simp: valid_node_def ftn_num_def)
  have pt: "(if point n \<noteq> 0 then ''.'' @ dec (point n) else []) = pt"
    by (simp add: pt_def tail_text_def)
  show ?thesis
  proof (cases "node_np_eq n oldn")
    case True
    then have "node_to_asc_diff n oldn = tail_text (Some (point n)) []"
      using assms(3) by (simp add: node_to_asc_diff_def node_np_eq_def tail_text_def)
    then show ?thesis
      using True old v by (auto simp: asc_to_node_diff_def znfp_parse_diff_def parse_point with_tail_def
          node_np_eq_def has_wildcard_def mk_node_def)
  next
    case False
    then show ?thesis
      unfolding node_to_asc_diff_def pt Let_def using old v
      by (auto simp: asc_to_node_diff_def znfp_parse_diff_def parse_zone parse_net parse_node
          with_tail_def node_np_eq_def has_wildcard_def mk_node_def pt_def)
  qed
qed

text \<open>
  C11. The shortest text of an address relative to a previous one parses back relative to the
  same address, unless the two differ only in that the new one is the boss node.
\<close>

theorem asc_diff_roundtrip:
  assumes "valid_node n" "valid_node (oldn\<lparr>point := 0\<rparr>)"
    and "\<not> (node_np_eq n oldn \<and> point n = 0)"
  shows "asc_to_node_diff (node_to_asc_diff n oldn) nd oldn = (True, mk_node (zone n) (net n) (node n) (point n))"
  by (rule asc_diff_roundtrip_aux [OF assms])

theorem asc_diff_roundtrip_witness:
  "asc_to_node_diff (node_to_asc_diff (mk_node 2 5020 1 7) (mk_node 2 5020 1 0)) (mk_node 0 0 0 0) (mk_node 2 5020 1 0)
     = (True, mk_node (zone (mk_node 2 5020 1 7)) (net (mk_node 2 5020 1 7)) (node (mk_node 2 5020 1 7)) (point (mk_node 2 5020 1 7)))"
  by (rule asc_diff_roundtrip) (simp_all add: valid_node_def ftn_num_def node_np_eq_def)

subsection \<open>The domain form\<close>

lemma pfnz_step:
  assumes "c \<in> set ''pPfFnNzZ''" "ftn_num v" "r = [] \<or> peek r = CHR ''.''"
  shows "pfnz_loop (c # dec v @ r) nd = pfnz_loop (tl r)
    (if tolower c = CHR ''p'' then nd\<lparr>point := v\<rparr> else if tolower c = CHR ''f'' then nd\<lparr>node := v\<rparr>
     else if tolower c = CHR ''n'' then nd\<lparr>net := v\<rparr> else nd\<lparr>zone := v\<rparr>)"
proof -
  have "ends_number r" using assms(3) by (cases r) auto
  then show ?thesis
    using assms znfp_get_number_dec [of v r]
    by (subst pfnz_loop.simps) (auto simp: ftn_num_def Let_def)
qed

lemma tolower_pfnz [simp]:
  "tolower CHR ''p'' = CHR ''p''" "tolower CHR ''f'' = CHR ''f''"
  "tolower CHR ''n'' = CHR ''n''" "tolower CHR ''z'' = CHR ''z''"
  by (simp_all add: tolower_def isupper_def code_def)

lemma pfnz_Nil: "pfnz_loop [] nd = (True, nd)"
  by (simp add: pfnz_loop.simps)

lemmas pfnz_steps = pfnz_step [of "CHR ''p''"] pfnz_step [of "CHR ''f''"] pfnz_step [of "CHR ''n''"]
  pfnz_step [of "CHR ''z''" _ "[]", simplified append_Nil2]

text \<open>
  The p.f.n.z domain form of an address parses back to the address.
\<close>

theorem pfnz_roundtrip:
  assumes "valid_node n"
  shows "pfnz_to_node dz (node_to_pfnz n) nd
    = (True, nd\<lparr>zone := zone n, net := net n, node := node n, point := point n\<rparr>)"
proof -
  have "point n = 0 \<or> point n > 0" using assms by (auto simp: valid_node_def ftn_num_def)
  then show ?thesis
    using valid_node_parts [OF assms]
    by (auto simp: pfnz_to_node_def node_to_pfnz_def pfnz_steps pfnz_Nil Let_def)
qed

theorem pfnz_roundtrip_witness:
  "pfnz_to_node 1 (node_to_pfnz (mk_node 2 5020 545 3)) (mk_node 0 0 0 0) = (True, mk_node 2 5020 545 3)"
  using pfnz_roundtrip [of "mk_node 2 5020 545 3" 1 "mk_node 0 0 0 0"]
  by (simp add: valid_node_def ftn_num_def mk_node_def)

subsection \<open>Corners of the number parser\<close>

text \<open>
  The value is accumulated in an \<open>int\<close> without a check, so large numbers come out as the special
  values: 4294967294 is read as the wildcard and 4294967295 is refused.
\<close>

lemma get_number_wraps:
  "znfp_get_number ''4294967294'' = (WILDCARD, [])" "fst (znfp_get_number ''4294967295'') = ERROR"
proof -
  have d: "is_digit CHR ''4'' \<and> is_digit CHR ''2'' \<and> is_digit CHR ''9'' \<and> is_digit CHR ''6'' \<and>
      is_digit CHR ''7'' \<and> is_digit CHR ''5''"
    by (simp add: is_digit_def code_def)
  have "\<not> strnieq ''4294967294'' ''all'' 3" "\<not> strnieq ''4294967295'' ''all'' 3"
    using d strnieq_digit [of "''4294967294''"] strnieq_digit [of "''4294967295''"] by simp_all
  then show "znfp_get_number ''4294967294'' = (WILDCARD, [])" "fst (znfp_get_number ''4294967295'') = ERROR"
    using d by (simp_all add: znfp_get_number_def parse_digits_def c_int_def code_def)
qed

end
