(* ===== verification/Lon.thy ===== *)
theory Lon
  imports Node "HOL-Library.Multiset"
begin

text \<open>
  Lists of nodes: the LON part of \<open>src/common/node.c\<close> and \<open>node_match\<close> of
  \<open>src/common/routing.c\<close>.  The doubly linked list is the list of its nodes in order; \<open>size\<close> is
  kept as its own field, as in \<open>struct st_lon\<close>.
\<close>

subsection \<open>Wildcard match\<close>

definition node_match :: "fnode \<Rightarrow> fnode \<Rightarrow> bool" where
  "node_match nd pat \<longleftrightarrow>
     (if zone pat \<noteq> EMPTY \<and> zone pat \<noteq> WILDCARD \<and> zone nd \<noteq> zone pat then False
      else if net pat \<noteq> EMPTY \<and> net pat \<noteq> WILDCARD \<and> net nd \<noteq> net pat then False
      else if node pat \<noteq> EMPTY \<and> node pat \<noteq> WILDCARD \<and> node nd \<noteq> node pat then False
      else if point pat \<noteq> EMPTY \<and> point pat \<noteq> WILDCARD \<and> point nd \<noteq> point pat then False
      else True)"

lemma node_match_self: "valid_node n \<Longrightarrow> node_match n pat \<longleftrightarrow>
    zone pat \<in> {EMPTY, WILDCARD, zone n} \<and> net pat \<in> {EMPTY, WILDCARD, net n} \<and>
    node pat \<in> {EMPTY, WILDCARD, node n} \<and> point pat \<in> {EMPTY, WILDCARD, point n}"
  by (auto simp: node_match_def)

subsection \<open>The list\<close>

record lon =
  lsize :: int
  lnodes :: "fnode list"

definition lon_init :: lon where
  "lon_init = \<lparr>lsize = 0, lnodes = []\<rparr>"

definition lon_delete :: "lon \<Rightarrow> lon" where
  "lon_delete l = lon_init"

definition lon_add :: "lon \<Rightarrow> fnode \<Rightarrow> lon" where
  "lon_add l nd = \<lparr>lsize = c_int (lsize l + 1), lnodes = lnodes l @ [nd]\<rparr>"

fun remove_first :: "fnode \<Rightarrow> fnode list \<Rightarrow> fnode list option" where
  "remove_first nd [] = None"
| "remove_first nd (p # ps) =
     (if node_eq p nd then Some ps
      else case remove_first nd ps of None \<Rightarrow> None | Some qs \<Rightarrow> Some (p # qs))"

definition lon_remove :: "lon \<Rightarrow> fnode \<Rightarrow> lon" where
  "lon_remove l nd =
     (case remove_first nd (lnodes l) of
        None \<Rightarrow> l | Some ps \<Rightarrow> \<lparr>lsize = c_int (lsize l - 1), lnodes = ps\<rparr>)"

definition lon_search :: "lon \<Rightarrow> fnode \<Rightarrow> bool" where
  "lon_search l nd = list_ex (\<lambda>p. node_eq p nd) (lnodes l)"

definition lon_search_wild :: "lon \<Rightarrow> fnode \<Rightarrow> bool" where
  "lon_search_wild l nd = list_ex (\<lambda>p. node_match nd p) (lnodes l)"

definition lon_is_uplink :: "lon \<Rightarrow> int \<Rightarrow> fnode \<Rightarrow> bool" where
  "lon_is_uplink l uplinks nd = list_ex (\<lambda>p. node_eq p nd) (take (nat uplinks) (lnodes l))"

definition lon_join :: "lon \<Rightarrow> lon \<Rightarrow> lon" where
  "lon_join l add = foldl lon_add l (lnodes add)"

subsection \<open>Reading and printing\<close>

text \<open>\<open>lon_add_string\<close> stops at the first token that is not an address.\<close>

fun lon_add_loop :: "lon \<Rightarrow> fnode \<Rightarrow> cstring list \<Rightarrow> lon" where
  "lon_add_loop l old [] = l"
| "lon_add_loop l old (p # ps) =
     (case asc_to_node_diff p old old of
        (True, nd) \<Rightarrow> lon_add_loop (lon_add l nd) nd ps
      | (False, _) \<Rightarrow> l)"

definition lon_add_string :: "int \<Rightarrow> lon \<Rightarrow> cstring \<Rightarrow> lon" where
  "lon_add_string cfzone l s =
     lon_add_loop l (mk_node cfzone (-1) (-1) (-1)) (tokens ch_nul DELIM_WS s)"

fun lon_print_loop :: "bool \<Rightarrow> cstring \<Rightarrow> fnode \<Rightarrow> fnode list \<Rightarrow> cstring" where
  "lon_print_loop short sep old [] = []"
| "lon_print_loop short sep old (p # ps) =
     (if short then node_to_asc_diff p old else znf1 p) @
     (if ps \<noteq> [] then sep else []) @
     lon_print_loop short sep (if short then p else old) ps"

definition lon_print :: "lon \<Rightarrow> bool \<Rightarrow> cstring" where
  "lon_print l short = lon_print_loop short '' '' (mk_node (-1) (-1) (-1) (-1)) (lnodes l)"

definition lon_print_passive :: "lon \<Rightarrow> cstring" where
  "lon_print_passive l = lon_print_loop True '','' (mk_node (-1) (-1) (-1) (-1)) (lnodes l)"

text \<open>
  \<open>lon_sort\<close> fills the array with the first \<open>size\<close> nodes and sorts it from index \<open>off\<close> on with
  \<open>qsort\<close> and \<open>node_cmp\<close>.
\<close>

definition lon_sort :: "lon \<Rightarrow> nat \<Rightarrow> fnode list" where
  "lon_sort l off =
     (let n = nat (lsize l); arr = take n (lnodes l) in
      if n \<le> off then arr else take off arr @ sort_key znfp_of (drop off arr))"

function print_sorted_loop :: "fnode \<Rightarrow> fnode list \<Rightarrow> cstring" where
  "print_sorted_loop old [] = []"
| "print_sorted_loop old (p # ps) =
     node_to_asc_diff p old @ (if ps \<noteq> [] then '' '' else []) @
     print_sorted_loop p (dropWhile (\<lambda>q. node_eq p q) ps)"
  by pat_completeness auto
termination by (relation "measure (length o snd)") (simp_all add: length_dropWhile_le_Suc)

definition lon_print_sorted :: "lon \<Rightarrow> nat \<Rightarrow> cstring" where
  "lon_print_sorted l cup = print_sorted_loop (mk_node (-1) (-1) (-1) (-1)) (lon_sort l cup)"

subsection \<open>Size and multiset view\<close>

text \<open>\<open>size\<close> is the number of nodes; every operation keeps it.\<close>

definition lon_ok :: "lon \<Rightarrow> bool" where
  "lon_ok l \<longleftrightarrow> lsize l = int (length (lnodes l)) \<and> length (lnodes l) < 2147483648"

definition lon_abs :: "lon \<Rightarrow> znfp multiset" where
  "lon_abs l = mset (map znfp_of (lnodes l))"

lemma lon_ok_init [simp]: "lon_ok lon_init" "lnodes lon_init = []"
  by (simp_all add: lon_ok_def lon_init_def)

lemma lnodes_add [simp]: "lnodes (lon_add l nd) = lnodes l @ [nd]"
  by (simp add: lon_add_def)

lemma lon_ok_add: "lon_ok l \<Longrightarrow> Suc (length (lnodes l)) < 2147483648 \<Longrightarrow> lon_ok (lon_add l nd)"
  by (simp add: lon_ok_def lon_add_def is_c_int_def add.commute)

lemma remove_first_None: "remove_first nd ps = None \<longleftrightarrow> (\<forall>p \<in> set ps. \<not> node_eq p nd)"
  by (induction ps) (auto split: option.splits)

lemma remove_first_Some:
  "remove_first nd ps = Some qs \<Longrightarrow>
     length ps = Suc (length qs) \<and> mset (map znfp_of ps) = add_mset (znfp_of nd) (mset (map znfp_of qs))"
  by (induction ps arbitrary: qs) (auto simp: node_eq_key split: if_splits option.splits)

lemma lon_ok_remove: "lon_ok l \<Longrightarrow> lon_ok (lon_remove l nd)"
  by (auto simp: lon_ok_def lon_remove_def is_c_int_def dest: remove_first_Some split: option.splits)

lemma lnodes_join: "lnodes (lon_join l add) = lnodes l @ lnodes add"
proof -
  have "lnodes (foldl lon_add l ns) = lnodes l @ ns" for ns
    by (induction ns arbitrary: l) auto
  then show ?thesis by (simp add: lon_join_def)
qed

lemma lon_ok_join:
  assumes "lon_ok l" "length (lnodes l) + length (lnodes add) < 2147483648"
  shows "lon_ok (lon_join l add)"
proof -
  have "lon_ok (foldl lon_add l ns)" if "lon_ok l" "length (lnodes l) + length ns < 2147483648" for ns
    using that
  proof (induction ns arbitrary: l)
    case (Cons n ns)
    then show ?case using lon_ok_add [of l n] by simp
  qed simp
  then show ?thesis using assms by (simp add: lon_join_def)
qed

lemma lon_ok_add_loop:
  "lon_ok l \<Longrightarrow> length (lnodes l) + length ps < 2147483648 \<Longrightarrow> lon_ok (lon_add_loop l old ps)"
  by (induction ps arbitrary: l old) (auto simp: lon_ok_add split: prod.splits bool.splits)


subsection \<open>Differential lists\<close>

text \<open>
  SEEN-BY and PATH lines, the nodes of an areas.bbs entry and the LON dumps have one shape: every
  item is written relative to the one before it.  The locale states the contract of the writer
  and the reader of one item; the list reads back whole.
\<close>

fun enc_all :: "('a \<Rightarrow> 'a \<Rightarrow> cstring) \<Rightarrow> 'a \<Rightarrow> 'a list \<Rightarrow> cstring list" where
  "enc_all wr old [] = []"
| "enc_all wr old (n # ns) = wr n old # enc_all wr n ns"

fun dec_all :: "(cstring \<Rightarrow> 'a \<Rightarrow> 'a option) \<Rightarrow> 'a \<Rightarrow> cstring list \<Rightarrow> 'a list" where
  "dec_all rd old [] = []"
| "dec_all rd old (t # ts) = (case rd t old of None \<Rightarrow> [] | Some n \<Rightarrow> n # dec_all rd n ts)"

fun fits_all :: "('a \<Rightarrow> 'a \<Rightarrow> bool) \<Rightarrow> 'a \<Rightarrow> 'a list \<Rightarrow> bool" where
  "fits_all fits old [] = True"
| "fits_all fits old (n # ns) = (fits old n \<and> fits_all fits n ns)"

locale diff_codec =
  fixes wr :: "'a \<Rightarrow> 'a \<Rightarrow> cstring"
    and rd :: "cstring \<Rightarrow> 'a \<Rightarrow> 'a option"
    and canon :: "'a \<Rightarrow> 'a"
    and fits :: "'a \<Rightarrow> 'a \<Rightarrow> bool"
    and delims :: cstring
  assumes dec_enc: "fits old n \<Longrightarrow> rd (wr n old) (canon old) = Some (canon n)"
    and enc_word: "fits old n \<Longrightarrow> wr n old \<noteq> [] \<and> set (wr n old) \<inter> set delims = {}"
begin

lemma dec_all_enc_all:
  "fits_all fits old ns \<Longrightarrow> dec_all rd (canon old) (enc_all wr old ns) = map canon ns"
  by (induction ns arbitrary: old) (auto simp: dec_enc)

lemma words_enc_all:
  "fits_all fits old ns \<Longrightarrow> \<forall>w \<in> set (enc_all wr old ns). w \<noteq> [] \<and> set w \<inter> set delims = {}"
  by (induction ns arbitrary: old) (use enc_word in auto)

end

text \<open>The LON instance: \<open>node_to_asc_diff\<close> and \<open>asc_to_node_diff\<close>.\<close>

definition node_canon :: "int \<Rightarrow> fnode \<Rightarrow> fnode" where
  "node_canon z n =
     (if zone n = -1 then mk_node z (-1) (-1) (-1) else mk_node (zone n) (net n) (node n) (point n))"

definition node_fits :: "fnode \<Rightarrow> fnode \<Rightarrow> bool" where
  "node_fits old n \<longleftrightarrow> valid_node n \<and>
     (zone old = -1 \<or> (valid_node old \<and> \<not> (node_np_eq n old \<and> point n = 0)))"

definition asc_diff_opt :: "cstring \<Rightarrow> fnode \<Rightarrow> fnode option" where
  "asc_diff_opt p old = (case asc_to_node_diff p old old of (True, nd) \<Rightarrow> Some nd | (False, _) \<Rightarrow> None)"

definition is_list_delim :: "char \<Rightarrow> bool" where
  "is_list_delim c \<longleftrightarrow> c \<in> {ch_sp, ch_tab, ch_cr, ch_lf, CHR '',''}"

lemma asc_diff_full:
  assumes "valid_node n" "zone n \<noteq> zone old"
  shows "asc_to_node_diff (node_to_asc_diff n old) nd old'
    = (True, mk_node (zone n) (net n) (node n) (point n))"
proof -
  have pt: "(if point n \<noteq> 0 then ''.'' @ dec (point n) else [])
      = tail_text (if point n = 0 then None else Some (point n)) []"
    by (simp add: tail_text_def)
  show ?thesis
    unfolding node_to_asc_diff_def pt Let_def using valid_node_parts [OF assms(1)] assms(2)
    by (auto simp: asc_to_node_diff_def znfp_parse_diff_def parse_zone with_tail_def
        has_wildcard_def mk_node_def)
qed

lemma not_delim_digit: "is_digit c \<Longrightarrow> \<not> is_list_delim c"
  by (auto simp: is_digit_def is_list_delim_def code_def)

lemma list_ex_dec: "0 \<le> v \<Longrightarrow> \<forall>c \<in> set (dec v). \<not> is_list_delim c"
  using dec_digits_all [of v] by (auto dest: not_delim_digit)

lemma asc_diff_chars:
  "valid_node n \<Longrightarrow> \<forall>c \<in> set (node_to_asc_diff n old). \<not> is_list_delim c"
proof -
  assume "valid_node n"
  then have "0 \<le> zone n" "0 \<le> net n" "0 \<le> node n" "0 \<le> point n"
    by (auto simp: valid_node_def ftn_num_def)
  moreover have "\<not> is_list_delim CHR '':''" "\<not> is_list_delim CHR ''/''" "\<not> is_list_delim CHR ''.''"
    by (auto simp: is_list_delim_def)
  ultimately show ?thesis
    by (auto simp: node_to_asc_diff_def Let_def dest: list_ex_dec)
qed

lemma asc_diff_not_Nil: "\<not> (node_np_eq n old \<and> point n = 0) \<Longrightarrow> node_to_asc_diff n old \<noteq> []"
  by (auto simp: node_to_asc_diff_def node_np_eq_def Let_def)

interpretation nd: diff_codec node_to_asc_diff asc_diff_opt "node_canon z" node_fits
    "[ch_sp, ch_tab, ch_cr, ch_lf, CHR '','']" for z
proof
  fix old n
  assume f: "node_fits old n"
  then have n: "valid_node n" "zone n \<noteq> -1" using valid_node_parts by (auto simp: node_fits_def)
  have c: "node_canon z n = mk_node (zone n) (net n) (node n) (point n)"
    using n by (simp add: node_canon_def)
  show "asc_diff_opt (node_to_asc_diff n old) (node_canon z old) = Some (node_canon z n)"
  proof (cases "zone n = zone old")
    case False
    then show ?thesis by (simp add: asc_diff_opt_def asc_diff_full n c)
  next
    case True
    then have o: "zone old \<noteq> -1" "valid_node old" using f n by (auto simp: node_fits_def)
    have k: "node_to_asc_diff n old = node_to_asc_diff n (node_canon z old)"
      using o by (simp add: node_canon_def node_to_asc_diff_def)
    have "valid_node ((node_canon z old)\<lparr>point := 0\<rparr>)"
      "\<not> (node_np_eq n (node_canon z old) \<and> point n = 0)"
      using o f by (auto simp: node_canon_def valid_node_def node_fits_def node_np_eq_def)
    then show ?thesis
      unfolding k by (simp add: asc_diff_opt_def asc_diff_roundtrip_aux n c)
  qed
  have "\<not> (node_np_eq n old \<and> point n = 0)"
    using f n by (auto simp: node_fits_def node_np_eq_def)
  then show "node_to_asc_diff n old \<noteq> [] \<and>
      set (node_to_asc_diff n old) \<inter> set [ch_sp, ch_tab, ch_cr, ch_lf, CHR '',''] = {}"
    using asc_diff_not_Nil asc_diff_chars [OF n(1), of old] by (auto simp: is_list_delim_def)
qed

lemma lon_add_loop_dec_all: "lnodes (lon_add_loop l old ps) = lnodes l @ dec_all asc_diff_opt old ps"
  by (induction ps arbitrary: l old) (auto simp: asc_diff_opt_def split: prod.splits bool.splits)

text \<open>Words joined by a delimiter are the tokens again.\<close>

lemma tokens_word:
  assumes "w \<noteq> []" "set w \<inter> set delim = {}"
  shows "tokens ch_nul delim w = [w]"
    and "sep \<in> set delim \<Longrightarrow> tokens ch_nul delim (w @ sep # r) = w # tokens ch_nul delim r"
proof -
  have d: "dropWhile (\<lambda>c. c \<in> set delim) w = w" using assms by (cases w) auto
  have "next_token ch_nul delim (Some w) = Some (w, None)"
    using assms by (auto simp: next_token_def strtok_r_ext_def d Let_def)
  then show "tokens ch_nul delim w = [w]" by (simp add: tokens_unfold)
  assume "sep \<in> set delim"
  then show "tokens ch_nul delim (w @ sep # r) = w # tokens ch_nul delim r"
    using next_token_plain [of w delim ch_nul sep r] assms
    by (subst tokens_unfold) (simp add: tokens_skip)
qed

lemma tokens_print_loop:
  assumes "fits_all node_fits old ns" "sep \<in> set delim" "\<forall>c \<in> set delim. is_list_delim c"
  shows "tokens ch_nul delim (lon_print_loop True [sep] old ns) = enc_all node_to_asc_diff old ns"
  using assms(1)
proof (induction ns arbitrary: old)
  case (Cons n ns)
  then have "node_fits old n" by simp
  then have w: "node_to_asc_diff n old \<noteq> []" "set (node_to_asc_diff n old) \<inter> set delim = {}"
    using nd.enc_word [of old n] asc_diff_chars [of n old] assms(3) by (auto simp: node_fits_def)
  show ?case
    using tokens_word [OF w] Cons assms(2) by (cases ns) auto
qed (simp add: tokens_Nil)

lemma list_delims_ws: "\<forall>c \<in> set DELIM_WS. is_list_delim c" "ch_sp \<in> set DELIM_WS"
  by (auto simp: DELIM_WS_def is_list_delim_def)

abbreviation no_node :: fnode where
  "no_node \<equiv> mk_node (-1) (-1) (-1) (-1)"

lemma node_canon_no_node: "node_canon z no_node = mk_node z (-1) (-1) (-1)"
  by (simp add: node_canon_def)

lemma lnodes_add_string_enc:
  assumes "fits_all node_fits no_node ns" "tokens ch_nul DELIM_WS s = enc_all node_to_asc_diff no_node ns"
  shows "lnodes (lon_add_string z l s) = lnodes l @ map (node_canon z) ns"
  unfolding lon_add_string_def assms(2) lon_add_loop_dec_all
  using nd.dec_all_enc_all [OF assms(1), of z] by (simp add: node_canon_no_node)

text \<open>
  C7. The abbreviated address list that lon_print writes is read back by lon_add_string as the
  same addresses in the same order, provided no address is the boss of the point before it.
\<close>

theorem lon_print_roundtrip:
  assumes "fits_all node_fits no_node (lnodes l)"
  shows "lnodes (lon_add_string z lon_init (lon_print l True)) = map (node_canon z) (lnodes l)"
proof -
  have "tokens ch_nul DELIM_WS (lon_print l True) = enc_all node_to_asc_diff no_node (lnodes l)"
    unfolding lon_print_def by (rule tokens_print_loop) (use assms list_delims_ws in auto)
  then show ?thesis using lnodes_add_string_enc [OF assms] by simp
qed

theorem lon_print_roundtrip_witness:
  "lnodes (lon_add_string 2 lon_init (lon_print
      \<lparr>lsize = 3, lnodes = [mk_node 2 5020 1 0, mk_node 2 5020 1 7, mk_node 2 5030 4 0]\<rparr> True))
    = map (node_canon 2) (lnodes \<lparr>lsize = 3, lnodes = [mk_node 2 5020 1 0, mk_node 2 5020 1 7, mk_node 2 5030 4 0]\<rparr>)"
  by (rule lon_print_roundtrip) (simp add: node_fits_def valid_node_def ftn_num_def node_np_eq_def)

text \<open>
  Without the ordering condition the list does not read back: a node that follows its own point
  is printed as the empty text.
\<close>

lemma lon_print_loses_boss:
  "lon_print \<lparr>lsize = 2, lnodes = [mk_node 2 5020 1 5, mk_node 2 5020 1 0]\<rparr> True = ''2:5020/1.5 ''"
  by (simp add: lon_print_def node_to_asc_diff_def dec_eval)

subsection \<open>The sorted dump\<close>

function dedup :: "fnode list \<Rightarrow> fnode list" where
  "dedup [] = []"
| "dedup (n # ns) = n # dedup (dropWhile (node_eq n) ns)"
  by pat_completeness auto
termination by (relation "measure length") (simp_all add: length_dropWhile_le_Suc)

lemma dedup_keys: "map znfp_of (dedup ns) = remdups_adj (map znfp_of ns)"
proof (induction ns rule: dedup.induct)
  case (2 n ns)
  have "dropWhile (\<lambda>y. y = znfp_of n) (map znfp_of ns) = map znfp_of (dropWhile (node_eq n) ns)"
    by (simp add: dropWhile_map node_eq_key comp_def eq_commute [of _ "znfp_of n"])
       (simp add: node_eq_key [abs_def])
  then show ?case using 2 by (simp add: remdups_adj_Cons')
qed simp

lemma set_dedup: "set (dedup ns) \<subseteq> set ns"
  by (induction ns rule: dedup.induct) (auto dest: set_dropWhileD)

lemma tokens_print_sorted_loop:
  assumes "fits_all node_fits old (dedup ns)"
  shows "tokens ch_nul DELIM_WS (print_sorted_loop old ns) = enc_all node_to_asc_diff old (dedup ns)"
  using assms
proof (induction old ns rule: print_sorted_loop.induct)
  case (2 old n ns)
  then have "node_fits old n" by simp
  then have w: "node_to_asc_diff n old \<noteq> []" "set (node_to_asc_diff n old) \<inter> set DELIM_WS = {}"
    using nd.enc_word [of old n] by (auto simp: DELIM_WS_def)
  show ?case
  proof (cases ns)
    case (Cons m ms)
    then show ?thesis using tokens_word(2) [OF w list_delims_ws(2)] 2 by simp
  qed (use tokens_word(1) [OF w] in simp)
qed (simp add: tokens_Nil)

lemma fits_sorted:
  assumes "\<forall>n \<in> set ns. valid_node n" "sorted_wrt (\<lambda>a b. znfp_of a < znfp_of b) ns"
    and "zone old = -1 \<or> valid_node old \<and> (\<forall>n \<in> set ns. znfp_of old < znfp_of n)"
  shows "fits_all node_fits old ns"
  using assms
proof (induction ns arbitrary: old)
  case (Cons n ns)
  have "\<not> (node_np_eq n old \<and> point n = 0)" if "valid_node old" "znfp_of old < znfp_of n"
    using that by (auto simp: znfp_of_def less_znfp_def node_np_eq_def valid_node_def ftn_num_def)
  then show ?case using Cons by (auto simp: node_fits_def)
qed simp

lemma sorted_keys_strict:
  "sorted (map znfp_of ns) \<Longrightarrow> sorted_wrt (\<lambda>a b. znfp_of a < znfp_of b) (dedup ns)"
proof -
  assume "sorted (map znfp_of ns)"
  then have s: "sorted (map znfp_of (dedup ns))"
    by (simp add: dedup_keys sorted_remdups_adj)
  have "sorted_wrt (<) (map znfp_of (dedup ns))"
  proof (subst sorted_wrt_iff_nth_Suc_transp, simp, intro allI impI)
    fix i assume i: "Suc i < length (map znfp_of (dedup ns))"
    then have "map znfp_of (dedup ns) ! i \<noteq> map znfp_of (dedup ns) ! Suc i"
      unfolding dedup_keys by (rule remdups_adj_adjacent)
    moreover have "map znfp_of (dedup ns) ! i \<le> map znfp_of (dedup ns) ! Suc i"
      using s i by (simp add: sorted_iff_nth_Suc del: nth_map)
    ultimately show "map znfp_of (dedup ns) ! i < map znfp_of (dedup ns) ! Suc i" by (rule order.not_eq_order_implies_strict)
  qed
  then show ?thesis by (simp add: sorted_wrt_map)
qed

text \<open>
  C6. lon_print_sorted writes a list of addresses in node_cmp order without duplicates, and
  lon_add_string reads the text back to that list.
\<close>

theorem lon_print_sorted_roundtrip:
  assumes "lon_ok l" "\<forall>n \<in> set (lnodes l). valid_node n"
  shows "map znfp_of (lnodes (lon_add_string z lon_init (lon_print_sorted l 0)))
    = remdups_adj (sort (map znfp_of (lnodes l)))"
proof -
  define ns where "ns = sort_key znfp_of (lnodes l)"
  have srt: "lon_sort l 0 = ns"
    using assms(1) by (cases "lnodes l") (simp_all add: lon_sort_def lon_ok_def ns_def)
  have v: "\<forall>n \<in> set (dedup ns). valid_node n"
    using assms(2) set_dedup [of ns] by (auto simp: ns_def)
  have f: "fits_all node_fits no_node (dedup ns)"
    by (rule fits_sorted [OF v sorted_keys_strict]) (simp_all add: ns_def)
  have "lnodes (lon_add_string z lon_init (lon_print_sorted l 0)) = map (node_canon z) (dedup ns)"
    using lnodes_add_string_enc [OF f tokens_print_sorted_loop [OF f], of z lon_init]
    by (simp add: lon_print_sorted_def srt)
  moreover have "map znfp_of (map (node_canon z) (dedup ns)) = map znfp_of (dedup ns)"
    using v by (auto simp: node_canon_def znfp_of_def valid_node_def ftn_num_def)
  moreover have "map znfp_of ns = sort (map znfp_of (lnodes l))"
    by (intro properties_for_sort [symmetric]) (simp_all add: ns_def)
  ultimately show ?thesis by (simp add: dedup_keys)
qed

theorem lon_print_sorted_roundtrip_witness:
  "map znfp_of (lnodes (lon_add_string 1 lon_init (lon_print_sorted
      \<lparr>lsize = 3, lnodes = [mk_node 2 5020 9 4, mk_node 2 5020 9 0, mk_node 2 5020 9 4]\<rparr> 0)))
    = remdups_adj (sort (map znfp_of
        (lnodes \<lparr>lsize = 3, lnodes = [mk_node 2 5020 9 4, mk_node 2 5020 9 0, mk_node 2 5020 9 4]\<rparr>)))"
  by (rule lon_print_sorted_roundtrip) (simp_all add: lon_ok_def valid_node_def ftn_num_def)

end
