(* ===== verification/Config.thy ===== *)
theory Config
  imports Lon
begin

text \<open>
  The configuration: \<open>src/common/config.c\<close>.  The static variables of the file are the fields of one
  record.  The tables of zones and DOS drives are lists as long as their counters; \<open>scf_addr\<close> is the
  array of \<open>MAXADDRESS\<close> entries it is, because \<open>Address\<close>, \<open>Uplink\<close> and \<open>GateAddress\<close> lines fill its
  columns independently.

  A configuration file is its bytes.  \<open>exit\<close> is the value \<open>None\<close>.
\<close>

definition MAXADDRESS :: nat where "MAXADDRESS = 32"
definition MAXDOSDRIVE :: nat where "MAXDOSDRIVE = 16"
definition MAXPATH :: nat where "MAXPATH = 4096"

record cfg_addr =
  ca_zone :: int
  ca_addr :: fnode
  ca_uplink :: fnode
  ca_gate :: fnode

record cfg_zone =
  cz_zone :: int
  cz_inet :: cstring
  cz_ftn :: cstring
  cz_out :: cstring

record config =
  scf_hostname :: cstring
  scf_domainname :: cstring
  scf_hostsdomain :: cstring
  scf_fqdn :: cstring
  scf_addr :: "cfg_addr list"
  scf_naddr :: nat
  scf_zone :: int
  scf_index :: nat
  scf_c_addr :: fnode
  scf_c_uplink :: fnode
  scf_ia :: nat
  scf_ir :: nat
  scf_ig :: nat
  scf_zones :: "cfg_zone list"
  scf_dos :: "(cstring \<times> cstring) list"
  scf_gateway :: fnode
  scf_list :: "(cstring \<times> cstring) list"

definition scf_start :: config where
  "scf_start =
     \<lparr>scf_hostname = [], scf_domainname = [], scf_hostsdomain = [], scf_fqdn = [],
      scf_addr = replicate MAXADDRESS
        \<lparr>ca_zone = 0, ca_addr = mk_node 0 0 0 0, ca_uplink = mk_node 0 0 0 0, ca_gate = mk_node 0 0 0 0\<rparr>,
      scf_naddr = 0, scf_zone = 0, scf_index = 0, scf_c_addr = mk_node (-1) (-1) (-1) (-1),
      scf_c_uplink = mk_node (-1) (-1) (-1) (-1), scf_ia = 0, scf_ir = 0, scf_ig = 0, scf_zones = [],
      scf_dos = [], scf_gateway = mk_node 0 0 0 0, scf_list = []\<rparr>"

definition BUFSIZ :: nat where "BUFSIZ = 8192"

text \<open>\<open>BUF_COPY\<close> into an array of \<open>n\<close> bytes keeps what fits (\<open>str_copy_eq\<close>).\<close>

definition buf_copy :: "nat \<Rightarrow> cstring \<Rightarrow> cstring" where
  "buf_copy n s = take (n - 1) s"

abbreviation upd_addr :: "nat \<Rightarrow> (cfg_addr \<Rightarrow> cfg_addr) \<Rightarrow> config \<Rightarrow> config" where
  "upd_addr i f c \<equiv> c\<lparr>scf_addr := (scf_addr c)[i := f (scf_addr c ! i)]\<rparr>"

subsection \<open>Addresses\<close>

text \<open>The loops over the first entries of the table run with the index.\<close>

fun gate_addrs :: "nat \<Rightarrow> config \<Rightarrow> config" where
  "gate_addrs 0 c = c"
| "gate_addrs (Suc i) c =
     upd_addr i (\<lambda>a. a\<lparr>ca_uplink := ca_addr a, ca_addr := ca_gate a\<rparr>) (gate_addrs i c)"

fun copy_uplinks :: "nat \<Rightarrow> config \<Rightarrow> config" where
  "copy_uplinks 0 c = c"
| "copy_uplinks (Suc i) c = upd_addr i (\<lambda>a. a\<lparr>ca_uplink := ca_addr a\<rparr>) (copy_uplinks i c)"

definition cf_i_am_a_gateway_prog :: "config \<Rightarrow> config" where
  "cf_i_am_a_gateway_prog c =
     (if scf_ig c \<noteq> 0 then gate_addrs (scf_ig c) c
      else if scf_ir c = 0 then (copy_uplinks (scf_ia c) c)\<lparr>scf_ir := scf_ia c\<rparr>
      else c)"

definition cf_check_gate :: "config \<Rightarrow> config option" where
  "cf_check_gate c = (if scf_ia c = 0 then None else Some c)"

definition cf_main_addr :: "config \<Rightarrow> fnode" where
  "cf_main_addr c = ca_addr (scf_addr c ! 0)"

definition cf_addr :: "config \<Rightarrow> fnode" where "cf_addr c = scf_c_addr c"
definition cf_uplink :: "config \<Rightarrow> fnode" where "cf_uplink c = scf_c_uplink c"
definition cf_zone :: "config \<Rightarrow> int" where "cf_zone c = scf_zone c"
definition cf_defzone :: "config \<Rightarrow> int" where "cf_defzone c = ca_zone (scf_addr c ! 0)"
definition cf_gateway :: "config \<Rightarrow> fnode" where "cf_gateway c = scf_gateway c"

text \<open>The three searches of \<open>cf_get_best\<close>, each from the start of the table.\<close>

definition find_addr :: "config \<Rightarrow> (cfg_addr \<Rightarrow> bool) \<Rightarrow> nat option" where
  "find_addr c P = List.find (\<lambda>i. P (scf_addr c ! i)) [0..<scf_naddr c]"

text \<open>The result code, the address, the uplink and the index; nothing is stored for \<open>-1\<close>.\<close>

definition cf_get_best :: "config \<Rightarrow> fnode \<Rightarrow> int \<times> (fnode \<times> fnode \<times> nat) option" where
  "cf_get_best c dest =
     (if scf_naddr c = 0 then (-1, None)
      else
        (let at = (\<lambda>i. Some (ca_addr (scf_addr c ! i), ca_uplink (scf_addr c ! i), i))
         in case find_addr c (\<lambda>a. zone dest = ca_zone a \<and> net dest = net (ca_addr a) \<and> node dest = node (ca_addr a)) of
              Some i \<Rightarrow> (0, at i)
            | None \<Rightarrow>
                (case find_addr c (\<lambda>a. zone dest = ca_zone a \<and> net dest = net (ca_addr a)) of
                   Some i \<Rightarrow> (0, at i)
                 | None \<Rightarrow>
                     (case find_addr c (\<lambda>a. zone dest = ca_zone a) of
                        Some i \<Rightarrow> (0, at i)
                      | None \<Rightarrow> (1, at 0)))))"

text \<open>Without \<open>BEST_AKA\<close> only the zone counts.\<close>

definition cf_set_best :: "int \<Rightarrow> int \<Rightarrow> int \<Rightarrow> config \<Rightarrow> config option" where
  "cf_set_best z n f c =
     (let dest = (mk_node z n f 0)\<lparr>net := -1, node := -1\<rparr>
      in case cf_get_best c dest of
           (rc, Some (aka, up, i)) \<Rightarrow>
             Some (c\<lparr>scf_c_addr := aka, scf_c_uplink := up, scf_index := i, scf_zone := z\<rparr>)
         | (rc, None) \<Rightarrow> None)"

definition cf_set_zone :: "int \<Rightarrow> config \<Rightarrow> config option" where
  "cf_set_zone z c = cf_set_best z (-1) (-1) c"

definition cf_set_curr :: "fnode \<Rightarrow> config \<Rightarrow> config option" where
  "cf_set_curr nd c =
     do { c \<leftarrow> cf_set_best (zone nd) (net nd) (node nd) c; Some (c\<lparr>scf_c_addr := nd\<rparr>) }"

text \<open>\<open>cf_addr_trav\<close>: the address at the saved position, and the position after it.\<close>

definition cf_addr_trav :: "config \<Rightarrow> bool \<Rightarrow> nat \<Rightarrow> fnode option \<times> nat" where
  "cf_addr_trav c first iaddr =
     (let i = (if first then 0 else iaddr)
      in if i \<ge> scf_naddr c then (None, i) else (Some (ca_addr (scf_addr c ! i)), Suc i))"

text \<open>\<open>cf_set_addr\<close> and \<open>cf_set_uplink\<close>; \<open>inet_to_ftn\<close> is the other notation for an address.\<close>

definition given_addr :: "(cstring \<Rightarrow> fnode option) \<Rightarrow> config \<Rightarrow> cstring \<Rightarrow> fnode option" where
  "given_addr inet_to_ftn c s =
     (case asc_to_node (cf_defzone c) s (mk_node 0 0 0 0) False of
        (True, nd) \<Rightarrow> Some nd | (False, _) \<Rightarrow> inet_to_ftn s)"

abbreviation select_first :: "config \<Rightarrow> config" where
  "select_first c \<equiv> c\<lparr>scf_index := 0, scf_c_addr := ca_addr (scf_addr c ! 0), scf_c_uplink := ca_uplink (scf_addr c ! 0)\<rparr>"

definition cf_set_addr :: "(cstring \<Rightarrow> fnode option) \<Rightarrow> cstring \<Rightarrow> config \<Rightarrow> config option" where
  "cf_set_addr inet_to_ftn s c =
     (case given_addr inet_to_ftn c s of
        None \<Rightarrow> None
      | Some nd \<Rightarrow>
          (let c = c\<lparr>scf_naddr := 1, scf_ia := 1, scf_ig := 0, scf_ir := 0\<rparr>;
               c = upd_addr 0 (\<lambda>a. a\<lparr>ca_zone := zone nd, ca_addr := nd\<rparr>) c
           in Some (select_first (c\<lparr>scf_zone := zone nd\<rparr>))))"

fun set_uplinks :: "fnode \<Rightarrow> nat \<Rightarrow> config \<Rightarrow> config" where
  "set_uplinks nd 0 c = c"
| "set_uplinks nd (Suc i) c = upd_addr i (\<lambda>a. a\<lparr>ca_uplink := nd\<rparr>) (set_uplinks nd i c)"

definition cf_set_uplink :: "(cstring \<Rightarrow> fnode option) \<Rightarrow> cstring \<Rightarrow> config \<Rightarrow> config option" where
  "cf_set_uplink inet_to_ftn s c =
     (case given_addr inet_to_ftn c s of
        None \<Rightarrow> None
      | Some nd \<Rightarrow>
          (let c = (set_uplinks nd (scf_naddr c) c)\<lparr>scf_ir := 1\<rparr>;
               c = upd_addr 0 (\<lambda>a. a\<lparr>ca_uplink := nd\<rparr>) c
           in Some (select_first (c\<lparr>scf_zone := ca_zone (scf_addr c ! 0)\<rparr>))))"

subsection \<open>Zones\<close>

definition zone_entry :: "config \<Rightarrow> int \<Rightarrow> cfg_zone option" where
  "zone_entry c z = List.find (\<lambda>e. cz_zone e = z) (scf_zones c)"

text \<open>The entry of the zone, else of the zone 0 (\<open>default\<close>), else a fixed text.\<close>

definition cf_zones_inet_domain :: "cstring \<Rightarrow> config \<Rightarrow> int \<Rightarrow> cstring" where
  "cf_zones_inet_domain invalid_domain c z =
     (case zone_entry c z of
        Some e \<Rightarrow> cz_inet e
      | None \<Rightarrow> (case zone_entry c 0 of Some e \<Rightarrow> cz_inet e | None \<Rightarrow> invalid_domain))"

definition cf_zones_check :: "config \<Rightarrow> int \<Rightarrow> bool" where
  "cf_zones_check c z = list_ex (\<lambda>e. cz_zone e \<noteq> 0 \<and> cz_zone e = z) (scf_zones c)"

definition cf_zones_trav :: "config \<Rightarrow> bool \<Rightarrow> nat \<Rightarrow> cstring option \<times> nat" where
  "cf_zones_trav c first izones =
     (let i = (if first then 0 else izones)
      in if i < length (scf_zones c) then (Some (cz_inet (scf_zones c ! i)), Suc i) else (None, i))"

definition cf_zones_out :: "config \<Rightarrow> int \<Rightarrow> cstring option" where
  "cf_zones_out c z = map_option cz_out (zone_entry c z)"

definition cf_out_get :: "config \<Rightarrow> nat \<Rightarrow> cstring option" where
  "cf_out_get c i = (if i < length (scf_zones c) then Some (cz_out (scf_zones c ! i)) else None)"

definition cf_zones_ftn_domain :: "config \<Rightarrow> int \<Rightarrow> cstring" where
  "cf_zones_ftn_domain c z =
     (case zone_entry c z of
        Some e \<Rightarrow> cz_ftn e
      | None \<Rightarrow> (case zone_entry c 0 of Some e \<Rightarrow> cz_ftn e | None \<Rightarrow> ''fidonet''))"

definition cf_zones_add :: "cfg_zone \<Rightarrow> config \<Rightarrow> config" where
  "cf_zones_add e c = (if length (scf_zones c) \<ge> MAXADDRESS then c else c\<lparr>scf_zones := scf_zones c @ [e]\<rparr>)"

subsection \<open>File names of DOS systems\<close>

definition cf_dos :: "config \<Rightarrow> bool" where
  "cf_dos c \<longleftrightarrow> scf_dos c \<noteq> []"

text \<open>
  The result is \<open>None\<close> when \<open>BUF_COPY2\<close> runs over the static buffer, \<open>Some None\<close> for NULL.
\<close>

definition xlate_copy :: "cstring \<Rightarrow> cstring \<Rightarrow> (char \<Rightarrow> char) \<Rightarrow> cstring option option" where
  "xlate_copy pre rest sw =
     map_option (\<lambda>b. Some (map sw (cstr b))) (str_copy2 (replicate MAXPATH ch_nul) MAXPATH pre rest)"

fun dos_xlate_loop :: "(cstring \<times> cstring) list \<Rightarrow> cstring \<Rightarrow> cstring option option" where
  "dos_xlate_loop [] name = Some None"
| "dos_xlate_loop ((drive, unix) # ds) name =
     (if starts_with name unix
      then xlate_copy drive (drop (length unix) name) (\<lambda>c. if c = CHR ''/'' then ch_bslash else c)
      else dos_xlate_loop ds name)"

definition cf_dos_xlate :: "config \<Rightarrow> cstring \<Rightarrow> cstring option option" where
  "cf_dos_xlate c name = dos_xlate_loop (scf_dos c) name"

fun unix_xlate_loop :: "(cstring \<times> cstring) list \<Rightarrow> cstring \<Rightarrow> cstring option option" where
  "unix_xlate_loop [] name = Some None"
| "unix_xlate_loop ((drive, unix) # ds) name =
     (if strnicmp name drive (length drive) = 0
      then xlate_copy unix (drop (length drive) name) (\<lambda>c. if c = ch_bslash then CHR ''/'' else c)
      else unix_xlate_loop ds name)"

definition cf_unix_xlate :: "config \<Rightarrow> cstring \<Rightarrow> cstring option option" where
  "cf_unix_xlate c name = unix_xlate_loop (scf_dos c) name"

subsection \<open>Other statements\<close>

text \<open>
  \<open>cf_get_string\<close> with its static pointer, the rest of the list: the string, and the new pointer.
\<close>

fun string_loop :: "cstring \<Rightarrow> (cstring \<times> cstring) list \<Rightarrow> cstring option \<times> (cstring \<times> cstring) list" where
  "string_loop name [] = (None, [])"
| "string_loop name ((k, v) # ls) = (if stricmp k name = 0 then (Some v, ls) else string_loop name ls)"

definition cf_get_string :: "config \<Rightarrow> cstring \<Rightarrow> bool \<Rightarrow> (cstring \<times> cstring) list
    \<Rightarrow> cstring option \<times> (cstring \<times> cstring) list" where
  "cf_get_string c name first last_listp = string_loop name (if first then scf_list c else last_listp)"

definition cf_p_organization :: "config \<Rightarrow> cstring" where
  "cf_p_organization c =
     (case fst (cf_get_string c ''Organization'' True []) of Some v \<Rightarrow> v | None \<Rightarrow> ''FIDOGATE'')"

definition cf_p_origin :: "config \<Rightarrow> cstring" where
  "cf_p_origin c = (case fst (cf_get_string c ''Origin'' True []) of Some v \<Rightarrow> v | None \<Rightarrow> ''FIDOGATE'')"

subsection \<open>Lines\<close>

text \<open>\<open>fgets\<close> into a buffer of \<open>n\<close> bytes: the bytes up to a line end, and the rest.\<close>

definition fgets :: "nat \<Rightarrow> bytes \<Rightarrow> (bytes \<times> bytes) option" where
  "fgets n fp =
     (if fp = [] \<or> n \<le> 1 then None
      else
        (let chunk = take (n - 1) fp;
             line = takeWhile (\<lambda>c. c \<noteq> ch_lf) chunk;
             len = (if length line < length chunk then Suc (length line) else length line)
         in Some (take len fp, drop len fp)))"

lemma fgets_shorter: "fgets n fp = Some (line, rest) \<Longrightarrow> length rest < length fp"
  by (cases fp; cases "n - 1") (auto simp: fgets_def Let_def split: if_splits)

text \<open>
  \<open>cf_getline\<close>, to the end of the file: the lines without line ends and leading white space, but for
  the comments.  Empty lines are not left out.
\<close>

function cf_lines :: "nat \<Rightarrow> bytes \<Rightarrow> cstring list" where
  "cf_lines n fp =
     (case fgets n fp of
        None \<Rightarrow> []
      | Some (line, rest) \<Rightarrow>
          (let p = dropWhile is_space (chomp (cstr line))
           in if peek p = CHR ''#'' then cf_lines n rest else p # cf_lines n rest))"
  by pat_completeness auto
termination by (relation "measure (length o snd)") (auto simp: fgets_shorter)

declare cf_lines.simps [simp del]

lemma fgets_line:
  assumes "ch_lf \<notin> set l" "length l + 1 < n"
  shows "fgets n (l @ ch_lf # rest) = Some (l @ [ch_lf], rest)"
proof -
  define k where "k = n - length l - 2"
  have k: "n = Suc (length l + Suc k)" using assms(2) by (simp add: k_def)
  have "takeWhile (\<lambda>c. c \<noteq> ch_lf) (l @ ch_lf # take k rest) = l"
    by (rule takeWhile_append_stop) (use assms(1) in auto)
  then show ?thesis by (simp add: fgets_def Let_def k)
qed

lemma fgets_last:
  assumes "l \<noteq> []" "ch_lf \<notin> set l" "length l < n"
  shows "fgets n l = Some (l, [])"
proof -
  have "takeWhile (\<lambda>c. c \<noteq> ch_lf) l = l" using assms(2) by (auto simp: takeWhile_eq_all_conv)
  then show ?thesis using assms by (cases l) (auto simp: fgets_def Let_def)
qed

lemma cf_lines_Nil [simp]: "cf_lines n [] = []"
  by (subst cf_lines.simps) (simp add: fgets_def)

text \<open>The text of a line as \<open>cf_getline\<close> returns it, and files of whole lines.\<close>

definition cf_line :: "cstring \<Rightarrow> cstring list" where
  "cf_line l = (let p = dropWhile is_space (chomp l) in if peek p = CHR ''#'' then [] else [p])"

lemma cf_lines_line:
  assumes "ch_lf \<notin> set l" "no_nul l" "length l + 1 < n"
  shows "cf_lines n (l @ ch_lf # rest) = cf_line (l @ [ch_lf]) @ cf_lines n rest"
proof -
  have "cstr (l @ [ch_lf]) = l @ [ch_lf]" using assms(2) by (intro cstr_whole) (auto simp: no_nul_def)
  then show ?thesis
    using fgets_line [OF assms(1,3), of rest] by (subst cf_lines.simps) (simp add: cf_line_def Let_def)
qed

lemma cf_lines_last:
  assumes "l \<noteq> []" "ch_lf \<notin> set l" "no_nul l" "length l < n"
  shows "cf_lines n l = cf_line l"
  using fgets_last [OF assms(1,2,4)] assms(3)
  by (subst cf_lines.simps) (simp add: cstr_whole cf_line_def Let_def)

definition WS :: cstring where "WS = [ch_sp, ch_tab]"

text \<open>The keyword of a line, and the \<open>xstrtok\<close> state behind it.\<close>

definition word1 :: "cstring \<Rightarrow> (cstring \<times> cstring option) option" where
  "word1 line = (case xstrtok (Some line) WS None of (None, l) \<Rightarrow> None | (Some w, l) \<Rightarrow> Some (w, l))"

definition add_address :: "cstring option \<Rightarrow> (fnode \<Rightarrow> config \<Rightarrow> config) \<Rightarrow> config \<Rightarrow> config" where
  "add_address p f c =
     (case p of
        None \<Rightarrow> c
      | Some p \<Rightarrow>
          (case asc_to_node (cf_defzone c) p (mk_node 0 0 0 0) False of
             (True, a) \<Rightarrow> f a c | (False, _) \<Rightarrow> c))"

definition dotted :: "cstring \<Rightarrow> cstring" where
  "dotted p = (if peek p = CHR ''.'' then buf_copy MAXPATH p else buf_copy MAXPATH (''.'' @ p))"

definition zone_line :: "cstring option \<Rightarrow> config \<Rightarrow> config" where
  "zone_line l c =
     (if length (scf_zones c) \<ge> MAXADDRESS then c
      else
        (case xstrtok None WS l of
           (None, l) \<Rightarrow> c
         | (Some p, l) \<Rightarrow>
             (let z = (if stricmp p ''default'' = 0 then 0 else atoi p)
              in if stricmp p ''default'' \<noteq> 0 \<and> z = 0 then c
                 else
                   (case xstrtok None WS l of
                      (None, l) \<Rightarrow> c
                    | (Some inet, l) \<Rightarrow>
                        (case xstrtok None WS l of
                           (None, l) \<Rightarrow> c
                         | (Some ftn, l) \<Rightarrow>
                             (case xstrtok None WS l of
                                (None, l) \<Rightarrow> c
                              | (Some out, l) \<Rightarrow>
                                  c\<lparr>scf_zones := scf_zones c @
                                      [\<lparr>cz_zone = z, cz_inet = inet, cz_ftn = ftn, cz_out = out\<rparr>]\<rparr>))))))"

definition dosdrive_line :: "cstring option \<Rightarrow> config \<Rightarrow> config" where
  "dosdrive_line l c =
     (if length (scf_dos c) \<ge> MAXDOSDRIVE then c
      else
        (case xstrtok None WS l of
           (None, l) \<Rightarrow> c
         | (Some drive, l) \<Rightarrow>
             (case xstrtok None WS l of
                (None, l) \<Rightarrow> c
              | (Some unix, l) \<Rightarrow> c\<lparr>scf_dos := scf_dos c @ [(drive, unix)]\<rparr>)))"

text \<open>
  \<open>cf_do_line\<close>: the new configuration, and the file to include.  Of the string \<open>BUF_COPY2\<close> copies for a
  domain no more than the buffer holds is kept.
\<close>

definition cf_do_line :: "cstring \<Rightarrow> config \<Rightarrow> config \<times> cstring option" where
  "cf_do_line line c =
     (case word1 line of
        None \<Rightarrow> (c, None)
      | Some (keyword, l) \<Rightarrow>
          (let p = fst (xstrtok None WS l) in
           if stricmp keyword ''include'' = 0 then (c, p)
           else
             (if stricmp keyword ''hostname'' = 0 then
                (case p of None \<Rightarrow> c | Some p \<Rightarrow> c\<lparr>scf_hostname := buf_copy MAXPATH p\<rparr>)
              else if stricmp keyword ''domain'' = 0 then
                (case p of None \<Rightarrow> c | Some p \<Rightarrow> c\<lparr>scf_domainname := dotted p, scf_hostsdomain := dotted p\<rparr>)
              else if stricmp keyword ''hostsdomain'' = 0 then
                (case p of None \<Rightarrow> c | Some p \<Rightarrow> c\<lparr>scf_hostsdomain := dotted p\<rparr>)
              else if stricmp keyword ''address'' = 0 then
                add_address p (\<lambda>a c. if scf_ia c < MAXADDRESS
                  then (upd_addr (scf_ia c) (\<lambda>e. e\<lparr>ca_zone := zone a, ca_addr := a\<rparr>) c)\<lparr>scf_ia := Suc (scf_ia c)\<rparr>
                  else c) c
              else if stricmp keyword ''uplink'' = 0 then
                add_address p (\<lambda>a c. if scf_ir c < MAXADDRESS
                  then (upd_addr (scf_ir c) (\<lambda>e. e\<lparr>ca_uplink := a\<rparr>) c)\<lparr>scf_ir := Suc (scf_ir c)\<rparr>
                  else c) c
              else if stricmp keyword ''gateaddress'' = 0 then
                add_address p (\<lambda>a c. if scf_ig c < MAXADDRESS
                  then (upd_addr (scf_ig c) (\<lambda>e. e\<lparr>ca_gate := a\<rparr>) c)\<lparr>scf_ig := Suc (scf_ig c)\<rparr>
                  else c) c
              else if stricmp keyword ''zone'' = 0 then zone_line l c
              else if stricmp keyword ''dosdrive'' = 0 then dosdrive_line l c
              else if stricmp keyword ''gateway'' = 0 then add_address p (\<lambda>a c. c\<lparr>scf_gateway := a\<rparr>) c
              else
                (let v = (case fst (xstrtok None [ch_lf] l) of None \<Rightarrow> [] | Some p \<Rightarrow> dropWhile is_blank p)
                 in c\<lparr>scf_list := scf_list c @ [(keyword, v)]\<rparr>),
              None)))"

subsection \<open>Files that include files\<close>

text \<open>
  \<open>cf_read_config_file\<close> and \<open>routing_do_file\<close> read a file line by line; a line may name a file to read
  first.  \<open>opn\<close> is the opening of a file (\<open>None\<close> exits, \<open>Some None\<close> skips it), \<open>step\<close> a line, \<open>fin\<close>
  what is done at the end of an included file.  \<open>reads\<close> is this as a relation, \<open>nested\<close> as a function
  with the depth of inclusion as fuel.
\<close>

inductive reads :: "(cstring \<Rightarrow> bytes option option) \<Rightarrow> (cstring \<Rightarrow> 's \<Rightarrow> 's \<times> cstring option) \<Rightarrow> ('s \<Rightarrow> 's)
    \<Rightarrow> cstring list \<Rightarrow> 's \<Rightarrow> 's \<Rightarrow> bool" for opn step fin where
  reads_end: "reads opn step fin [] s s"
| reads_line: "step l s = (s1, None) \<Longrightarrow> reads opn step fin ls s1 s2 \<Longrightarrow> reads opn step fin (l # ls) s s2"
| reads_skip: "step l s = (s1, Some name) \<Longrightarrow> opn name = Some None \<Longrightarrow> reads opn step fin ls s1 s2 \<Longrightarrow>
    reads opn step fin (l # ls) s s2"
| reads_include: "step l s = (s1, Some name) \<Longrightarrow> opn name = Some (Some c) \<Longrightarrow>
    reads opn step fin (cf_lines BUFFERSIZE c) s1 s2 \<Longrightarrow> reads opn step fin ls (fin s2) s3 \<Longrightarrow>
    reads opn step fin (l # ls) s s3"

inductive_cases reads_NilE: "reads opn step fin [] s s'"
inductive_cases reads_ConsE: "reads opn step fin (l # ls) s s'"

function nested :: "nat \<Rightarrow> (cstring \<Rightarrow> bytes option option) \<Rightarrow> (cstring \<Rightarrow> 's \<Rightarrow> 's \<times> cstring option) \<Rightarrow> ('s \<Rightarrow> 's)
    \<Rightarrow> cstring list \<Rightarrow> 's \<Rightarrow> 's option" where
  "nested d opn step fin [] s = Some s"
| "nested d opn step fin (l # ls) s =
     (case step l s of
        (s1, None) \<Rightarrow> nested d opn step fin ls s1
      | (s1, Some name) \<Rightarrow>
          (case opn name of
             None \<Rightarrow> None
           | Some None \<Rightarrow> nested d opn step fin ls s1
           | Some (Some c) \<Rightarrow>
               (if d = 0 then None
                else
                  (case nested (d - 1) opn step fin (cf_lines BUFFERSIZE c) s1 of
                     None \<Rightarrow> None | Some s2 \<Rightarrow> nested d opn step fin ls (fin s2)))))"
  by pat_completeness auto
termination
  by (relation "measures [\<lambda>(d, opn, step, fin, ls, s). d, \<lambda>(d, opn, step, fin, ls, s). length ls]") auto

lemma nested_ConsE:
  assumes "nested d opn step fin (l # ls) s = Some s'"
  obtains (line) s1 where "step l s = (s1, None)" "nested d opn step fin ls s1 = Some s'"
  | (skip) s1 name where "step l s = (s1, Some name)" "opn name = Some None" "nested d opn step fin ls s1 = Some s'"
  | (incl) s1 name c d' s2 where "step l s = (s1, Some name)" "opn name = Some (Some c)" "d = Suc d'"
      "nested d' opn step fin (cf_lines BUFFERSIZE c) s1 = Some s2" "nested d opn step fin ls (fin s2) = Some s'"
proof -
  obtain s1 r where st: "step l s = (s1, r)" by fastforce
  show ?thesis
  proof (cases r)
    case None
    then show ?thesis using assms st by (intro line [of s1]) simp_all
  next
    case (Some name)
    show ?thesis
    proof (cases "opn name")
      case None
      then show ?thesis using assms st Some by simp
    next
      case o: (Some oc)
      show ?thesis
      proof (cases oc)
        case None
        then show ?thesis using assms st Some o by (intro skip [of s1 name]) simp_all
      next
        case c: (Some c)
        then obtain d' where d: "d = Suc d'" using assms st Some o by (cases d) simp_all
        then obtain s2 where "nested d' opn step fin (cf_lines BUFFERSIZE c) s1 = Some s2"
          "nested d opn step fin ls (fin s2) = Some s'"
          using assms st Some o c by (auto split: option.splits)
        then show ?thesis using st Some o c d by (intro incl [of s1 name c d' s2]) simp_all
      qed
    qed
  qed
qed

declare nested.simps(2) [simp del]

lemma nested_line: "step l s = (s1, None) \<Longrightarrow> nested d opn step fin (l # ls) s = nested d opn step fin ls s1"
  by (simp add: nested.simps(2))

lemma nested_skip:
  "step l s = (s1, Some name) \<Longrightarrow> opn name = Some None \<Longrightarrow> nested d opn step fin (l # ls) s = nested d opn step fin ls s1"
  by (simp add: nested.simps(2))

lemma nested_incl:
  "step l s = (s1, Some name) \<Longrightarrow> opn name = Some (Some c) \<Longrightarrow>
     nested d' opn step fin (cf_lines BUFFERSIZE c) s1 = Some s2 \<Longrightarrow>
     nested (Suc d') opn step fin (l # ls) s = nested (Suc d') opn step fin ls (fin s2)"
  by (simp add: nested.simps(2))

lemmas nested_Cons = nested_line nested_skip nested_incl

lemma nested_reads: "nested d opn step fin ls s = Some s' \<Longrightarrow> reads opn step fin ls s s'"
proof (induction d arbitrary: ls s s' rule: less_induct)
  case (less d)
  show ?case using less.prems
  proof (induction ls arbitrary: s s')
    case (Cons l ls)
    from Cons.prems show ?case
    proof (cases rule: nested_ConsE)
      case (incl s1 name c d' s2)
      then have "reads opn step fin (cf_lines BUFFERSIZE c) s1 s2" using less.IH [of d'] by simp
      then show ?thesis using incl Cons.IH by (intro reads_include)
    qed (use Cons.IH in \<open>auto intro: reads.intros\<close>)
  qed (simp add: reads_end)
qed

lemma nested_more: "nested d opn step fin ls s = Some s' \<Longrightarrow> d \<le> e \<Longrightarrow> nested e opn step fin ls s = Some s'"
proof (induction d arbitrary: e ls s s' rule: less_induct)
  case (less d)
  show ?case using less.prems
  proof (induction ls arbitrary: s s')
    case (Cons l ls)
    from Cons.prems(1) show ?case
    proof (cases rule: nested_ConsE)
      case (incl s1 name c d' s2)
      obtain e' where e: "e = Suc e'" "d' \<le> e'" using incl(3) Cons.prems(2) by (cases e) auto
      have "nested e' opn step fin (cf_lines BUFFERSIZE c) s1 = Some s2"
        by (rule less.IH [OF _ incl(4) e(2)]) (simp add: incl(3))
      from nested_incl [OF incl(1,2) this] Cons.IH [OF incl(5) Cons.prems(2)] show ?thesis by (simp add: e(1))
    next
      case (line s1)
      then show ?thesis using Cons.IH [OF line(2) Cons.prems(2)] by (simp add: nested_line)
    next
      case (skip s1 name)
      then show ?thesis using Cons.IH [OF skip(3) Cons.prems(2)] by (simp add: nested_skip)
    qed
  qed simp
qed

lemma reads_nested: "reads opn step fin ls s s' \<Longrightarrow> \<exists>d. nested d opn step fin ls s = Some s'"
proof (induction rule: reads.induct)
  case (reads_include l s s1 name c s2 ls s3)
  then obtain d e where n: "nested d opn step fin (cf_lines BUFFERSIZE c) s1 = Some s2"
    "nested e opn step fin ls (fin s2) = Some s3" by blast
  have m: "nested (max d e) opn step fin (cf_lines BUFFERSIZE c) s1 = Some s2"
    "nested (Suc (max d e)) opn step fin ls (fin s2) = Some s3"
    by (rule nested_more [OF n(1)], simp, rule nested_more [OF n(2)], simp)
  then show ?case using nested_incl [OF reads_include.hyps(1,2) m(1)] by metis
qed (auto simp: nested_line nested_skip)

text \<open>The fuel is enough exactly when the reading ends, and does not change the result.\<close>

lemma nested_iff_reads: "(\<exists>d. nested d opn step fin ls s = Some s') \<longleftrightarrow> reads opn step fin ls s s'"
  using nested_reads reads_nested by metis

lemma reads_unique: "reads opn step fin ls s s1 \<Longrightarrow> reads opn step fin ls s s2 \<Longrightarrow> s1 = s2"
proof -
  assume "reads opn step fin ls s s1" "reads opn step fin ls s s2"
  then obtain d e where n: "nested d opn step fin ls s = Some s1" "nested e opn step fin ls s = Some s2"
    using reads_nested by metis
  have "nested (max d e) opn step fin ls s = Some s1" "nested (max d e) opn step fin ls s = Some s2"
    by (rule nested_more [OF n(1)], simp, rule nested_more [OF n(2)], simp)
  then show "s1 = s2" by simp
qed

text \<open>With a rank that drops at every inclusion, the rank is enough fuel.\<close>

lemma nested_ranked:
  assumes ranked: "\<And>name c l s s1 name'. opn name = Some (Some c) \<Longrightarrow> l \<in> set (cf_lines BUFFERSIZE c) \<Longrightarrow>
      step l s = (s1, Some name') \<Longrightarrow> opn name' = Some None \<or> (\<exists>c'. opn name' = Some (Some c')) \<and> rank name' < rank name"
    and "opn name = Some (Some c)"
  shows "\<exists>s'. nested (rank name) opn step fin (cf_lines BUFFERSIZE c) s = Some s'"
  using assms(2)
proof (induction "rank name" arbitrary: name c s rule: less_induct)
  case less
  have "\<exists>s'. nested (rank name) opn step fin ls s = Some s'" if "set ls \<subseteq> set (cf_lines BUFFERSIZE c)" for ls s
    using that
  proof (induction ls arbitrary: s)
    case (Cons l ls)
    obtain s1 r where st: "step l s = (s1, r)" by fastforce
    show ?case
    proof (cases r)
      case None
      then show ?thesis using Cons st by (simp add: nested_line)
    next
      case (Some name')
      consider "opn name' = Some None" | c' where "opn name' = Some (Some c')" "rank name' < rank name"
        using ranked [OF less.prems, of l s s1 name'] Cons.prems st Some by auto
      then show ?thesis
      proof cases
        case 1
        then show ?thesis using Cons st Some by (simp add: nested_skip)
      next
        case 2
        then obtain s2 where "nested (rank name') opn step fin (cf_lines BUFFERSIZE c') s1 = Some s2"
          using less.hyps by blast
        then have "nested (rank name - 1) opn step fin (cf_lines BUFFERSIZE c') s1 = Some s2"
          using 2(2) nested_more by fastforce
        moreover obtain k where "rank name = Suc k" using 2(2) by (cases "rank name") auto
        ultimately show ?thesis
          using Cons.IH [of "fin s2"] Cons.prems nested_incl [of step l s s1 name' opn c' k fin s2 ls] st Some 2(1) by simp
      qed
    qed
  qed simp
  then show ?case by blast
qed

subsection \<open>The configuration file\<close>

text \<open>An empty name is no file; the addresses are selected at the end of every file.\<close>

definition cf_open :: "(cstring \<rightharpoonup> bytes) \<Rightarrow> cstring \<Rightarrow> bytes option option" where
  "cf_open files name = (if name = [] then Some None else map_option Some (files name))"

definition cf_finish :: "config \<Rightarrow> config" where
  "cf_finish c =
     select_first (c\<lparr>scf_naddr := scf_ia c, scf_zone := ca_zone (scf_addr c ! 0),
       scf_fqdn := buf_copy MAXPATH (scf_hostname c @ scf_domainname c)\<rparr>)"

definition cf_read_config_file :: "nat \<Rightarrow> (cstring \<rightharpoonup> bytes) \<Rightarrow> cstring \<Rightarrow> config \<Rightarrow> config option" where
  "cf_read_config_file d files name c =
     (case cf_open files name of
        None \<Rightarrow> None
      | Some None \<Rightarrow> Some c
      | Some (Some content) \<Rightarrow>
          map_option cf_finish (nested d (cf_open files) cf_do_line cf_finish (cf_lines BUFFERSIZE content) c))"

text \<open>What a line includes does not depend on the configuration.\<close>

definition included :: "cstring \<Rightarrow> cstring option" where
  "included l = snd (cf_do_line l scf_start)"

lemma included_word:
  "included l = (case word1 l of None \<Rightarrow> None
     | Some (k, r) \<Rightarrow> if stricmp k ''include'' = 0 then fst (xstrtok None WS r) else None)"
  by (simp add: included_def cf_do_line_def Let_def split: option.split prod.split)

lemma included_any: "snd (cf_do_line l c) = included l"
  by (simp add: included_def cf_do_line_def Let_def split: option.split prod.split)



subsection \<open>The best address\<close>

definition aka_score :: "fnode \<Rightarrow> cfg_addr \<Rightarrow> nat" where
  "aka_score dest a =
     (if zone dest \<noteq> ca_zone a then 0 else if net dest \<noteq> net (ca_addr a) then 1
      else if node dest \<noteq> node (ca_addr a) then 2 else 3)"

lemma find_addr_Some:
  "find_addr c P = Some i \<Longrightarrow> i < scf_naddr c \<and> P (scf_addr c ! i) \<and> (\<forall>j < i. \<not> P (scf_addr c ! j))"
  by (auto simp: find_addr_def find_Some_iff)

lemma find_addr_None: "find_addr c P = None \<Longrightarrow> j < scf_naddr c \<Longrightarrow> \<not> P (scf_addr c ! j)"
  by (auto simp: find_addr_def find_None_iff)

text \<open>
  C29. cf_get_best chooses, of the addresses that agree best with the destination in zone, net
  and node, the first in the table, and tells whether not even the zone agreed.
\<close>

theorem cf_get_best_is_best:
  assumes "0 < scf_naddr c"
  shows "\<exists>i < scf_naddr c.
    cf_get_best c dest = (if aka_score dest (scf_addr c ! i) = 0 then 1 else 0,
      Some (ca_addr (scf_addr c ! i), ca_uplink (scf_addr c ! i), i)) \<and>
    (\<forall>j < scf_naddr c. aka_score dest (scf_addr c ! j) \<le> aka_score dest (scf_addr c ! i)) \<and>
    (\<forall>j < i. aka_score dest (scf_addr c ! j) < aka_score dest (scf_addr c ! i))"
proof -
  let ?P3 = "\<lambda>a. zone dest = ca_zone a \<and> net dest = net (ca_addr a) \<and> node dest = node (ca_addr a)"
  let ?P2 = "\<lambda>a. zone dest = ca_zone a \<and> net dest = net (ca_addr a)"
  let ?P1 = "\<lambda>a. zone dest = ca_zone a"
  note score = aka_score_def
  consider (a) i where "find_addr c ?P3 = Some i"
    | (b) i where "find_addr c ?P3 = None" "find_addr c ?P2 = Some i"
    | (c) i where "find_addr c ?P3 = None" "find_addr c ?P2 = None" "find_addr c ?P1 = Some i"
    | (d) "find_addr c ?P3 = None" "find_addr c ?P2 = None" "find_addr c ?P1 = None"
    by (cases "find_addr c ?P3"; cases "find_addr c ?P2"; cases "find_addr c ?P1") auto
  then show ?thesis
  proof cases
    case (a i)
    then show ?thesis
      using assms find_addr_Some [OF a] by (intro exI [of _ i]) (auto simp: cf_get_best_def score)
  next
    case (b i)
    then show ?thesis
      using assms find_addr_Some [OF b(2)] find_addr_None [OF b(1)]
      by (intro exI [of _ i]) (auto simp: cf_get_best_def score)
  next
    case (c i)
    then show ?thesis
      using assms find_addr_Some [OF c(3)] find_addr_None [OF c(2)]
      by (intro exI [of _ i]) (auto simp: cf_get_best_def score)
  next
    case d
    then show ?thesis
      using assms find_addr_None [OF d(3)] by (intro exI [of _ 0]) (auto simp: cf_get_best_def score)
  qed
qed

theorem cf_get_best_is_best_witness:
  "\<exists>i. fst (cf_get_best (scf_start\<lparr>scf_naddr := 2\<rparr>) (mk_node 0 0 0 0)) = (if aka_score (mk_node 0 0 0 0)
     (scf_addr (scf_start\<lparr>scf_naddr := 2\<rparr>) ! i) = 0 then 1 else 0)"
  using cf_get_best_is_best [of "scf_start\<lparr>scf_naddr := 2\<rparr>" "mk_node 0 0 0 0"] by auto

end
