(* ===== verification/Seenby.thy ===== *)
theory Seenby
  imports Config
begin

text \<open>
  SEEN-BY and PATH processing of the tosser: the functions on lists of nodes and on kludge lines of
  \<open>src/toss/ftntoss.c\<close>.  Within echomail an address is its net, node and point; the zone is the one
  of the area.  \<open>d4\<close> is the option \<open>EchoMail4D\<close>, \<open>z\<close> the value of \<open>cf_zone\<close>.
\<close>

subsection \<open>Comparison of addresses\<close>

definition node_eq_echo :: "fnode \<Rightarrow> fnode \<Rightarrow> bool" where
  "node_eq_echo a b \<longleftrightarrow> net a = net b \<and> node a = node b \<and> point a = point b"

definition node_eq_echo_pa :: "fnode \<Rightarrow> fnode \<Rightarrow> bool" where
  "node_eq_echo_pa a b \<longleftrightarrow> net a = net b \<and> node a = node b \<and> (point a = 0 \<or> point a = point b)"

definition lon_search_echo :: "lon \<Rightarrow> fnode \<Rightarrow> bool" where
  "lon_search_echo l nd = list_ex (\<lambda>p. node_eq_echo p nd) (lnodes l)"

text \<open>The loop over \<open>cf_addr_trav\<close>.\<close>

definition own_addrs :: "config \<Rightarrow> fnode list" where
  "own_addrs cf = map ca_addr (take (scf_naddr cf) (scf_addr cf))"

definition is_local_addr :: "config \<Rightarrow> fnode \<Rightarrow> bool \<Rightarrow> bool" where
  "is_local_addr cf nd only3d = list_ex (\<lambda>n. if only3d then node_eq_echo nd n else node_eq nd n) (own_addrs cf)"

subsection \<open>Kludge lines\<close>

definition MAX_LENGTH :: nat where "MAX_LENGTH = 76"

abbreviation CRLF :: cstring where "CRLF \<equiv> [ch_cr, ch_lf]"

text \<open>
  The common loop of \<open>lon_to_kludge\<close> and \<open>lon_to_kludge_sorted\<close> over the nodes in their order: \<open>buf\<close> is
  the line so far, \<open>old\<close> the node before.
\<close>

fun kludge_loop :: "bool \<Rightarrow> int \<Rightarrow> cstring \<Rightarrow> cstring \<Rightarrow> fnode \<Rightarrow> fnode list \<Rightarrow> cstring list" where
  "kludge_loop d4 z text buf old [] = [buf @ CRLF]"
| "kludge_loop d4 z text buf old (n # ns) =
     (if point n = 0 \<or> d4 then
        (let n = n\<lparr>zone := z\<rparr>;
             s = node_to_asc_diff n old
         in if length buf + length s + 1 > MAX_LENGTH then
              (buf @ CRLF) #
              (let s = node_to_asc_diff n (mk_node z (-1) (-1) (-1))
               in kludge_loop d4 z text (text @ '' '' @ s) n ns)
            else kludge_loop d4 z text (buf @ '' '' @ s) n ns)
      else kludge_loop d4 z text buf old ns)"

text \<open>Both set the zone of the nodes they print, in the list itself.\<close>

definition set_zones :: "bool \<Rightarrow> int \<Rightarrow> fnode list \<Rightarrow> fnode list" where
  "set_zones d4 z ns = map (\<lambda>n. if point n = 0 \<or> d4 then n\<lparr>zone := z\<rparr> else n) ns"

definition lon_to_kludge :: "bool \<Rightarrow> int \<Rightarrow> cstring list \<Rightarrow> cstring \<Rightarrow> lon \<Rightarrow> cstring list \<times> bool \<times> lon" where
  "lon_to_kludge d4 z tlist text l =
     (tlist @ kludge_loop d4 z text text (mk_node z (-1) (-1) (-1)) (lnodes l),
      list_ex (\<lambda>n. point n = 0 \<or> d4) (lnodes l),
      l\<lparr>lnodes := set_zones d4 z (lnodes l)\<rparr>)"

definition lon_to_kludge_sorted :: "bool \<Rightarrow> int \<Rightarrow> cstring list \<Rightarrow> cstring \<Rightarrow> lon \<Rightarrow> cstring list \<times> lon" where
  "lon_to_kludge_sorted d4 z tlist text l =
     (tlist @ kludge_loop d4 z text text (mk_node z (-1) (-1) (-1)) (lon_sort l 0),
      l\<lparr>lnodes := set_zones d4 z (lnodes l)\<rparr>)"

text \<open>A word that is not an address is skipped.\<close>

fun kludge_words :: "fnode \<Rightarrow> cstring list \<Rightarrow> lon \<Rightarrow> lon" where
  "kludge_words old [] l = l"
| "kludge_words old (p # ps) l =
     (case asc_to_node_diff p old old of
        (True, nd) \<Rightarrow> kludge_words nd ps (lon_add l nd)
      | (False, _) \<Rightarrow> kludge_words old ps l)"

definition kludge_text :: "cstring \<Rightarrow> cstring" where
  "kludge_text p =
     (let p = dropWhile (\<lambda>c. \<not> is_space c \<and> c \<noteq> CHR '':'') p;
          p = (if peek p = CHR '':'' then tl p else p)
      in chomp (buf_copy BUFFERSIZE (dropWhile is_space p)))"

definition kludge_to_lon :: "int \<Rightarrow> cstring list \<Rightarrow> lon \<Rightarrow> lon" where
  "kludge_to_lon z tlist l =
     fold (\<lambda>line l. kludge_words (mk_node z (-1) (-1) (-1)) (tokens ch_nul WS (kludge_text line)) l) tlist l"

subsection \<open>SEEN-BY and PATH\<close>

text \<open>\<open>j\<close> counts the nodes from 1; \<open>new\<close> and \<open>passive\<close> may be NULL.\<close>

fun seenby_loop :: "int \<Rightarrow> int \<Rightarrow> fnode \<Rightarrow> lon option \<Rightarrow> fnode list \<Rightarrow> lon \<Rightarrow> lon option \<Rightarrow> lon \<times> lon option" where
  "seenby_loop cup j from_node passive [] sb new = (sb, new)"
| "seenby_loop cup j from_node passive (p # ps) sb new =
     (if \<not> lon_search_echo sb p \<and> \<not> (j < cup \<or> node_eq from_node p) \<and> passive \<noteq> None \<and> \<not> lon_search (the passive) p
      then seenby_loop cup (j + 1) from_node passive ps (lon_add sb p) (map_option (\<lambda>n. lon_add n p) new)
      else seenby_loop cup (j + 1) from_node passive ps sb new)"

definition do_seenby :: "lon \<Rightarrow> lon \<Rightarrow> lon option \<Rightarrow> lon option \<Rightarrow> int \<Rightarrow> fnode \<Rightarrow> lon \<times> lon option" where
  "do_seenby sb nodes new passive cup from_node = seenby_loop cup 1 from_node passive (lnodes nodes) sb new"

definition do_path :: "config \<Rightarrow> lon \<Rightarrow> lon" where
  "do_path cf p =
     (if lnodes p \<noteq> [] \<and> node_eq_echo (last (lnodes p)) (cf_addr cf) then p else lon_add p (cf_addr cf))"

text \<open>\<open>True\<close> for OK: the last node is not looked at.\<close>

fun do_check_path :: "config \<Rightarrow> fnode list \<Rightarrow> bool" where
  "do_check_path cf [] = True"
| "do_check_path cf [n] = True"
| "do_check_path cf (n # m # ns) = (if is_local_addr cf n True then False else do_check_path cf (m # ns))"

definition set_first :: "fnode \<Rightarrow> lon \<Rightarrow> lon" where
  "set_first nd l = l\<lparr>lnodes := nd # tl (lnodes l)\<rparr>"

definition point_first :: "fnode \<Rightarrow> lon \<Rightarrow> lon" where
  "point_first from_node l =
     (if lsize l = 1 \<and> lnodes l \<noteq> [] \<and> node_eq_echo_pa (hd (lnodes l)) from_node then set_first from_node l else l)"

definition do_4dpoint :: "config \<Rightarrow> lon \<Rightarrow> lon \<Rightarrow> fnode \<Rightarrow> lon \<times> lon" where
  "do_4dpoint cf sb pth from_node =
     (let sb = point_first from_node sb;
          pth = point_first from_node pth
      in (if lon_search_echo sb (cf_addr cf) then sb else lon_add sb (cf_addr cf), pth))"

text \<open>
  \<open>do_deleteseenby\<close> and \<open>do_deletepath\<close> have one text: both go over the nodes of the first
  \<open>DeleteSeenBy\<close> line; without one the pointer is NULL.
\<close>

fun delete_nodes :: "fnode list \<Rightarrow> lon \<Rightarrow> lon" where
  "delete_nodes [] l = l"
| "delete_nodes (p # ps) l = delete_nodes ps (if lon_search l p then lon_remove l p else l)"

definition do_deleteseenby :: "lon list \<Rightarrow> lon \<Rightarrow> lon option" where
  "do_deleteseenby deleteseenby sb =
     (case deleteseenby of [] \<Rightarrow> None | d # _ \<Rightarrow> Some (delete_nodes (lnodes d) sb))"

definition do_deletepath :: "lon list \<Rightarrow> lon \<Rightarrow> lon option" where
  "do_deletepath deleteseenby pth =
     (case deleteseenby of [] \<Rightarrow> None | d # _ \<Rightarrow> Some (delete_nodes (lnodes d) pth))"

subsection \<open>Tables of the tosser\<close>

text \<open>The strings of one configuration name, up to the first empty one.\<close>

definition cf_strings :: "config \<Rightarrow> cstring \<Rightarrow> cstring list" where
  "cf_strings cf name = takeWhile (\<lambda>s. s \<noteq> []) (map snd (filter (\<lambda>kv. stricmp (fst kv) name = 0) (scf_list cf)))"

record zonegate =
  zg_node :: fnode
  zg_seenby :: lon

definition addtoseenby_init :: "config \<Rightarrow> (cstring \<times> lon) list" where
  "addtoseenby_init cf = concat (map (\<lambda>s.
     (case xstrtok (Some (buf_copy BUFFERSIZE s)) WS None of
        (None, _) \<Rightarrow> []
      | (Some parea, l) \<Rightarrow>
          (case xstrtok None [ch_lf] l of
             (None, _) \<Rightarrow> []
           | (Some pnodes, _) \<Rightarrow> [(parea, lon_add_string (cf_zone cf) lon_init pnodes)])))
     (cf_strings cf ''AddToSeenBy''))"

definition deleteseenby_init :: "config \<Rightarrow> lon list" where
  "deleteseenby_init cf = map (lon_add_string (cf_zone cf) lon_init) (cf_strings cf ''DeleteSeenBy'')"

definition deletepath_init :: "config \<Rightarrow> lon list" where
  "deletepath_init cf = map (lon_add_string (cf_zone cf) lon_init) (cf_strings cf ''DeletePath'')"

definition zonegate_init :: "config \<Rightarrow> zonegate list" where
  "zonegate_init cf = map (\<lambda>s.
     (let l = lon_add_string (cf_zone cf) lon_init s
      in case lnodes l of
           [] \<Rightarrow> \<lparr>zg_node = node_invalid (mk_node 0 0 0 0), zg_seenby = l\<rparr>
         | n # _ \<Rightarrow> \<lparr>zg_node = n, zg_seenby = lon_remove l n\<rparr>))
     (cf_strings cf ''ZoneGate'')"

text \<open>The loop over \<open>cf_get_string\<close> gives these strings.\<close>

fun get_strings :: "nat \<Rightarrow> config \<Rightarrow> cstring \<Rightarrow> bool \<Rightarrow> (cstring \<times> cstring) list \<Rightarrow> cstring list" where
  "get_strings 0 cf name first rest = []"
| "get_strings (Suc k) cf name first rest =
     (case cf_get_string cf name first rest of
        (None, _) \<Rightarrow> []
      | (Some s, rest) \<Rightarrow> (if s = [] then [] else s # get_strings k cf name False rest))"

lemma string_loop_filter:
  "case string_loop name ls of
     (None, _) \<Rightarrow> filter (\<lambda>kv. stricmp (fst kv) name = 0) ls = []
   | (Some s, r) \<Rightarrow> length r < length ls \<and>
       map snd (filter (\<lambda>kv. stricmp (fst kv) name = 0) ls) = s # map snd (filter (\<lambda>kv. stricmp (fst kv) name = 0) r)"
  by (induction name ls rule: string_loop.induct) (auto split: prod.splits option.splits)

lemma get_strings_cf_strings: "get_strings (Suc (length (scf_list cf))) cf name True r = cf_strings cf name"
proof -
  have "get_strings k cf name False ls =
      takeWhile (\<lambda>s. s \<noteq> []) (map snd (filter (\<lambda>kv. stricmp (fst kv) name = 0) ls))" if "length ls < k" for k ls
    using that
  proof (induction k arbitrary: ls)
    case (Suc k)
    then show ?case
      using string_loop_filter [of name ls] by (auto simp: cf_get_string_def split: prod.splits option.splits)
  qed simp
  from this [of "scf_list cf" "Suc (length (scf_list cf))"] show ?thesis
    by (simp add: cf_strings_def cf_get_string_def)
qed

subsection \<open>Kludge lines read back\<close>

abbreviation base :: "int \<Rightarrow> fnode" where
  "base z \<equiv> mk_node z (-1) (-1) (-1)"

text \<open>What the reader makes of a list of words.\<close>

fun words_read :: "fnode \<Rightarrow> cstring list \<Rightarrow> fnode list" where
  "words_read old [] = []"
| "words_read old (p # ps) =
     (case asc_diff_opt p old of Some n \<Rightarrow> n # words_read n ps | None \<Rightarrow> words_read old ps)"

lemma lnodes_kludge_words: "lnodes (kludge_words old ps l) = lnodes l @ words_read old ps"
  by (induction ps arbitrary: old l) (auto simp: asc_diff_opt_def split: prod.splits bool.splits)

lemma words_read_snoc:
  "words_read old (ps @ [s]) = words_read old ps @
     (case asc_diff_opt s (last (old # words_read old ps)) of Some n \<Rightarrow> [n] | None \<Rightarrow> [])"
  by (induction ps arbitrary: old) (auto split: option.splits)

definition no_space :: "cstring \<Rightarrow> bool" where
  "no_space t \<longleftrightarrow> (\<forall>c \<in> set t. \<not> is_space c)"

abbreviation spaced_words :: "cstring list \<Rightarrow> cstring" where
  "spaced_words ts \<equiv> concat (map (\<lambda>t. ch_sp # t) ts)"

lemma WS_set: "set WS = {ch_sp, ch_tab}" "ch_sp \<in> set WS"
  by (simp_all add: WS_def)

lemma no_space_WS: "no_space t \<Longrightarrow> set t \<inter> set WS = {}"
  by (auto simp: no_space_def WS_set is_space_def)

lemma tokens_spaced: "\<forall>t \<in> set ts. no_space t \<Longrightarrow> tokens ch_nul WS (spaced_words ts) = filter (\<lambda>t. t \<noteq> []) ts"
proof (induction ts)
  case (Cons t ts)
  have skip: "tokens ch_nul WS (ch_sp # s) = tokens ch_nul WS s" for s
    using tokens_skip_append [of "[ch_sp]" WS ch_nul s] by (simp add: WS_set)
  show ?case
  proof (cases "t = []")
    case True
    then show ?thesis using Cons skip by simp
  next
    case False
    have w: "set t \<inter> set WS = {}" using Cons.prems no_space_WS by simp
    show ?thesis
    proof (cases ts)
      case Nil
      then show ?thesis using False skip tokens_word(1) [OF False w] by simp
    next
      case (Cons u us)
      then have "tokens ch_nul WS (t @ spaced_words ts) = t # tokens ch_nul WS (spaced_words ts)"
        using tokens_word(2) [OF False w WS_set(2), of "u @ spaced_words us"] skip by simp
      then show ?thesis using False skip \<open>\<forall>t \<in> set (t # ts). no_space t\<close> Cons.IH by simp
    qed
  qed
qed (simp add: tokens_Nil)

lemma spaced_no_eol: "\<forall>t \<in> set ts. no_space t \<Longrightarrow> c \<in> set (spaced_words ts) \<Longrightarrow> c \<noteq> ch_cr \<and> c \<noteq> ch_lf"
proof (induction ts)
  case (Cons t ts)
  have "c \<in> set t \<Longrightarrow> c \<noteq> ch_cr \<and> c \<noteq> ch_lf"
    using Cons.prems(1) unfolding no_space_def is_space_def by auto
  then show ?case using Cons by auto
qed simp

text \<open>The kludge word in front: no white space, and one colon at its end.\<close>

definition kludge_head :: "cstring \<Rightarrow> bool" where
  "kludge_head text \<longleftrightarrow> (\<exists>w. text = w @ '':'' \<and> (\<forall>c \<in> set w. \<not> is_space c \<and> c \<noteq> CHR '':''))"

lemma chomp_spaces:
  assumes "\<And>c. c \<in> set x \<Longrightarrow> c \<noteq> ch_cr \<and> c \<noteq> ch_lf"
  shows "chomp (dropWhile is_space (x @ CRLF)) = dropWhile is_space x"
proof (cases "dropWhile is_space x = []")
  case True
  then have "\<forall>c \<in> set x. is_space c" by simp
  then have e: "dropWhile is_space (x @ CRLF) = []" by (simp add: is_space_def)
  show ?thesis unfolding e True by (simp add: chomp_def)
next
  case False
  then have "\<exists>c \<in> set x. \<not> is_space c" by simp
  then have "dropWhile is_space (x @ CRLF) = dropWhile is_space x @ CRLF" by (metis dropWhile_append1)
  moreover have "last (dropWhile is_space x) \<in> set x" using False by (metis last_in_set set_dropWhileD)
  ultimately show ?thesis using chomp_line [of "dropWhile is_space x"] assms by simp
qed

lemma tokens_kludge_line:
  assumes h: "kludge_head text" and ts: "\<forall>t \<in> set ts. no_space t"
    and len: "length (text @ spaced_words ts) \<le> MAX_LENGTH"
  shows "tokens ch_nul WS (kludge_text (text @ spaced_words ts @ CRLF)) = filter (\<lambda>t. t \<noteq> []) ts"
proof -
  let ?x = "spaced_words ts"
  obtain w where w: "text = w @ '':''" "\<forall>c \<in> set w. \<not> is_space c \<and> c \<noteq> CHR '':''"
    using h by (auto simp: kludge_head_def)
  have "dropWhile (\<lambda>c. \<not> is_space c \<and> c \<noteq> CHR '':'') (w @ CHR '':'' # ?x @ CRLF) = CHR '':'' # ?x @ CRLF"
    by (rule dropWhile_append_stop) (use w(2) in auto)
  then have k: "kludge_text (text @ ?x @ CRLF) = chomp (buf_copy BUFFERSIZE (dropWhile is_space (?x @ CRLF)))"
    by (simp add: kludge_text_def w(1))
  have nolf: "c \<noteq> ch_cr \<and> c \<noteq> ch_lf" if "c \<in> set ?x" for c
    using spaced_no_eol [OF ts that] .
  have x: "dropWhile is_space ?x = dropWhile (\<lambda>c. c \<in> set WS) ?x"
    by (rule dropWhile_cong) (use nolf in \<open>auto simp: is_space_def WS_set\<close>)
  have "length (dropWhile is_space (?x @ CRLF)) \<le> length (?x @ CRLF)" by (rule length_dropWhile_le)
  then have b: "buf_copy BUFFERSIZE (dropWhile is_space (?x @ CRLF)) = dropWhile is_space (?x @ CRLF)"
    using len by (simp add: buf_copy_def BUFFERSIZE_def MAX_LENGTH_def)
  have "chomp (dropWhile is_space (?x @ CRLF)) = dropWhile is_space ?x"
    by (rule chomp_spaces) (rule nolf)
  then have "tokens ch_nul WS (kludge_text (text @ ?x @ CRLF)) = tokens ch_nul WS (dropWhile (\<lambda>c. c \<in> set WS) ?x)"
    by (simp add: k b x)
  then show ?thesis using tokens_skip [of ch_nul WS ?x] tokens_spaced [OF ts] by simp
qed

lemma length_dec_nat: "n < 10 ^ Suc k \<Longrightarrow> length (dec_nat n) \<le> Suc k"
proof (induction k arbitrary: n)
  case (Suc k)
  show ?case
  proof (cases "n < 10")
    case True
    then show ?thesis by (simp add: dec_nat.simps)
  next
    case False
    then have "length (dec_nat (n div 10)) \<le> Suc k" using Suc by (intro Suc.IH) (simp add: less_mult_imp_div_less)
    then show ?thesis using False by (simp add: dec_nat.simps [of n])
  qed
qed (simp add: dec_nat.simps)

lemma length_dec: "ftn_num v \<Longrightarrow> length (dec v) \<le> 10"
proof -
  assume "ftn_num v"
  then have "nat v < 10 ^ Suc 9" "0 \<le> v" by (simp_all add: ftn_num_def nat_less_iff)
  then show ?thesis using length_dec_nat [of "nat v" 9] by (simp add: dec_def)
qed

lemma no_space_digits: "0 \<le> v \<Longrightarrow> c \<in> set (dec v) \<Longrightarrow> \<not> is_space c"
  using dec_digits_all [of v] digit_not_special(1) by blast

text \<open>The text of a node of the zone \<open>z\<close> after another one of this zone, or at the start of a line.\<close>

definition in_zone :: "int \<Rightarrow> fnode \<Rightarrow> fnode" where
  "in_zone z n = mk_node z (net n) (node n) (point n)"

definition after_ok :: "int \<Rightarrow> fnode \<Rightarrow> bool" where
  "after_ok z old \<longleftrightarrow> old = base z \<or> valid_node old \<and> zone old = z"

lemma diff_text:
  assumes "ftn_num (net n)" "ftn_num (node n)" "point n = 0" "zone n = zone old"
  shows "no_space (node_to_asc_diff n old)" "length (node_to_asc_diff n old) \<le> 21"
proof -
  have d: "0 \<le> net n" "0 \<le> node n" using assms by (simp_all add: ftn_num_def)
  have "no_space (dec (net n))" "no_space (dec (node n))" "\<not> is_space CHR ''/''"
    using no_space_digits [OF d(1)] no_space_digits [OF d(2)] by (auto simp: no_space_def is_space_def)
  then show "no_space (node_to_asc_diff n old)"
    using assms(3,4) by (auto simp: no_space_def node_to_asc_diff_def)
  show "length (node_to_asc_diff n old) \<le> 21"
    using assms(3,4) length_dec [OF assms(1)] length_dec [OF assms(2)] by (auto simp: node_to_asc_diff_def)
qed

lemma diff_base_read:
  assumes "valid_node n" "zone n = z"
  shows "asc_diff_opt (node_to_asc_diff n (base z)) (base z) = Some (in_zone z n)"
proof -
  note v = valid_node_parts [OF assms(1)]
  have "node_to_asc_diff n (base z) = dec (net n) @ ''/'' @ dec (node n) @ tail_text (if point n = 0 then None else Some (point n)) []"
    using v assms(2) by (simp add: node_to_asc_diff_def tail_text_def)
  then show ?thesis
    using v assms(2) by (auto simp: asc_diff_opt_def asc_to_node_diff_def znfp_parse_diff_def parse_net with_tail_def
        has_wildcard_def mk_node_def in_zone_def)
qed

lemma diff_read:
  assumes "valid_node n" "zone n = z" "after_ok z old"
  shows "node_np_eq n old \<and> point n = 0 \<and> node_to_asc_diff n old = [] \<or>
    \<not> (node_np_eq n old \<and> point n = 0) \<and> node_to_asc_diff n old \<noteq> [] \<and>
    asc_diff_opt (node_to_asc_diff n old) old = Some (in_zone z n)"
proof (cases "node_np_eq n old \<and> point n = 0")
  case True
  then show ?thesis by (simp add: node_np_eq_def node_to_asc_diff_def)
next
  case False
  note v = valid_node_parts [OF assms(1)]
  have "asc_diff_opt (node_to_asc_diff n old) old = Some (in_zone z n)"
  proof (cases "old = base z")
    case True
    then show ?thesis using diff_base_read [OF assms(1,2)] by simp
  next
    case False
    then have "valid_node old" using assms(3) by (simp add: after_ok_def)
    then have "valid_node (old\<lparr>point := 0\<rparr>)" by (simp add: valid_node_def)
    then show ?thesis
      using asc_diff_roundtrip_aux [OF assms(1) _ \<open>\<not> (node_np_eq n old \<and> point n = 0)\<close>, of old] assms(2)
      by (simp add: asc_diff_opt_def in_zone_def)
  qed
  then show ?thesis using False asc_diff_not_Nil by blast
qed

text \<open>Reader and writer need not agree on the zone: the text has none.\<close>

lemma diff_zone_free:
  "zone n = zone old \<Longrightarrow> net n' = net n \<Longrightarrow> node n' = node n \<Longrightarrow> point n' = point n \<Longrightarrow> zone n' = zone old' \<Longrightarrow>
     net old' = net old \<Longrightarrow> node old' = node old \<Longrightarrow> node_to_asc_diff n' old' = node_to_asc_diff n old"
  by (simp add: node_to_asc_diff_def)

abbreviation echo :: "fnode \<Rightarrow> int \<times> int \<times> int" where
  "echo n \<equiv> (net n, node n, point n)"

abbreviation plain3 :: "fnode \<Rightarrow> bool" where
  "plain3 n \<equiv> ftn_num (net n) \<and> ftn_num (node n) \<and> point n = 0"

text \<open>The line \<open>buf\<close> so far reads as the nodes \<open>D\<close>, and the writer's last node is the reader's.\<close>

definition line_reads :: "int \<Rightarrow> int \<Rightarrow> cstring \<Rightarrow> cstring \<Rightarrow> fnode \<Rightarrow> fnode list \<Rightarrow> bool" where
  "line_reads z z2 text buf old D \<longleftrightarrow>
     (\<exists>ts. buf = text @ spaced_words ts \<and> (\<forall>t \<in> set ts. no_space t) \<and>
        words_read (base z2) (filter (\<lambda>t. t \<noteq> []) ts) = D) \<and>
     length buf \<le> MAX_LENGTH \<and> zone old = z \<and> (\<forall>n \<in> set D. valid_node n \<and> zone n = z2 \<and> point n = 0) \<and>
     net (last (base z2 # D)) = net old \<and> node (last (base z2 # D)) = node old"

lemma line_reads_start:
  "length text \<le> MAX_LENGTH \<Longrightarrow> line_reads z z2 text text (base z) []"
  by (auto simp: line_reads_def intro!: exI [of _ "[]"])

lemma line_reads_step:
  assumes "line_reads z z2 text buf old D" "plain3 n" "zone n = z" "ftn_num z2"
    and "length (buf @ '' '' @ node_to_asc_diff n old) \<le> MAX_LENGTH"
  shows "\<exists>E. line_reads z z2 text (buf @ '' '' @ node_to_asc_diff n old) n (D @ E) \<and>
    echo ` set (D @ E) = insert (echo n) (echo ` set D)"
proof -
  define old2 where "old2 = last (base z2 # D)"
  define s where "s = node_to_asc_diff n old"
  have old: "zone old = z" "net old2 = net old" "node old2 = node old" and D: "\<forall>n \<in> set D. valid_node n \<and> zone n = z2 \<and> point n = 0"
    using assms(1) by (auto simp: line_reads_def old2_def)
  obtain ts where ts: "buf = text @ spaced_words ts" "\<forall>t \<in> set ts. no_space t"
    "words_read (base z2) (filter (\<lambda>t. t \<noteq> []) ts) = D"
    using assms(1) by (auto simp: line_reads_def)
  have z2: "zone (in_zone z2 n) = z2" "valid_node (in_zone z2 n)"
    using assms(2,4) by (simp_all add: in_zone_def valid_node_def)
  have o2: "zone old2 = z2" "after_ok z2 old2" using D by (auto simp: old2_def after_ok_def)
  have s: "s = node_to_asc_diff (in_zone z2 n) old2"
    unfolding s_def by (rule diff_zone_free [symmetric]) (use assms(3) old o2(1) in \<open>simp_all add: in_zone_def\<close>)
  have sp: "no_space s" unfolding s_def by (rule diff_text(1)) (use assms(2,3) old(1) in auto)
  have nt: "buf @ '' '' @ s = text @ spaced_words (ts @ [s])" "\<forall>t \<in> set (ts @ [s]). no_space t"
    using ts sp by auto
  from diff_read [OF z2(2,1) o2(2)] consider
      (same) "node_np_eq (in_zone z2 n) old2" "s = []"
    | (other) "s \<noteq> []" "asc_diff_opt s old2 = Some (in_zone z2 n)"
    unfolding s [symmetric] by (auto simp: in_zone_def)
  then show ?thesis
  proof cases
    case same
    then have e: "net n = net old2" "node n = node old2" by (simp_all add: node_np_eq_def in_zone_def)
    have "old2 \<noteq> base z2" using e assms(2) by (auto simp: ftn_num_def)
    then have "old2 \<in> set D" by (auto simp: old2_def split: if_splits)
    then have "echo n \<in> echo ` set D" using e D assms(2) by force
    moreover have "line_reads z z2 text (buf @ '' '' @ s) n D"
      using assms(1,3,5) nt same ts(3) e unfolding line_reads_def s_def [symmetric] old2_def [symmetric]
      by (intro conjI exI [of _ "ts @ [s]"]) simp_all
    ultimately show ?thesis by (intro exI [of _ "[]"]) (auto simp: s_def)
  next
    case other
    have "words_read (base z2) (filter (\<lambda>t. t \<noteq> []) (ts @ [s])) = D @ [in_zone z2 n]"
      using other ts(3) words_read_snoc [of "base z2" "filter (\<lambda>t. t \<noteq> []) ts" s] by (simp add: old2_def)
    then have "line_reads z z2 text (buf @ '' '' @ s) n (D @ [in_zone z2 n])"
      using assms(1,2,3,5) nt z2 unfolding line_reads_def s_def [symmetric]
      by (intro conjI exI [of _ "ts @ [s]"]) (auto simp: in_zone_def)
    then show ?thesis by (intro exI [of _ "[in_zone z2 n]"]) (auto simp: s_def in_zone_def)
  qed
qed

lemma read_line:
  assumes "line_reads z z2 text buf old D" "kludge_head text"
  shows "lnodes (kludge_to_lon z2 [buf @ CRLF] l) = lnodes l @ D"
proof -
  obtain ts where ts: "buf = text @ spaced_words ts" "\<forall>t \<in> set ts. no_space t"
    "words_read (base z2) (filter (\<lambda>t. t \<noteq> []) ts) = D" and len: "length buf \<le> MAX_LENGTH"
    using assms(1) by (auto simp: line_reads_def)
  have "tokens ch_nul WS (kludge_text (text @ spaced_words ts @ CRLF)) = filter (\<lambda>t. t \<noteq> []) ts"
    by (rule tokens_kludge_line [OF assms(2) ts(2)]) (use len ts(1) in simp)
  then show ?thesis using ts(1,3) by (simp add: kludge_to_lon_def lnodes_kludge_words)
qed

lemma kludge_to_lon_Cons: "kludge_to_lon z (line # ls) l = kludge_to_lon z ls (kludge_to_lon z [line] l)"
  by (simp add: kludge_to_lon_def)

lemma kludge_loop_reads:
  assumes hd: "kludge_head text" "length text + 22 \<le> MAX_LENGTH" and z2: "ftn_num z2"
    and "line_reads z z2 text buf old D" "\<forall>n \<in> set ns. point n = 0 \<longrightarrow> plain3 n"
  shows "\<exists>R. (\<forall>l. lnodes (kludge_to_lon z2 (kludge_loop False z text buf old ns) l) = lnodes l @ R) \<and>
    echo ` set R = echo ` set D \<union> echo ` {n \<in> set ns. point n = 0} \<and>
    (\<forall>n \<in> set R. valid_node n \<and> zone n = z2 \<and> point n = 0) \<and>
    (\<forall>line \<in> set (kludge_loop False z text buf old ns). length line \<le> MAX_LENGTH + 2)"
  using assms(4,5)
proof (induction ns arbitrary: buf old D)
  case Nil
  have "\<forall>l. lnodes (kludge_to_lon z2 [buf @ CRLF] l) = lnodes l @ D" using read_line [OF Nil(1) hd(1)] by blast
  then show ?case using Nil(1) by (intro exI [of _ D]) (auto simp: line_reads_def)
next
  case (Cons n ns)
  show ?case
  proof (cases "point n = 0")
    case False
    then have k: "kludge_loop False z text buf old (n # ns) = kludge_loop False z text buf old ns"
      "{x \<in> set (n # ns). point x = 0} = {x \<in> set ns. point x = 0}" by auto
    show ?thesis unfolding k using Cons.IH [OF Cons.prems(1)] Cons.prems(2) by simp
  next
    case True
    define m where "m = n\<lparr>zone := z\<rparr>"
    define s where "s = node_to_asc_diff m old"
    have m: "plain3 m" "zone m = z" "echo m = echo n" using Cons.prems(2) True by (simp_all add: m_def)
    have old: "zone old = z" using Cons.prems(1) by (simp add: line_reads_def)
    have ns: "\<forall>n \<in> set ns. point n = 0 \<longrightarrow> plain3 n" using Cons.prems(2) by simp
    have eqs: "{x \<in> set (n # ns). point x = 0} = insert n {x \<in> set ns. point x = 0}" using True by auto
    show ?thesis
    proof (cases "length buf + length s + 1 > MAX_LENGTH")
      case False
      then have "length (buf @ '' '' @ s) \<le> MAX_LENGTH" by simp
      then obtain E where E: "line_reads z z2 text (buf @ '' '' @ s) m (D @ E)" "echo ` set (D @ E) = insert (echo m) (echo ` set D)"
        using line_reads_step [OF Cons.prems(1) m(1,2) z2] unfolding s_def by blast
      have "kludge_loop False z text buf old (n # ns) = kludge_loop False z text (buf @ '' '' @ s) m ns"
        using True False by (simp add: m_def s_def Let_def)
      then show ?thesis using Cons.IH [OF E(1) ns] E(2) m(3) eqs by auto
    next
      case over: True
      define t where "t = text @ '' '' @ node_to_asc_diff m (base z)"
      have tl: "length (text @ '' '' @ node_to_asc_diff m (base z)) \<le> MAX_LENGTH"
        using diff_text(2) [of m "base z"] m hd(2) by simp
      have st: "line_reads z z2 text text (base z) []" using hd(2) by (intro line_reads_start) simp
      obtain E where E: "line_reads z z2 text t m ([] @ E)" "echo ` set ([] @ E) = insert (echo m) (echo ` set [])"
        using line_reads_step [OF st m(1,2) z2 tl] unfolding t_def by blast
      have k: "kludge_loop False z text buf old (n # ns) = (buf @ CRLF) # kludge_loop False z text t m ns"
        using True over by (simp add: m_def s_def t_def Let_def)
      obtain R where R: "\<forall>l. lnodes (kludge_to_lon z2 (kludge_loop False z text t m ns) l) = lnodes l @ R"
        "echo ` set R = echo ` set ([] @ E) \<union> echo ` {n \<in> set ns. point n = 0}"
        "\<forall>n \<in> set R. valid_node n \<and> zone n = z2 \<and> point n = 0"
        "\<forall>line \<in> set (kludge_loop False z text t m ns). length line \<le> MAX_LENGTH + 2"
        using Cons.IH [OF E(1) ns] by blast
      have rl: "lnodes (kludge_to_lon z2 [buf @ CRLF] l) = lnodes l @ D" for l
        by (rule read_line [OF Cons.prems(1) hd(1)])
      have "\<forall>l. lnodes (kludge_to_lon z2 (kludge_loop False z text buf old (n # ns)) l) = lnodes l @ (D @ R)"
      proof
        fix l
        have "lnodes (kludge_to_lon z2 (kludge_loop False z text buf old (n # ns)) l) =
            lnodes (kludge_to_lon z2 (kludge_loop False z text t m ns) (kludge_to_lon z2 [buf @ CRLF] l))"
          unfolding k by (rule arg_cong [OF kludge_to_lon_Cons])
        then show "lnodes (kludge_to_lon z2 (kludge_loop False z text buf old (n # ns)) l) = lnodes l @ (D @ R)"
          using R(1) rl [of l] by simp
      qed
      moreover have "echo ` set (D @ R) = echo ` set D \<union> echo ` {x \<in> set (n # ns). point x = 0}"
        unfolding eqs set_append [of D R] image_Un R(2) E(2) m(3)
        by (simp only: image_insert list.set image_empty Un_insert_left Un_empty_left)
      moreover have "\<forall>n \<in> set (D @ R). valid_node n \<and> zone n = z2 \<and> point n = 0"
        using R(3) Cons.prems(1) by (auto simp: line_reads_def)
      moreover have "\<forall>line \<in> set (kludge_loop False z text buf old (n # ns)). length line \<le> MAX_LENGTH + 2"
        unfolding k using R(4) Cons.prems(1) by (auto simp: line_reads_def)
      ultimately show ?thesis by blast
    qed
  qed
qed

lemma seenby_head: "kludge_head ''SEEN-BY:''" "length ''SEEN-BY:'' + 22 \<le> MAX_LENGTH"
proof -
  show "kludge_head ''SEEN-BY:''"
    unfolding kludge_head_def by (rule exI [of _ "''SEEN-BY''"]) (simp add: is_space_def)
qed (simp add: MAX_LENGTH_def)

lemma set_lon_sort: "lon_ok l \<Longrightarrow> set (lon_sort l 0) = set (lnodes l)"
  by (cases "lnodes l = []") (simp_all add: lon_sort_def lon_ok_def)

lemma kludge_lines_read:
  assumes "lon_ok l" "\<forall>n \<in> set (lnodes l). point n = 0 \<longrightarrow> ftn_num (net n) \<and> ftn_num (node n)" "ftn_num z2"
  shows "echo ` set (lnodes (kludge_to_lon z2 (fst (lon_to_kludge_sorted False z [] ''SEEN-BY:'' l)) lon_init))
      = echo ` set (filter (\<lambda>n. point n = 0) (lnodes l)) \<and>
    (\<forall>n \<in> set (lnodes (kludge_to_lon z2 (fst (lon_to_kludge_sorted False z [] ''SEEN-BY:'' l)) lon_init)). plain3 n) \<and>
    list_all (\<lambda>line. length line \<le> MAX_LENGTH + 2) (fst (lon_to_kludge_sorted False z [] ''SEEN-BY:'' l))"
proof -
  have p: "\<forall>n \<in> set (lon_sort l 0). point n = 0 \<longrightarrow> plain3 n"
    using assms(2) by (auto simp: set_lon_sort [OF assms(1)])
  obtain R where R: "\<forall>l'. lnodes (kludge_to_lon z2 (kludge_loop False z ''SEEN-BY:'' ''SEEN-BY:'' (base z) (lon_sort l 0)) l') = lnodes l' @ R"
    "echo ` set R = echo ` set [] \<union> echo ` {n \<in> set (lon_sort l 0). point n = 0}"
    "\<forall>n \<in> set R. valid_node n \<and> zone n = z2 \<and> point n = 0"
    "\<forall>line \<in> set (kludge_loop False z ''SEEN-BY:'' ''SEEN-BY:'' (base z) (lon_sort l 0)). length line \<le> MAX_LENGTH + 2"
    using kludge_loop_reads [OF seenby_head assms(3) line_reads_start [of "''SEEN-BY:''" z z2] p] seenby_head(2) by fastforce
  have e: "echo ` set R = echo ` set (filter (\<lambda>n. point n = 0) (lnodes l))"
    using R(2) by (simp only: set_lon_sort [OF assms(1)] set_filter list.set image_empty Un_empty_left)
  have "\<forall>n \<in> set R. plain3 n" using R(3) by (auto simp: valid_node_def)
  then show ?thesis using R(1,4) e by (simp only: lon_to_kludge_sorted_def append_Nil fst_conv list_all_iff lon_ok_init simp_thms)
qed



subsection \<open>New links\<close>

lemma lon_search_echo_iff: "lon_search_echo l n \<longleftrightarrow> echo n \<in> echo ` set (lnodes l)"
  by (auto simp: lon_search_echo_def list_ex_iff node_eq_echo_def image_iff) metis

lemma lnodes_adds: "lnodes (foldl lon_add l ns) = lnodes l @ ns"
  by (induction ns arbitrary: l) auto

text \<open>\<open>size\<close> counts the nodes modulo the width of \<open>int\<close>.\<close>

definition lon_counts :: "lon \<Rightarrow> bool" where
  "lon_counts l \<longleftrightarrow> lsize l = c_int (int (length (lnodes l)))"

lemma lon_counts_add: "lon_counts l \<Longrightarrow> lon_counts (lon_add l n)"
proof -
  assume "lon_counts l"
  then have "c_int (lsize l + 1) = c_int (int (length (lnodes l)) + 1)"
    by (intro c_int_cong) (simp add: lon_counts_def mod_add_left_eq c_int_mod flip: mod_add_left_eq [of "c_int _"])
  then show ?thesis by (simp add: lon_counts_def lon_add_def add.commute)
qed

lemma lon_counts_init: "lon_counts lon_init"
  by (simp add: lon_counts_def lon_init_def c_int_def)

lemma lon_counts_adds: "lon_counts l \<Longrightarrow> lon_counts (foldl lon_add l ns)"
  by (induction ns arbitrary: l) (auto simp: lon_counts_add)

lemma lon_counts_ok: "lon_counts l \<Longrightarrow> length (lnodes l) < 2147483648 \<Longrightarrow> lon_ok l"
  by (simp add: lon_counts_def lon_ok_def is_c_int_def)

lemma kludge_words_counts: "lon_counts l \<Longrightarrow> lon_counts (kludge_words old ps l)"
  by (induction ps arbitrary: old l) (auto simp: lon_counts_add split: prod.splits bool.splits)

lemma kludge_to_lon_counts: "lon_counts l \<Longrightarrow> lon_counts (kludge_to_lon z ls l)"
  by (induction ls arbitrary: l) (auto simp: kludge_to_lon_def kludge_words_counts)

text \<open>
  What the loop adds: linked systems that are not in the SEEN-BY, each once; and afterwards every
  system that is to get the message is in the SEEN-BY.
\<close>

lemma seenby_loop_spec:
  obtains added where
    "seenby_loop cup j from_node (Some pas) ps sb (Some nw) = (foldl lon_add sb added, Some (foldl lon_add nw added))"
    "set added \<subseteq> set ps" "\<forall>n \<in> set added. \<not> lon_search_echo sb n \<and> \<not> node_eq from_node n \<and> \<not> lon_search pas n"
    "distinct (map echo added)"
    "\<forall>i < length ps. j + int i \<ge> cup \<and> \<not> node_eq from_node (ps ! i) \<and> \<not> lon_search pas (ps ! i) \<longrightarrow>
       echo (ps ! i) \<in> echo ` set (lnodes sb @ added)"
proof (induction ps arbitrary: j sb nw thesis)
  case Nil
  show ?case by (rule Nil [of "[]"]) simp_all
next
  case (Cons p ps)
  show ?case
  proof (cases "\<not> lon_search_echo sb p \<and> \<not> (j < cup \<or> node_eq from_node p) \<and> \<not> lon_search pas p")
    case True
    obtain added where a: "seenby_loop cup (j + 1) from_node (Some pas) ps (lon_add sb p) (Some (lon_add nw p)) =
        (foldl lon_add (lon_add sb p) added, Some (foldl lon_add (lon_add nw p) added))"
      "set added \<subseteq> set ps"
      "\<forall>n \<in> set added. \<not> lon_search_echo (lon_add sb p) n \<and> \<not> node_eq from_node n \<and> \<not> lon_search pas n"
      "distinct (map echo added)"
      "\<forall>i < length ps. j + 1 + int i \<ge> cup \<and> \<not> node_eq from_node (ps ! i) \<and> \<not> lon_search pas (ps ! i) \<longrightarrow>
         echo (ps ! i) \<in> echo ` set (lnodes (lon_add sb p) @ added)"
      by (rule Cons.IH)
    show ?thesis
    proof (rule Cons.prems [of "p # added"])
      show "distinct (map echo (p # added))" using a(3,4) by (auto simp: lon_search_echo_iff)
      show "\<forall>i < length (p # ps). j + int i \<ge> cup \<and> \<not> node_eq from_node ((p # ps) ! i) \<and> \<not> lon_search pas ((p # ps) ! i) \<longrightarrow>
          echo ((p # ps) ! i) \<in> echo ` set (lnodes sb @ p # added)"
      proof (intro allI impI, goal_cases)
        case (1 i)
        then show ?case using a(5) by (cases i) (auto simp: algebra_simps)
      qed
    qed (use a True in \<open>auto simp: lon_search_echo_iff\<close>)
  next
    case False
    obtain added where a: "seenby_loop cup (j + 1) from_node (Some pas) ps sb (Some nw) =
        (foldl lon_add sb added, Some (foldl lon_add nw added))"
      "set added \<subseteq> set ps" "\<forall>n \<in> set added. \<not> lon_search_echo sb n \<and> \<not> node_eq from_node n \<and> \<not> lon_search pas n"
      "distinct (map echo added)"
      "\<forall>i < length ps. j + 1 + int i \<ge> cup \<and> \<not> node_eq from_node (ps ! i) \<and> \<not> lon_search pas (ps ! i) \<longrightarrow>
         echo (ps ! i) \<in> echo ` set (lnodes sb @ added)"
      by (rule Cons.IH)
    show ?thesis
    proof (rule Cons.prems [of added])
      show "\<forall>i < length (p # ps). j + int i \<ge> cup \<and> \<not> node_eq from_node ((p # ps) ! i) \<and> \<not> lon_search pas ((p # ps) ! i) \<longrightarrow>
          echo ((p # ps) ! i) \<in> echo ` set (lnodes sb @ added)"
      proof (intro allI impI, goal_cases)
        case (1 i)
        then show ?case using a(5) False by (cases i) (auto simp: algebra_simps lon_search_echo_iff)
      qed
    qed (use a False in auto)
  qed
qed

end
