(* ===== verification/Packet.thy ===== *)
theory Packet
  imports Lon
begin

text \<open>
  FTN packets: the structures of \<open>src/include/packet.h\<close> and the readers and writers of
  \<open>src/common/packet.c\<close>.  A file that is read is the list of the bytes still to come; what is
  written is the list of bytes a routine appends.
\<close>

subsection \<open>Constants and structures\<close>

definition PKT_VERSION :: int where "PKT_VERSION = 2"
definition PKT_MAXPASSWD :: nat where "PKT_MAXPASSWD = 8"
definition MSG_TYPE :: int where "MSG_TYPE = 2"
definition MSG_END :: int where "MSG_END = 0"
definition MSG_MAXDATE :: nat where "MSG_MAXDATE = 20"
definition MSG_MAXNAME :: nat where "MSG_MAXNAME = 36"
definition MSG_MAXSUBJ :: nat where "MSG_MAXSUBJ = 72"
definition NAMEBUFSIZE :: nat where "NAMEBUFSIZE = MSG_MAXNAME * 4"
definition SUBJBUFSIZE :: nat where "SUBJBUFSIZE = MSG_MAXNAME * 4"
definition PRODUCT_CODE :: int where "PRODUCT_CODE = 254"

lemmas pkt_consts = PKT_VERSION_def PKT_MAXPASSWD_def MSG_TYPE_def MSG_END_def MSG_MAXDATE_def
  MSG_MAXNAME_def MSG_MAXSUBJ_def NAMEBUFSIZE_def SUBJBUFSIZE_def PRODUCT_CODE_def

record tm =
  tm_year :: int
  tm_mon :: int
  tm_mday :: int
  tm_hour :: int
  tm_min :: int
  tm_sec :: int

record packet =
  pkt_from :: fnode
  pkt_to :: fnode
  pkt_time :: int
  pkt_baud :: int
  pkt_version :: int
  pkt_product_l :: int
  pkt_product_h :: int
  pkt_rev_min :: int
  pkt_rev_maj :: int
  pkt_passwd :: cbuf
  pkt_capword :: int
  pkt_psd :: bytes

text \<open>The names and the subject are the character arrays of the structure.\<close>

record message =
  node_from :: fnode
  node_to :: fnode
  node_orig :: fnode
  attr :: int
  cost :: int
  date :: int
  tz :: "cstring option"
  name_to :: cbuf
  name_from :: cbuf
  subject :: cbuf
  area :: "cstring option"

subsection \<open>Integers\<close>

text \<open>\<open>putc\<close> writes the low byte of its argument.\<close>

definition pkt_put_int16 :: "int \<Rightarrow> bytes" where
  "pkt_put_int16 v = [byte_of v, byte_of (v div 256)]"

definition pkt_get_int16 :: "bytes \<Rightarrow> int \<times> bytes" where
  "pkt_get_int16 fp =
     (case fp of
        [] \<Rightarrow> (ERROR, [])
      | [c] \<Rightarrow> (ERROR, [])
      | c # c' # fp \<Rightarrow> (code c + 256 * code c', fp))"

definition getc :: "bytes \<Rightarrow> int \<times> bytes" where
  "getc fp = (case fp of [] \<Rightarrow> (ERROR, []) | c # fp \<Rightarrow> (code c, fp))"

text \<open>\<open>if ((val = get (fp)) == ERROR) return ERROR;\<close>\<close>

definition or_error :: "int \<times> bytes \<Rightarrow> (int \<times> bytes) option" where
  "or_error r = (if fst r = ERROR then None else Some r)"

fun pkt_get_nbytes :: "bytes \<Rightarrow> nat \<Rightarrow> (bytes \<times> bytes) option" where
  "pkt_get_nbytes fp 0 = Some ([], fp)"
| "pkt_get_nbytes [] (Suc n) = None"
| "pkt_get_nbytes (c # fp) (Suc n) =
     (case pkt_get_nbytes fp n of None \<Rightarrow> None | Some (b, fp) \<Rightarrow> Some (c # b, fp))"

subsection \<open>Strings\<close>

text \<open>
  \<open>pkt_get_string\<close>: the buffer, the number of bytes read and the rest of the file.  The loop
  writes the NUL at index \<open>nbytes - 1\<close> only when a longer string reaches it.
\<close>

fun get_string_loop :: "nat \<Rightarrow> nat \<Rightarrow> cbuf \<Rightarrow> bytes \<Rightarrow> (cbuf \<times> nat \<times> bool \<times> bytes) option" where
  "get_string_loop nbytes i buf [] = Some (buf, i, True, [])"
| "get_string_loop nbytes i buf (c # fp) =
     (if c = ch_nul then Some (buf, i, False, fp)
      else if i < nbytes - 1 then do { buf \<leftarrow> buf_set buf i c; get_string_loop nbytes (Suc i) buf fp }
      else if i = nbytes - 1 then do { buf \<leftarrow> buf_set buf i ch_nul; get_string_loop nbytes (Suc i) buf fp }
      else get_string_loop nbytes (Suc i) buf fp)"

definition pkt_get_string :: "bytes \<Rightarrow> cbuf \<Rightarrow> nat \<Rightarrow> (cbuf \<times> nat \<times> bytes) option" where
  "pkt_get_string fp buf nbytes = do {
     (buf, i, eof, fp) \<leftarrow> get_string_loop nbytes 0 buf fp;
     buf \<leftarrow> (if i < nbytes - 1 then buf_set buf i ch_nul else Some buf);
     Some (buf, if eof then i else i + 1, fp) }"

definition pkt_put_string :: "cstring \<Rightarrow> bytes" where
  "pkt_put_string s = s @ [ch_nul]"

text \<open>\<open>met_cr\<close> is the loop's flag.\<close>

fun put_line_loop :: "bool \<Rightarrow> cstring \<Rightarrow> bytes" where
  "put_line_loop met_cr [] = []"
| "put_line_loop met_cr (c # s) =
     (if c = ch_cr then ch_cr # put_line_loop True s
      else if c = ch_lf then (if \<not> met_cr then [ch_cr] else []) @ put_line_loop met_cr s
      else c # put_line_loop False s)"

definition pkt_put_line :: "cstring \<Rightarrow> bytes" where
  "pkt_put_line s = put_line_loop False s"

fun pkt_put_string_padded :: "cstring \<Rightarrow> nat \<Rightarrow> bytes" where
  "pkt_put_string_padded s 0 = []"
| "pkt_put_string_padded [] (Suc n) = ch_nul # pkt_put_string_padded [] n"
| "pkt_put_string_padded (c # s) (Suc n) = c # pkt_put_string_padded s n"

subsection \<open>Message header\<close>

text \<open>
  \<open>pkt_get_date\<close> reads a fixed field; \<open>parsedate\<close> (the yacc parser of \<open>parsedate.y\<close>) is an
  argument.  \<open>ERROR\<close> for a short field leaves the rest of the file empty.
\<close>

definition pkt_get_date :: "(cstring \<Rightarrow> int) \<Rightarrow> bytes \<Rightarrow> int \<times> bytes" where
  "pkt_get_date parsedate fp =
     (if length fp < MSG_MAXDATE then (ERROR, [])
      else (parsedate (cstr (take MSG_MAXDATE fp)), drop MSG_MAXDATE fp))"

text \<open>
  \<open>pkt_put_date\<close>: \<open>date_tz\<close> formats the time; an invalid time is replaced by \<open>now\<close>, two seconds
  later when \<open>now\<close> was the last replacement (the static \<open>last\<close>).
\<close>

definition pkt_put_date :: "(int \<Rightarrow> cstring option \<Rightarrow> cstring) \<Rightarrow> int \<Rightarrow> int \<Rightarrow> int \<Rightarrow> cstring option
    \<Rightarrow> bytes \<times> int" where
  "pkt_put_date date_tz now prev t tzone =
     (if t = -1 then
        (let t = (if now = prev then now + 2 else now) in (pkt_put_string (date_tz t tzone), t))
      else (pkt_put_string (date_tz t tzone), prev))"

text \<open>The macro \<open>READ_MSG_FIELD\<close>: \<open>None\<close> is its \<open>return ERROR\<close> (or a write outside the array).\<close>

definition read_msg_field :: "bytes \<Rightarrow> cbuf \<Rightarrow> nat \<Rightarrow> bool \<Rightarrow> (cbuf \<times> bytes) option" where
  "read_msg_field fp buf limit strict = do {
     (buf, rc, fp) \<leftarrow> pkt_get_string fp buf (length buf);
     if rc > limit \<and> strict then None else Some (buf, fp) }"

definition pkt_get_msg_hdr ::
  "(cstring \<Rightarrow> int) \<Rightarrow> bytes \<Rightarrow> message \<Rightarrow> bool \<Rightarrow> (message \<times> bytes) option" where
  "pkt_get_msg_hdr parsedate fp msg strict =
     (let (v, fp) = pkt_get_int16 fp;
          msg = msg\<lparr>node_from := (node_from msg)\<lparr>node := v\<rparr>\<rparr>;
          (v, fp) = pkt_get_int16 fp;
          msg = msg\<lparr>node_to := (node_to msg)\<lparr>node := v\<rparr>\<rparr>;
          (v, fp) = pkt_get_int16 fp;
          msg = msg\<lparr>node_from := (node_from msg)\<lparr>net := v\<rparr>\<rparr>;
          (v, fp) = pkt_get_int16 fp;
          msg = msg\<lparr>node_to := (node_to msg)\<lparr>net := v\<rparr>\<rparr>;
          msg = msg\<lparr>node_orig := node_from msg\<rparr>;
          (v, fp) = pkt_get_int16 fp;
          msg = msg\<lparr>attr := v\<rparr>;
          (v, fp) = pkt_get_int16 fp;
          msg = msg\<lparr>cost := v\<rparr>;
          (v, fp) = pkt_get_date parsedate fp;
          msg = msg\<lparr>date := v\<rparr>
      in do {
        (b, fp) \<leftarrow> read_msg_field fp (name_to msg) MSG_MAXNAME strict;
        let msg = msg\<lparr>name_to := b\<rparr>;
        (b, fp) \<leftarrow> read_msg_field fp (name_from msg) MSG_MAXNAME strict;
        let msg = msg\<lparr>name_from := b\<rparr>;
        (b, fp) \<leftarrow> read_msg_field fp (subject msg) MSG_MAXSUBJ strict;
        Some (msg\<lparr>subject := b, area := None\<rparr>, fp) })"

text \<open>\<open>pkt_msg_sanitize_strings\<close> cuts the three fields to their limits in place.\<close>

definition sanitize_field :: "cbuf \<Rightarrow> nat \<Rightarrow> cbuf" where
  "sanitize_field str limit =
     (if length (cstr str) < limit then str else str[limit - 1 := ch_nul])"

definition pkt_msg_sanitize_strings :: "message \<Rightarrow> message" where
  "pkt_msg_sanitize_strings msg =
     msg\<lparr>name_to := sanitize_field (name_to msg) MSG_MAXNAME,
         name_from := sanitize_field (name_from msg) MSG_MAXNAME,
         subject := sanitize_field (subject msg) MSG_MAXSUBJ\<rparr>"

definition msg_kludges :: "message \<Rightarrow> bytes" where
  "msg_kludges msg =
     (case area msg of
        Some a \<Rightarrow> ''AREA:'' @ a @ [ch_cr]
      | None \<Rightarrow>
          ch_ctrl_a # ''INTL '' @ znf1 ((node_to msg)\<lparr>point := 0, domain := []\<rparr>) @ '' '' @
            znf1 ((node_from msg)\<lparr>point := 0, domain := []\<rparr>) @ [ch_cr] @
          (if point (node_from msg) > 0
           then ch_ctrl_a # ''FMPT '' @ dec (point (node_from msg)) @ [ch_cr] else []) @
          (if point (node_to msg) > 0
           then ch_ctrl_a # ''TOPT '' @ dec (point (node_to msg)) @ [ch_cr] else []))"

text \<open>The bytes written, the message as it is afterwards and the new \<open>last\<close> of \<open>pkt_put_date\<close>.\<close>

definition pkt_put_msg_hdr ::
  "(int \<Rightarrow> cstring option \<Rightarrow> cstring) \<Rightarrow> int \<Rightarrow> int \<Rightarrow> message \<Rightarrow> bool \<Rightarrow> bytes \<times> message \<times> int" where
  "pkt_put_msg_hdr date_tz now prev msg kludge_flag =
     (let h = pkt_put_int16 MSG_TYPE @
              pkt_put_int16 (node (node_from msg)) @ pkt_put_int16 (node (node_to msg)) @
              pkt_put_int16 (net (node_from msg)) @ pkt_put_int16 (net (node_to msg)) @
              pkt_put_int16 (attr msg) @ pkt_put_int16 (cost msg);
          (d, prev) = pkt_put_date date_tz now prev (date msg) (tz msg);
          msg = pkt_msg_sanitize_strings msg;
          n = pkt_put_string (cstr (name_to msg)) @ pkt_put_string (cstr (name_from msg)) @
              pkt_put_string (cstr (subject msg))
      in (h @ d @ n @ (if kludge_flag then msg_kludges msg else []), msg, prev))"

subsection \<open>Packet header\<close>

text \<open>
  The environment of \<open>pkt_get_hdr\<close>: the default zone, the day of the month now, and \<open>mktime\<close>.
  \<open>None\<close> is one of the early \<open>return ERROR\<close>s; otherwise the result is \<open>retVal == OK\<close>, the packet
  and the rest of the file.
\<close>

definition in_range :: "int \<Rightarrow> int \<Rightarrow> int \<Rightarrow> bool" where
  "in_range lo hi v \<longleftrightarrow> lo \<le> v \<and> v \<le> hi"

definition pkt_get_hdr ::
  "int \<Rightarrow> int \<Rightarrow> (tm \<Rightarrow> int) \<Rightarrow> bytes \<Rightarrow> (bool \<times> packet \<times> bytes) option" where
  "pkt_get_hdr defzone now_mday mktime fp = do {
     (onode, fp) \<leftarrow> or_error (pkt_get_int16 fp);
     (dnode, fp) \<leftarrow> or_error (pkt_get_int16 fp);
     (year, fp) \<leftarrow> or_error (pkt_get_int16 fp);
     (mon, fp) \<leftarrow> or_error (pkt_get_int16 fp);
     (mday, fp) \<leftarrow> or_error (pkt_get_int16 fp);
     (hour, fp) \<leftarrow> or_error (pkt_get_int16 fp);
     (min, fp) \<leftarrow> or_error (pkt_get_int16 fp);
     (sec, fp) \<leftarrow> or_error (pkt_get_int16 fp);
     let time_ok = (in_range 1900 2099 year \<and> \<not> mon > 11 \<and> \<not> mday > 31 \<and> \<not> hour > 23 \<and>
                    \<not> min > 59 \<and> \<not> sec > 59);
     let t = (if time_ok then
                mktime \<lparr>tm_year = year - 1900, tm_mon = mon,
                        tm_mday = (if mday = 0 then now_mday else mday), tm_hour = hour,
                        tm_min = min, tm_sec = sec\<rparr>
              else -1);
     (bd, fp) \<leftarrow> or_error (pkt_get_int16 fp);
     (vers, fp) \<leftarrow> or_error (pkt_get_int16 fp);
     let retVal = (time_ok \<and> vers = PKT_VERSION);
     (onet, fp) \<leftarrow> or_error (pkt_get_int16 fp);
     (dnet, fp) \<leftarrow> or_error (pkt_get_int16 fp);
     (prod_l, fp) \<leftarrow> or_error (getc fp);
     (maj, fp) \<leftarrow> or_error (getc fp);
     (pwd, fp) \<leftarrow> pkt_get_nbytes fp PKT_MAXPASSWD;
     (ozone, fp) \<leftarrow> or_error (pkt_get_int16 fp);
     let from_zone = (if ozone \<noteq> 0 then ozone else defzone);
     (dzone, fp) \<leftarrow> or_error (pkt_get_int16 fp);
     let to_zone = (if dzone \<noteq> 0 then dzone else defzone);
     (auxnet, fp) \<leftarrow> or_error (pkt_get_int16 fp);
     (swap1, fp) \<leftarrow> or_error (getc fp);
     (swap0, fp) \<leftarrow> or_error (getc fp);
     let swap = swap1 * 256 + swap0;
     (prod_h, fp) \<leftarrow> or_error (getc fp);
     (minor, fp) \<leftarrow> or_error (getc fp);
     (cw, fp) \<leftarrow> or_error (pkt_get_int16 fp);
     let cw = (if cw \<noteq> 0 \<and> cw = swap then cw else 0);
     (val, fp) \<leftarrow> or_error (pkt_get_int16 fp);
     let from_zone = (if cw \<noteq> 0 \<and> val \<noteq> 0 then val else from_zone);
     (val, fp) \<leftarrow> or_error (pkt_get_int16 fp);
     let to_zone = (if cw \<noteq> 0 \<and> val \<noteq> 0 then val else to_zone);
     (val, fp) \<leftarrow> or_error (pkt_get_int16 fp);
     let from_point = (if cw \<noteq> 0 then val else 0);
     (val, fp) \<leftarrow> or_error (pkt_get_int16 fp);
     let to_point = (if cw \<noteq> 0 then val else 0);
     (xpkt, fp) \<leftarrow> pkt_get_nbytes fp 4;
     let onet = (if onet = 65535 then (if from_point \<noteq> 0 then auxnet else dnet) else onet);
     Some (retVal,
       \<lparr>pkt_from = mk_node from_zone onet onode from_point,
        pkt_to = mk_node to_zone dnet dnode to_point,
        pkt_time = t, pkt_baud = bd, pkt_version = vers, pkt_product_l = prod_l,
        pkt_product_h = prod_h, pkt_rev_min = minor, pkt_rev_maj = maj,
        pkt_passwd = pwd @ [ch_nul], pkt_capword = cw, pkt_psd = []\<rparr>, fp) }"

definition pkt_fill_hdr :: "int \<Rightarrow> int \<Rightarrow> packet \<Rightarrow> packet" where
  "pkt_fill_hdr version_minor version_major pkt =
     pkt\<lparr>pkt_baud := 0, pkt_version := PKT_VERSION, pkt_product_l := PRODUCT_CODE,
         pkt_product_h := 0, pkt_rev_min := version_minor, pkt_rev_maj := version_major,
         pkt_capword := 1, pkt_psd := ''XPKT''\<rparr>"

definition pkt_put_hdr_raw :: "(int \<Rightarrow> tm) \<Rightarrow> packet \<Rightarrow> bytes" where
  "pkt_put_hdr_raw localtime pkt =
     (let swap = (pkt_capword pkt mod 256) * 256 + (pkt_capword pkt div 256) mod 256;
          t = localtime (pkt_time pkt) in
      pkt_put_int16 (node (pkt_from pkt)) @ pkt_put_int16 (node (pkt_to pkt)) @
      pkt_put_int16 (tm_year t + 1900) @ pkt_put_int16 (tm_mon t) @ pkt_put_int16 (tm_mday t) @
      pkt_put_int16 (tm_hour t) @ pkt_put_int16 (tm_min t) @ pkt_put_int16 (tm_sec t) @
      pkt_put_int16 (pkt_baud pkt) @ pkt_put_int16 (pkt_version pkt) @
      pkt_put_int16 (net (pkt_from pkt)) @ pkt_put_int16 (net (pkt_to pkt)) @
      byte_of (pkt_product_l pkt) # byte_of (pkt_rev_maj pkt) #
      pkt_put_string_padded (cstr (pkt_passwd pkt)) PKT_MAXPASSWD @
      pkt_put_int16 (zone (pkt_from pkt)) @ pkt_put_int16 (zone (pkt_to pkt)) @
      pkt_put_int16 0 @ pkt_put_int16 swap @
      byte_of (pkt_product_h pkt) # byte_of (pkt_rev_min pkt) #
      pkt_put_int16 (pkt_capword pkt) @
      pkt_put_int16 (zone (pkt_from pkt)) @ pkt_put_int16 (zone (pkt_to pkt)) @
      pkt_put_int16 (point (pkt_from pkt)) @ pkt_put_int16 (point (pkt_to pkt)) @
      pkt_psd pkt)"

definition pkt_put_hdr :: "int \<Rightarrow> int \<Rightarrow> (int \<Rightarrow> tm) \<Rightarrow> packet \<Rightarrow> bytes" where
  "pkt_put_hdr version_minor version_major localtime pkt =
     pkt_put_hdr_raw localtime (pkt_fill_hdr version_minor version_major pkt)"

subsection \<open>Reading back what was written\<close>

definition u16 :: "int \<Rightarrow> bool" where
  "u16 v \<longleftrightarrow> 0 \<le> v \<and> v < 65536"

definition u8 :: "int \<Rightarrow> bool" where
  "u8 v \<longleftrightarrow> 0 \<le> v \<and> v < 256"

lemma get_put_int16: "pkt_get_int16 (pkt_put_int16 v @ fp) = (v mod 65536, fp)"
proof -
  have "v mod 65536 = v mod 256 + 256 * (v div 256 mod 256)"
    using zmod_zmult2_eq [of 256 v 256] by simp
  then show ?thesis by (simp add: pkt_get_int16_def pkt_put_int16_def)
qed

lemma get_put_int16_u16: "u16 v \<Longrightarrow> pkt_get_int16 (pkt_put_int16 v @ fp) = (v, fp)"
  by (simp add: get_put_int16 u16_def)

text \<open>The codecs of the packet: an item written in front of the rest of the file is read off it.\<close>

interpretation int16: codec "\<lambda>fp. or_error (pkt_get_int16 fp)" length "\<lambda>v fp. pkt_put_int16 v @ fp" u16
proof
  show "or_error (pkt_get_int16 s) = Some (a, s') \<Longrightarrow> length s' < length s" for s a s'
    by (auto simp: or_error_def pkt_get_int16_def split: list.splits if_splits)
  show "u16 a \<Longrightarrow> or_error (pkt_get_int16 (pkt_put_int16 a @ s)) = Some (a, s)" for a s
    by (auto simp: or_error_def get_put_int16_u16) (simp add: u16_def)
qed

interpretation byte: codec "\<lambda>fp. or_error (getc fp)" length "\<lambda>v fp. byte_of v # fp" u8
  by unfold_locales (auto simp: or_error_def getc_def u8_def split: list.splits if_splits)

lemma put_string_padded_eq:
  "pkt_put_string_padded s n = take n s @ replicate (n - length s) ch_nul"
  by (induction s n rule: pkt_put_string_padded.induct) simp_all

lemma get_nbytes_append: "length b = n \<Longrightarrow> pkt_get_nbytes (b @ fp) n = Some (b, fp)"
  by (induction b arbitrary: n) (auto simp: Suc_length_conv)

text \<open>What a header can carry: 16-bit numbers, zones that are set, a password of eight bytes.\<close>

definition hdr_node :: "fnode \<Rightarrow> bool" where
  "hdr_node n \<longleftrightarrow> u16 (zone n) \<and> zone n \<noteq> 0 \<and> u16 (net n) \<and> u16 (node n) \<and> u16 (point n)"

definition hdr_tm :: "tm \<Rightarrow> bool" where
  "hdr_tm t \<longleftrightarrow> in_range 0 199 (tm_year t) \<and> in_range 0 11 (tm_mon t) \<and> in_range 1 31 (tm_mday t) \<and>
     in_range 0 23 (tm_hour t) \<and> in_range 0 59 (tm_min t) \<and> in_range 0 59 (tm_sec t)"

lemma u16_const [simp]: "u16 0" "u16 1" "u16 2" "u16 256"
  by (simp_all add: u16_def)

lemma hdr_tm_u16:
  assumes "hdr_tm t"
  shows "u16 (tm_year t + 1900)" "u16 (tm_mon t)" "u16 (tm_mday t)" "u16 (tm_hour t)"
    "u16 (tm_min t)" "u16 (tm_sec t)" "in_range 1900 2099 (tm_year t + 1900)"
    "\<not> tm_mon t > 11" "\<not> tm_mday t > 31" "\<not> tm_hour t > 23" "\<not> tm_min t > 59" "\<not> tm_sec t > 59"
    "tm_mday t \<noteq> 0"
  using assms by (auto simp: hdr_tm_def u16_def in_range_def)

text \<open>
  C2. A packet header written by pkt_put_hdr for 16 bit addresses is accepted by pkt_get_hdr,
  which returns the addresses, the date, the version, the product code and the password that
  were written, and leaves the rest of the file.
\<close>

theorem pkt_hdr_roundtrip:
  assumes "hdr_node (pkt_from pkt)" "hdr_node (pkt_to pkt)" "net (pkt_from pkt) \<noteq> 65535"
    and "length (cstr (pkt_passwd pkt)) \<le> PKT_MAXPASSWD" "u8 vminor" "u8 vmajor"
    and "hdr_tm (localtime (pkt_time pkt))" "mktime (localtime (pkt_time pkt)) = pkt_time pkt"
  shows "pkt_get_hdr defzone mday mktime (pkt_put_hdr vminor vmajor localtime pkt @ fp) = Some (True,
     \<lparr>pkt_from = mk_node (zone (pkt_from pkt)) (net (pkt_from pkt)) (node (pkt_from pkt)) (point (pkt_from pkt)),
      pkt_to = mk_node (zone (pkt_to pkt)) (net (pkt_to pkt)) (node (pkt_to pkt)) (point (pkt_to pkt)),
      pkt_time = pkt_time pkt, pkt_baud = 0, pkt_version = PKT_VERSION, pkt_product_l = PRODUCT_CODE,
      pkt_product_h = 0, pkt_rev_min = vminor, pkt_rev_maj = vmajor,
      pkt_passwd = cstr (pkt_passwd pkt) @ replicate (9 - length (cstr (pkt_passwd pkt))) ch_nul,
      pkt_capword = 1, pkt_psd = []\<rparr>, fp)"
proof -
  define t where "t = localtime (pkt_time pkt)"
  define w where "w = cstr (pkt_passwd pkt)"
  have w: "length w \<le> 8" using assms(4) by (simp add: w_def PKT_MAXPASSWD_def)
  define pw where "pw = pkt_put_string_padded w PKT_MAXPASSWD"
  have pw: "length pw = PKT_MAXPASSWD" "pw @ [ch_nul] = w @ replicate (9 - length w) ch_nul"
    using w Suc_diff_le [OF w] by (simp_all add: pw_def put_string_padded_eq PKT_MAXPASSWD_def
      replicate_append_same)
  have g: "pkt_get_nbytes (pw @ r) PKT_MAXPASSWD = Some (pw, r)" for r
    by (rule get_nbytes_append) (rule pw)
  have x: "pkt_get_nbytes (CHR ''X'' # CHR ''P'' # CHR ''K'' # CHR ''T'' # r) 4 = Some (''XPKT'', r)" for r
    using get_nbytes_append [of "''XPKT''" 4 r] by simp
  have u: "u8 PRODUCT_CODE" "u8 0" "u16 PKT_VERSION"
    by (simp_all add: u8_def u16_def PRODUCT_CODE_def PKT_VERSION_def)
  have b: "or_error (getc (byte_of 0 # byte_of 1 # r)) = Some (0, byte_of 1 # r)"
    "or_error (getc (byte_of 1 # r)) = Some (1, r)" for r
    using byte.get_put [of 0 "byte_of 1 # r"] byte.get_put [of 1 r] by (simp_all add: u8_def)
  have tm: "\<lparr>tm_year = tm_year t, tm_mon = tm_mon t, tm_mday = tm_mday t, tm_hour = tm_hour t,
      tm_min = tm_min t, tm_sec = tm_sec t\<rparr> = t"
    by simp
  have "byte_of 256 = byte_of 0" using byte_of_mod [of 256] by simp
  then have swap: "pkt_put_int16 256 = [byte_of 0, byte_of 1]" by (simp add: pkt_put_int16_def)
  note t_ok = hdr_tm_u16 [OF assms(7) [folded t_def]]
  show ?thesis
    using assms(1-3,5,6,8) t_ok
    by (simp add: pkt_get_hdr_def pkt_put_hdr_def pkt_put_hdr_raw_def pkt_fill_hdr_def Let_def
        int16.get_put byte.get_put hdr_node_def u g x b swap tm t_def [symmetric] w_def [symmetric]
        pw_def [symmetric] pw(2))
qed

theorem pkt_hdr_roundtrip_witness:
  "pkt_get_hdr 2 7 (\<lambda>t. 0)
     (pkt_put_hdr 9 5 (\<lambda>t. \<lparr>tm_year = 70, tm_mon = 0, tm_mday = 1, tm_hour = 0, tm_min = 0, tm_sec = 0\<rparr>)
       \<lparr>pkt_from = mk_node 2 5020 545 3, pkt_to = mk_node 2 5030 115 0, pkt_time = 0, pkt_baud = 0,
        pkt_version = 0, pkt_product_l = 0, pkt_product_h = 0, pkt_rev_min = 0, pkt_rev_maj = 0,
        pkt_passwd = ''SECRET'' @ [ch_nul], pkt_capword = 0, pkt_psd = []\<rparr> @ ''x'')
   = Some (True,
       \<lparr>pkt_from = mk_node 2 5020 545 3, pkt_to = mk_node 2 5030 115 0, pkt_time = 0, pkt_baud = 0,
        pkt_version = PKT_VERSION, pkt_product_l = PRODUCT_CODE, pkt_product_h = 0, pkt_rev_min = 9,
        pkt_rev_maj = 5, pkt_passwd = ''SECRET'' @ replicate 3 ch_nul, pkt_capword = 1, pkt_psd = []\<rparr>, ''x'')"
proof -
  have c: "cstr (''SECRET'' @ [ch_nul]) = ''SECRET''" by (simp add: cstr_def)
  show ?thesis
    by (subst pkt_hdr_roundtrip)
       (simp_all add: hdr_node_def u16_def u8_def hdr_tm_def in_range_def PKT_MAXPASSWD_def cstr_def)
qed

subsection \<open>Strings and message headers read back\<close>

lemma get_string_loop_rest:
  "i \<ge> nbytes \<Longrightarrow> no_nul s \<Longrightarrow> 0 < nbytes \<Longrightarrow>
     get_string_loop nbytes i buf (s @ ch_nul # fp) = Some (buf, i + length s, False, fp)"
  by (induction s arbitrary: i) auto

lemma get_string_loop_fits:
  "no_nul s \<Longrightarrow> i + length s \<le> nbytes - 1 \<Longrightarrow> i + length s \<le> length buf \<Longrightarrow>
     get_string_loop nbytes i buf (s @ fp) =
     get_string_loop nbytes (i + length s) (take i buf @ s @ drop (i + length s) buf) fp"
proof (induction s arbitrary: i buf)
  case (Cons c s)
  then have "take (Suc i) (buf[i := c]) = take i buf @ [c]"
    by (simp add: take_Suc_conv_app_nth)
  then show ?case using Cons by (simp add: buf_set_def)
qed simp

text \<open>
  A string that is shorter than the buffer, or longer, is stored cut to \<open>nbytes - 1\<close> bytes and
  terminated; one of exactly \<open>nbytes - 1\<close> bytes leaves the last byte of the buffer as it was.
\<close>

lemma pkt_get_string_short:
  assumes "no_nul s" "length s < nbytes - 1" "nbytes \<le> length buf"
  shows "pkt_get_string (s @ ch_nul # fp) buf nbytes
    = Some (s @ ch_nul # drop (Suc (length s)) buf, length s + 1, fp)"
proof -
  have "get_string_loop nbytes 0 buf (s @ ch_nul # fp)
      = get_string_loop nbytes (length s) (s @ drop (length s) buf) (ch_nul # fp)"
    using get_string_loop_fits [of s 0 nbytes buf "ch_nul # fp"] assms by simp
  moreover have "(s @ drop (length s) buf)[length s := ch_nul] = s @ ch_nul # drop (Suc (length s)) buf"
  proof -
    have "drop (length s) buf = buf ! length s # drop (Suc (length s)) buf"
      using assms by (intro Cons_nth_drop_Suc [symmetric]) simp
    then show ?thesis by simp
  qed
  ultimately show ?thesis
    using assms by (simp add: pkt_get_string_def buf_set_def)
qed

lemma pkt_get_string_exact:
  assumes "no_nul s" "length s = nbytes - 1" "0 < nbytes" "length buf = nbytes"
  shows "pkt_get_string (s @ ch_nul # fp) buf nbytes = Some (s @ [buf ! length s], nbytes, fp)"
proof -
  have "get_string_loop nbytes 0 buf (s @ ch_nul # fp)
      = get_string_loop nbytes (length s) (s @ drop (length s) buf) (ch_nul # fp)"
    using get_string_loop_fits [of s 0 nbytes buf "ch_nul # fp"] assms by simp
  moreover have "drop (length s) buf = [buf ! length s]"
    using assms Cons_nth_drop_Suc [of "length s" buf] by simp
  ultimately show ?thesis
    using assms by (simp add: pkt_get_string_def)
qed

lemma pkt_get_string_long:
  assumes "no_nul s" "nbytes \<le> length s" "0 < nbytes" "nbytes \<le> length buf"
  shows "pkt_get_string (s @ ch_nul # fp) buf nbytes
    = Some (take (nbytes - 1) s @ ch_nul # drop nbytes buf, length s + 1, fp)"
proof -
  define a where "a = take (nbytes - 1) s"
  define r where "r = drop nbytes s"
  have s: "s = a @ s ! (nbytes - 1) # r"
    using assms id_take_nth_drop [of "nbytes - 1" s] by (simp add: a_def r_def)
  have "s ! (nbytes - 1) \<in> set s" using assms by (intro nth_mem) simp
  then have nn1: "s ! (nbytes - 1) \<noteq> ch_nul" using assms(1) unfolding no_nul_def by metis
  have nn2: "no_nul a" "no_nul r" and la: "length a = nbytes - 1"
    using assms by (auto simp: a_def r_def no_nul_def dest: in_set_takeD in_set_dropD)
  note nn = nn1 nn2
  have "get_string_loop nbytes 0 buf (s @ ch_nul # fp)
      = get_string_loop nbytes (nbytes - 1) (a @ drop (nbytes - 1) buf) (s ! (nbytes - 1) # r @ ch_nul # fp)"
    using get_string_loop_fits [of a 0 nbytes buf "s ! (nbytes - 1) # r @ ch_nul # fp"] assms nn la
    by (subst s) simp
  also have "(a @ drop (nbytes - 1) buf) = a @ buf ! (nbytes - 1) # drop nbytes buf"
    using assms Cons_nth_drop_Suc [of "nbytes - 1" buf] by simp
  also have "get_string_loop nbytes (nbytes - 1) (a @ buf ! (nbytes - 1) # drop nbytes buf) (s ! (nbytes - 1) # r @ ch_nul # fp)
      = Some (a @ ch_nul # drop nbytes buf, length s, False, fp)"
    using assms nn la get_string_loop_rest [of nbytes nbytes r "a @ ch_nul # drop nbytes buf" fp]
    by (simp add: buf_set_def list_update_append r_def)
  finally show ?thesis
    using assms(2) not_less [of "length s" "nbytes - 1"] by (auto simp: pkt_get_string_def a_def)
qed

lemma no_nul_cstr_take: "no_nul (take k (cstr b))"
  by (rule no_nul_take) simp

lemma cstr_sanitize:
  assumes "ch_nul \<in> set b" "0 < limit"
  shows "cstr (sanitize_field b limit) = take (limit - 1) (cstr b)"
proof (cases "length (cstr b) < limit")
  case True
  then show ?thesis by (simp add: sanitize_field_def)
next
  case False
  have lt: "limit - 1 < length b" using False cstr_length_le [of b] assms(2) by simp
  have "b[limit - 1 := ch_nul] = take (limit - 1) b @ ch_nul # drop limit b"
    using lt assms(2) by (simp add: upd_conv_take_nth_drop)
  moreover have "take (limit - 1) b = take (limit - 1) (cstr b)"
    using take_cstr [of b] False by (metis diff_le_self le_trans linorder_not_less min.absorb1 take_take)
  ultimately show ?thesis
    using False cstr_append [OF no_nul_cstr_take] by (simp add: sanitize_field_def)
qed

lemma read_msg_field_written:
  assumes "no_nul s" "length s < limit" "Suc limit \<le> length buf"
  shows "read_msg_field (pkt_put_string s @ fp) buf limit strict
    = Some (s @ ch_nul # drop (Suc (length s)) buf, fp)"
  using assms pkt_get_string_short [of s "length buf" buf fp]
  by (simp add: read_msg_field_def pkt_put_string_def)

text \<open>A message as the arrays of the structure hold it.\<close>

definition msg_arrays :: "message \<Rightarrow> bool" where
  "msg_arrays m \<longleftrightarrow> length (name_to m) = NAMEBUFSIZE \<and> length (name_from m) = NAMEBUFSIZE \<and>
     length (subject m) = SUBJBUFSIZE \<and> ch_nul \<in> set (name_to m) \<and> ch_nul \<in> set (name_from m) \<and>
     ch_nul \<in> set (subject m)"

text \<open>
  C3. A message header written by pkt_put_msg_hdr is read back by pkt_get_msg_hdr: net and node
  of both addresses, attributes, cost, the names and the subject.
\<close>

theorem pkt_msg_hdr_roundtrip:
  assumes "msg_arrays m" "msg_arrays old"
    and "u16 (node (node_from m))" "u16 (node (node_to m))" "u16 (net (node_from m))"
      "u16 (net (node_to m))" "u16 (attr m)" "u16 (cost m)" "date m \<noteq> -1"
    and "length (date_tz (date m) (tz m)) = 19" "no_nul (date_tz (date m) (tz m))"
      "parsedate (date_tz (date m) (tz m)) = date m"
  shows "\<exists>m'. pkt_get_msg_hdr parsedate
      (drop 2 (fst (pkt_put_msg_hdr date_tz now prev m False)) @ fp) old True = Some (m', fp) \<and>
     node (node_from m') = node (node_from m) \<and> net (node_from m') = net (node_from m) \<and>
     node (node_to m') = node (node_to m) \<and> net (node_to m') = net (node_to m) \<and>
     attr m' = attr m \<and> cost m' = cost m \<and> date m' = date m \<and>
     cstr (name_to m') = take 35 (cstr (name_to m)) \<and>
     cstr (name_from m') = take 35 (cstr (name_from m)) \<and>
     cstr (subject m') = take 71 (cstr (subject m))"
proof -
  define s1 where "s1 = take 35 (cstr (name_to m))"
  define s2 where "s2 = take 35 (cstr (name_from m))"
  define s3 where "s3 = take 71 (cstr (subject m))"
  have nn: "no_nul s1" "no_nul s2" "no_nul s3"
    by (simp_all add: s1_def s2_def s3_def no_nul_cstr_take)
  have len: "length s1 < 36" "length s2 < 36" "length s3 < 72"
    by (simp_all add: s1_def s2_def s3_def)
  have san: "cstr (sanitize_field (name_to m) 36) = s1" "cstr (sanitize_field (name_from m) 36) = s2"
    "cstr (sanitize_field (subject m) 72) = s3"
    using assms(1) by (simp_all add: msg_arrays_def s1_def s2_def s3_def cstr_sanitize)
  define d where "d = date_tz (date m) (tz m)"
  have d: "length d = 19" "no_nul d" "parsedate d = date m" using assms(10-12) by (simp_all add: d_def)
  have gd: "pkt_get_date parsedate (pkt_put_string d @ r) = (date m, r)" for r
    using d cstr_append [of d "[]"] by (simp add: pkt_get_date_def pkt_put_string_def MSG_MAXDATE_def)
  have rd: "read_msg_field (pkt_put_string s @ r) buf limit True
      = Some (s @ ch_nul # drop (Suc (length s)) buf, r)"
    if "no_nul s" "length s < limit" "Suc limit \<le> length buf" for s r buf limit
    using read_msg_field_written that by blast
  have bufs: "length (name_to old) = 144" "length (name_from old) = 144" "length (subject old) = 144"
    using assms(2) by (simp_all add: msg_arrays_def pkt_consts)
  have drop2: "drop 2 (pkt_put_int16 v @ r) = r" for v r by (simp add: pkt_put_int16_def)
  show ?thesis
    using assms(3-9) nn len bufs
    by (simp add: pkt_get_msg_hdr_def pkt_put_msg_hdr_def pkt_put_date_def Let_def
        pkt_msg_sanitize_strings_def MSG_MAXNAME_def MSG_MAXSUBJ_def san d_def [symmetric] gd rd
        get_put_int16_u16 cstr_append s1_def [symmetric] s2_def [symmetric] s3_def [symmetric] drop2
        del: drop_append)
qed

theorem pkt_msg_hdr_roundtrip_witness:
  "\<exists>m'. pkt_get_msg_hdr (\<lambda>_. 5) (drop 2 (fst (pkt_put_msg_hdr (\<lambda>_ _. replicate 19 CHR ''d'') 1 2
      \<lparr>node_from = mk_node 2 5020 1 0, node_to = mk_node 2 5030 2 0, node_orig = mk_node 2 5020 1 0,
       attr = 1, cost = 0, date = 5, tz = None, name_to = replicate 144 ch_nul,
       name_from = replicate 144 ch_nul, subject = replicate 144 ch_nul, area = None\<rparr> False)) @ ''x'')
      \<lparr>node_from = mk_node 0 0 0 0, node_to = mk_node 0 0 0 0, node_orig = mk_node 0 0 0 0,
       attr = 0, cost = 0, date = 0, tz = None, name_to = replicate 144 ch_nul,
       name_from = replicate 144 ch_nul, subject = replicate 144 ch_nul, area = None\<rparr> True = Some (m', ''x'') \<and>
     node (node_from m') = 1 \<and> attr m' = 1"
proof -
  let ?m = "\<lparr>node_from = mk_node 2 5020 1 0, node_to = mk_node 2 5030 2 0, node_orig = mk_node 2 5020 1 0,
       attr = 1, cost = 0, date = 5, tz = None, name_to = replicate 144 ch_nul,
       name_from = replicate 144 ch_nul, subject = replicate 144 ch_nul, area = None\<rparr>"
  let ?old = "\<lparr>node_from = mk_node 0 0 0 0, node_to = mk_node 0 0 0 0, node_orig = mk_node 0 0 0 0,
       attr = 0, cost = 0, date = 0, tz = None, name_to = replicate 144 ch_nul,
       name_from = replicate 144 ch_nul, subject = replicate 144 ch_nul, area = None\<rparr>"
  have "msg_arrays ?m" "msg_arrays ?old" by (simp_all add: msg_arrays_def pkt_consts)
  from pkt_msg_hdr_roundtrip [OF this, where date_tz = "\<lambda>_ _. replicate 19 CHR ''d''"
      and parsedate = "\<lambda>_. 5" and fp = "''x''" and now = 1 and prev = 2]
  show ?thesis by (auto simp: u16_def no_nul_def)
qed

text \<open>
  C18. pkt_get_string leaves a terminated string in its buffer whenever the stored string is not
  exactly one byte shorter than the limit.
\<close>

theorem pkt_get_string_terminates_buffer:
  assumes "no_nul s" "0 < nbytes" "length buf = nbytes"
  shows "\<exists>buf'. pkt_get_string (s @ ch_nul # fp) buf nbytes = Some (buf', length s + 1, fp) \<and>
     length buf' = nbytes \<and>
     (if length s = nbytes - 1 then buf' = s @ [last buf] else cstr buf' = take (nbytes - 1) s)"
proof -
  consider "length s < nbytes - 1" | "length s = nbytes - 1" | "nbytes \<le> length s" using assms(2) by linarith
  then show ?thesis
  proof cases
    case 1
    then show ?thesis
      using pkt_get_string_short [of s nbytes buf fp] assms cstr_append [OF assms(1)] by auto
  next
    case 2
    have "buf \<noteq> []" using assms by auto
    then have "last buf = buf ! length s" using 2 assms by (simp add: last_conv_nth)
    then show ?thesis using pkt_get_string_exact [of s nbytes buf fp] 2 assms by auto
  next
    case 3
    have "cstr (take (nbytes - 1) s @ ch_nul # r) = take (nbytes - 1) s" for r
      by (intro cstr_append no_nul_take assms)
    moreover have "length s \<noteq> nbytes - 1" using 3 assms(2) by simp
    moreover have "min (length s) (nbytes - 1) = nbytes - 1" using 3 by simp
    ultimately show ?thesis using pkt_get_string_long [of s nbytes buf fp] 3 assms by simp
  qed
qed

theorem pkt_get_string_terminates_buffer_witness:
  "\<exists>buf'. pkt_get_string (''abc'' @ ch_nul # ''z'') ''wxyz'' 4 = Some (buf', length ''abc'' + 1, ''z'') \<and>
     length buf' = 4 \<and>
     (if length ''abc'' = 4 - 1 then buf' = ''abc'' @ [last ''wxyz''] else cstr buf' = take (4 - 1) ''abc'')"
  by (rule pkt_get_string_terminates_buffer) simp_all

text \<open>
  \<open>pkt_put_line\<close> writes one CR for a line end LF or CR LF; the flag survives an LF, so the empty
  line of CR LF LF is lost.
\<close>

lemma pkt_put_line_lf:
  "set s \<inter> {ch_cr, ch_lf} = {} \<Longrightarrow> pkt_put_line (s @ [ch_lf]) = s @ [ch_cr]"
proof -
  have "put_line_loop False (s @ t) = s @ put_line_loop False t" if "set s \<inter> {ch_cr, ch_lf} = {}" for t
    using that by (induction s) auto
  then show "set s \<inter> {ch_cr, ch_lf} = {} \<Longrightarrow> ?thesis" by (simp add: pkt_put_line_def)
qed

lemma pkt_put_line_drops_blank:
  "pkt_put_line (''a'' @ [ch_cr, ch_lf, ch_lf] @ ''b'') = ''a'' @ [ch_cr] @ ''b''"
  by (simp add: pkt_put_line_def)

end
