(* ===== verification/Outpkt.thy ===== *)
theory Outpkt
  imports Packet
begin

text \<open>
  The output packets of the tosser: \<open>src/common/outpkt.c\<close> and the sequence numbers of
  \<open>src/common/sequencer.c\<close>.  A bounded number of packet files is open at a time; the one with the
  fewest messages is closed to make room and reopened for appending when it is needed again.

  Files are a map from names to contents.  An open file is written at its end, so the FILE pointer
  of an entry is the flag \<open>op_open\<close>.  Writing, closing and renaming do not fail; opening a file
  fails when \<open>openable\<close> says so.
\<close>

subsection \<open>Sequence numbers\<close>

text \<open>
  \<open>sequencer\<close> on the content of its file: the new number and the new content.  The number is
  written over the start of the file, which is not truncated.
\<close>

definition sequencer :: "bytes \<Rightarrow> int \<times> bytes" where
  "sequencer content =
     (let seqn = (if content = [] then 0 else atol (cstr (takeWhile (\<lambda>c. c \<noteq> ch_lf) content)));
          seqn = (if seqn = 9223372036854775807 then -9223372036854775808 else seqn + 1);
          seqn = (if seqn < 0 then 0 else seqn);
          t = dec seqn @ [ch_lf]
      in (seqn, t @ drop (length t) content))"

subsection \<open>State\<close>

record outpkt =
  op_tmp :: cstring
  op_out :: cstring
  op_from :: fnode
  op_to :: fnode
  op_flav :: char
  op_type :: char
  op_grade :: char
  op_bad :: bool
  op_open :: bool
  op_n :: int

record outstate =
  outpkts :: "outpkt list"
  maxopen :: int
  nopen :: int
  files :: "cstring \<rightharpoonup> bytes"
  seqfile :: bytes

text \<open>The environment: the two directories, which files can be opened, and what goes into a header.\<close>

record outenv =
  outdir :: cstring
  baddir :: cstring
  openable :: "cstring \<Rightarrow> bool"
  pkt_pw :: "fnode \<Rightarrow> cstring option"
  ver_minor :: int
  ver_major :: int
  localtime :: "int \<Rightarrow> tm"
  time_now :: int

subsection \<open>Operations\<close>

definition hex_lower :: "int \<Rightarrow> char" where
  "hex_lower d = byte_of (if d < 10 then 48 + d else 87 + d)"

text \<open>\<open>%05lx\<close> of a number below \<open>2 ^ 20\<close>.\<close>

definition hex5 :: "int \<Rightarrow> cstring" where
  "hex5 n = [hex_lower (n div 65536 mod 16), hex_lower (n div 4096 mod 16), hex_lower (n div 256 mod 16),
     hex_lower (n div 16 mod 16), hex_lower (n mod 16)]"

definition outpkt_outputname :: "cstring \<Rightarrow> char \<Rightarrow> char \<Rightarrow> char \<Rightarrow> int \<Rightarrow> cstring \<Rightarrow> cstring" where
  "outpkt_outputname dir grade type flav n ext = dir @ ''/'' @ [grade, type, flav] @ hex5 n @ ''.'' @ ext"

definition outpkt_sequencer :: "outstate \<Rightarrow> int \<times> outstate" where
  "outpkt_sequencer st = (let (n, f) = sequencer (seqfile st) in (n mod 0x100000, st\<lparr>seqfile := f\<rparr>))"

definition outpkt_new :: "fnode \<Rightarrow> fnode \<Rightarrow> outpkt" where
  "outpkt_new from_node to_node =
     \<lparr>op_tmp = [], op_out = [], op_from = from_node, op_to = to_node, op_flav = ch_nul, op_type = ch_nul,
      op_grade = ch_nul, op_bad = False, op_open = False, op_n = 1\<rparr>"

definition outpkt_names :: "outenv \<Rightarrow> outpkt \<Rightarrow> char \<Rightarrow> char \<Rightarrow> char \<Rightarrow> bool \<Rightarrow> outstate \<Rightarrow> outpkt \<times> outstate" where
  "outpkt_names env p grade type flav bad st =
     (let (n, st) = outpkt_sequencer st; dir = (if bad then baddir env else outdir env)
      in (p\<lparr>op_flav := flav, op_type := type, op_grade := grade, op_bad := bad,
            op_out := outpkt_outputname dir grade type flav n ''pkt'',
            op_tmp := outpkt_outputname dir grade type flav n ''tmp''\<rparr>, st))"

text \<open>The search for the open packet with the fewest messages; of several the last one.\<close>

fun least_n :: "nat \<Rightarrow> outpkt list \<Rightarrow> (nat \<times> int) option \<Rightarrow> nat option" where
  "least_n i [] best = map_option fst best"
| "least_n i (p # ps) best =
     least_n (Suc i) ps
       (if op_open p \<and> (case best of None \<Rightarrow> True | Some (_, m) \<Rightarrow> m = -1 \<or> m \<ge> op_n p)
        then Some (i, op_n p) else best)"

definition outpkt_close_ln :: "outstate \<Rightarrow> outstate option" where
  "outpkt_close_ln st =
     (case least_n 0 (outpkts st) None of
        None \<Rightarrow> None
      | Some i \<Rightarrow> Some (st\<lparr>nopen := nopen st - 1, outpkts := (outpkts st)[i := (outpkts st ! i)\<lparr>op_open := False\<rparr>]\<rparr>))"

definition open_count :: "outstate \<Rightarrow> nat" where
  "open_count st = length (filter op_open (outpkts st))"

lemma least_n_open:
  "least_n i ps best = Some k \<Longrightarrow>
     (\<exists>m. best = Some (k, m)) \<or> (i \<le> k \<and> k < i + length ps \<and> op_open (ps ! (k - i)))"
proof (induction i ps best rule: least_n.induct)
  case (2 i p ps best)
  then show ?case
    by (fastforce split: if_splits option.splits simp: nth_Cons' Suc_le_eq)
qed auto

lemma count_close:
  "k < length ps \<Longrightarrow> op_open (ps ! k) \<Longrightarrow>
     Suc (length (filter op_open (ps[k := (ps ! k)\<lparr>op_open := False\<rparr>]))) = length (filter op_open ps)"
proof (induction ps arbitrary: k)
  case (Cons p ps)
  then show ?case by (cases k) auto
qed simp

lemma close_ln_count: "outpkt_close_ln st = Some st' \<Longrightarrow> Suc (open_count st') = open_count st"
  using least_n_open [of 0 "outpkts st" None] count_close
  by (auto simp: outpkt_close_ln_def open_count_def split: option.splits)

text \<open>\<open>outpkt_fopen\<close>: success, and the state; \<open>append\<close> for \<open>A_MODE\<close>.\<close>

function outpkt_fopen :: "outenv \<Rightarrow> cstring \<Rightarrow> bool \<Rightarrow> outstate \<Rightarrow> bool \<times> outstate" where
  "outpkt_fopen env name append_mode st =
     (if nopen st \<ge> maxopen st then
        (case outpkt_close_ln st of None \<Rightarrow> (False, st) | Some st' \<Rightarrow> outpkt_fopen env name append_mode st')
      else if openable env name then
        (True, st\<lparr>nopen := nopen st + 1,
                  files := (files st)(name \<mapsto>
                    (case files st name of Some c \<Rightarrow> if append_mode then c else [] | None \<Rightarrow> []))\<rparr>)
      else (False, st))"
  by pat_completeness auto
termination
  by (relation "measure (\<lambda>(env, name, a, st). open_count st)") (auto dest!: close_ln_count)

declare outpkt_fopen.simps [simp del]

text \<open>The header of a new packet.\<close>

definition outpkt_hdr :: "outenv \<Rightarrow> fnode \<Rightarrow> fnode \<Rightarrow> bytes" where
  "outpkt_hdr env from_node to_node =
     (let pw = (case pkt_pw env to_node of None \<Rightarrow> [] | Some p \<Rightarrow> p);
          buf = the (str_copy (replicate (PKT_MAXPASSWD + 1) ch_nul) (PKT_MAXPASSWD + 1) pw)
      in pkt_put_hdr (ver_minor env) (ver_major env) (localtime env)
           \<lparr>pkt_from = from_node, pkt_to = to_node, pkt_time = time_now env, pkt_baud = 0, pkt_version = 0,
            pkt_product_l = 0, pkt_product_h = 0, pkt_rev_min = 0, pkt_rev_maj = 0, pkt_passwd = buf,
            pkt_capword = 0, pkt_psd = []\<rparr>)"

definition op_matches :: "fnode \<Rightarrow> fnode \<Rightarrow> char \<Rightarrow> char \<Rightarrow> char \<Rightarrow> bool \<Rightarrow> outpkt \<Rightarrow> bool" where
  "op_matches from_node to_node grade type flav bad p \<longleftrightarrow>
     node_eq from_node (op_from p) \<and> node_eq to_node (op_to p) \<and> flav = op_flav p \<and> type = op_type p \<and>
     grade = op_grade p \<and> bad = op_bad p"

fun find_index :: "('a \<Rightarrow> bool) \<Rightarrow> 'a list \<Rightarrow> nat option" where
  "find_index P [] = None"
| "find_index P (x # xs) = (if P x then Some 0 else map_option Suc (find_index P xs))"

abbreviation upd_pkt :: "nat \<Rightarrow> (outpkt \<Rightarrow> outpkt) \<Rightarrow> outstate \<Rightarrow> outstate" where
  "upd_pkt i f st \<equiv> st\<lparr>outpkts := (outpkts st)[i := f (outpkts st ! i)]\<rparr>"

definition file_append :: "cstring \<Rightarrow> bytes \<Rightarrow> outstate \<Rightarrow> outstate" where
  "file_append name b st =
     st\<lparr>files := (files st)(name \<mapsto> (case files st name of Some c \<Rightarrow> c @ b | None \<Rightarrow> b))\<rparr>"

text \<open>
  \<open>outpkt_open\<close>: the position of the entry whose FILE is returned, \<open>None\<close> for NULL.  An entry
  whose file cannot be created stays in the list.
\<close>

definition outpkt_open :: "outenv \<Rightarrow> fnode \<Rightarrow> fnode \<Rightarrow> char \<Rightarrow> char \<Rightarrow> char \<Rightarrow> bool \<Rightarrow> outstate
    \<Rightarrow> nat option \<times> outstate" where
  "outpkt_open env from_node to_node grade type flav bad st =
     (case find_index (op_matches from_node to_node grade type flav bad) (outpkts st) of
        Some i \<Rightarrow>
          (let st = upd_pkt i (\<lambda>p. p\<lparr>op_n := op_n p + 1\<rparr>) st in
           if op_open (outpkts st ! i) then (Some i, st)
           else
             (let (ok, st) = outpkt_fopen env (op_tmp (outpkts st ! i)) True st
              in (if ok then Some i else None, upd_pkt i (\<lambda>p. p\<lparr>op_open := ok\<rparr>) st)))
      | None \<Rightarrow>
          (let (p, st) = outpkt_names env (outpkt_new from_node to_node) grade type flav bad st;
               i = length (outpkts st);
               st = st\<lparr>outpkts := outpkts st @ [p]\<rparr>;
               (ok, st) = outpkt_fopen env (op_tmp p) False st;
               st = upd_pkt i (\<lambda>p. p\<lparr>op_open := ok\<rparr>) st
           in if ok then (Some i, file_append (op_tmp p) (outpkt_hdr env from_node to_node) st)
              else (None, st)))"

text \<open>Writing to the FILE of an entry, and what a caller does with one message.\<close>

definition outpkt_write :: "nat \<Rightarrow> bytes \<Rightarrow> outstate \<Rightarrow> outstate" where
  "outpkt_write i b st = file_append (op_tmp (outpkts st ! i)) b st"

text \<open>
  \<open>outpkt_close\<close>: an entry is freed when it is done, but \<open>outpkt_first\<close> goes on pointing to the
  first of them (\<open>freed\<close>).  Looking for a file to close would then follow a freed entry: \<open>None\<close>.
\<close>

fun outpkt_close_loop :: "outenv \<Rightarrow> bool \<Rightarrow> nat \<Rightarrow> outstate \<Rightarrow> outstate option" where
  "outpkt_close_loop env freed 0 st = Some (st\<lparr>outpkts := [], nopen := 0\<rparr>)"
| "outpkt_close_loop env freed (Suc k) st =
     (case outpkts st of
        [] \<Rightarrow> Some (st\<lparr>outpkts := [], nopen := 0\<rparr>)
      | p # ps \<Rightarrow>
          if \<not> op_open p \<and> freed \<and> nopen st \<ge> maxopen st then None
          else
            (let (isopen, st) = (if op_open p then (True, st) else outpkt_fopen env (op_tmp p) True st);
                 st = (if isopen then
                         (let st = file_append (op_tmp p) (pkt_put_int16 0) st
                          in st\<lparr>nopen := nopen st - 1,
                                files := (files st)(op_tmp p := None, op_out p := files st (op_tmp p))\<rparr>)
                       else st)
             in outpkt_close_loop env True k (st\<lparr>outpkts := tl (outpkts st)\<rparr>)))"

definition outpkt_close :: "outenv \<Rightarrow> outstate \<Rightarrow> outstate option" where
  "outpkt_close env st = outpkt_close_loop env False (length (outpkts st)) st"

subsection \<open>File names\<close>

lemma hex_lower_inj: "0 \<le> a \<Longrightarrow> a < 16 \<Longrightarrow> 0 \<le> b \<Longrightarrow> b < 16 \<Longrightarrow> hex_lower a = hex_lower b \<longleftrightarrow> a = b"
proof
  assume r: "0 \<le> a" "a < 16" "0 \<le> b" "b < 16" and "hex_lower a = hex_lower b"
  then have "code (hex_lower a) = code (hex_lower b)" by simp
  then show "a = b" using r by (auto simp: hex_lower_def split: if_splits)
qed simp

lemma hex5_inj:
  assumes "0 \<le> a" "a < 0x100000" "0 \<le> b" "b < 0x100000" "hex5 a = hex5 b"
  shows "a = b"
proof -
  have split: "n = 65536 * (n div 65536 mod 16) + 4096 * (n div 4096 mod 16) + 256 * (n div 256 mod 16) +
      16 * (n div 16 mod 16) + n mod 16" if "0 \<le> n" "n < 0x100000" for n :: int
  proof -
    have "n div 16 = 16 * (n div 256) + n div 16 mod 16" "n div 256 = 16 * (n div 4096) + n div 256 mod 16"
      "n div 4096 = 16 * (n div 65536) + n div 4096 mod 16" "n = 16 * (n div 16) + n mod 16"
      using zdiv_zmult2_eq [of 16 n 16] zdiv_zmult2_eq [of 16 n 256] zdiv_zmult2_eq [of 16 n 4096] by simp_all
    moreover have "n div 65536 mod 16 = n div 65536" using that by simp
    ultimately show ?thesis by linarith
  qed
  have "a div 65536 mod 16 = b div 65536 mod 16" "a div 4096 mod 16 = b div 4096 mod 16"
    "a div 256 mod 16 = b div 256 mod 16" "a div 16 mod 16 = b div 16 mod 16" "a mod 16 = b mod 16"
    using assms(5) by (simp_all add: hex5_def hex_lower_inj)
  then show ?thesis using split [OF assms(1,2)] split [OF assms(3,4)] by linarith
qed

lemma outputname_inj:
  assumes "outpkt_outputname d g t f a e = outpkt_outputname d' g' t' f' b e'" "length e = length e'"
    and "0 \<le> a" "a < 0x100000" "0 \<le> b" "b < 0x100000"
  shows "a = b" "e = e'"
proof -
  have "(d @ ''/'' @ [g, t, f]) @ (hex5 a @ ''.'' @ e) = (d' @ ''/'' @ [g', t', f']) @ (hex5 b @ ''.'' @ e')"
    using assms(1) by (simp add: outpkt_outputname_def)
  moreover have "length (hex5 a @ ''.'' @ e) = length (hex5 b @ ''.'' @ e')"
    using assms(2) by (simp add: hex5_def)
  ultimately have h: "hex5 a @ ''.'' @ e = hex5 b @ ''.'' @ e'" using append_eq_append_conv by blast
  then have "hex5 a = hex5 b" by (simp add: hex5_def)
  then show "a = b" by (rule hex5_inj [OF assms(3-6)])
  show "e = e'" using h by (simp add: hex5_def)
qed

subsection \<open>Sequence numbers in the file\<close>

definition seq_value :: "bytes \<Rightarrow> int \<Rightarrow> bool" where
  "seq_value content v \<longleftrightarrow> 0 \<le> v \<and> (content = [] \<and> v = 0 \<or> (\<exists>r. content = dec v @ ch_lf # r))"

lemma atol_dec:
  assumes "0 \<le> v" "v < 9223372036854775808"
  shows "atol (dec v) = v"
proof -
  have "is_digit (peek (dec v @ []))" using assms by (simp only: peek_dec)
  then obtain c s where cs: "dec v = c # s" "is_digit c" by (cases "dec v") auto
  then show ?thesis
    using digit_not_special [OF cs(2)] dec_digits_dec [OF assms(1), of "[]"] assms by (simp add: atol_def)
qed

lemma sequencer_counts:
  assumes "seq_value content v" "v < 9223372036854775807"
  shows "fst (sequencer content) = v + 1 \<and> seq_value (snd (sequencer content)) (v + 1)"
proof -
  have "(if content = [] then 0 else atol (cstr (takeWhile (\<lambda>c. c \<noteq> ch_lf) content))) = v"
  proof (cases "content = []")
    case False
    then obtain r where r: "content = dec v @ ch_lf # r" using assms(1) by (auto simp: seq_value_def)
    have v: "0 \<le> v" using assms(1) by (simp add: seq_value_def)
    have d: "\<forall>c \<in> set (dec v). c \<noteq> ch_lf" "no_nul (dec v)"
      using dec_digits_all [OF v] digit_not_special by (auto simp: no_nul_def)
    have "takeWhile (\<lambda>c. c \<noteq> ch_lf) content = dec v" unfolding r by (rule takeWhile_append_stop) (use d in auto)
    then show ?thesis using False d atol_dec [OF v] assms(2) by (simp add: cstr_whole)
  qed (use assms(1) in \<open>auto simp: seq_value_def\<close>)
  moreover have "0 \<le> v" using assms(1) by (simp add: seq_value_def)
  ultimately show ?thesis using assms(2) by (auto simp: sequencer_def seq_value_def Let_def)
qed

subsection \<open>A run of messages\<close>

text \<open>What the tosser does with one message: it opens the packet and writes the message.\<close>

record outmsg =
  om_from :: fnode
  om_to :: fnode
  om_grade :: char
  om_type :: char
  om_flav :: char
  om_bad :: bool
  om_text :: bytes

definition outpkt_put :: "outenv \<Rightarrow> outmsg \<Rightarrow> outstate \<Rightarrow> outstate" where
  "outpkt_put env m st =
     (case outpkt_open env (om_from m) (om_to m) (om_grade m) (om_type m) (om_flav m) (om_bad m) st of
        (Some i, st) \<Rightarrow> outpkt_write i (om_text m) st
      | (None, st) \<Rightarrow> st)"

definition outpkt_run :: "outenv \<Rightarrow> outmsg list \<Rightarrow> outstate \<Rightarrow> outstate" where
  "outpkt_run env ms st = fold (outpkt_put env) ms st"

text \<open>
  The specification.  Messages with the same key share a packet; \<open>pkt_heads\<close> is the first message
  of every packet, in order.  The packet \<open>i\<close> takes the sequence number \<open>v + 1 + i\<close>.
\<close>

definition pkt_key :: "outmsg \<Rightarrow> znfp \<times> znfp \<times> char \<times> char \<times> char \<times> bool" where
  "pkt_key m = (znfp_of (om_from m), znfp_of (om_to m), om_grade m, om_type m, om_flav m, om_bad m)"

definition add_head :: "outmsg \<Rightarrow> outmsg list \<Rightarrow> outmsg list" where
  "add_head m hs = (if pkt_key m \<in> set (map pkt_key hs) then hs else hs @ [m])"

definition pkt_heads :: "outmsg list \<Rightarrow> outmsg list" where
  "pkt_heads ms = fold add_head ms []"

definition pkt_text :: "outenv \<Rightarrow> outmsg list \<Rightarrow> outmsg \<Rightarrow> bytes" where
  "pkt_text env ms h =
     outpkt_hdr env (om_from h) (om_to h) @ concat (map om_text (filter (\<lambda>m. pkt_key m = pkt_key h) ms))"

definition pkt_file :: "outenv \<Rightarrow> int \<Rightarrow> nat \<Rightarrow> outmsg \<Rightarrow> cstring \<Rightarrow> cstring" where
  "pkt_file env v i h ext =
     outpkt_outputname (if om_bad h then baddir env else outdir env) (om_grade h) (om_type h) (om_flav h)
       ((v + 1 + int i) mod 0x100000) ext"

definition pkt_entry :: "outenv \<Rightarrow> int \<Rightarrow> nat \<Rightarrow> outmsg \<Rightarrow> outpkt" where
  "pkt_entry env v i h =
     \<lparr>op_tmp = pkt_file env v i h ''tmp'', op_out = pkt_file env v i h ''pkt'', op_from = om_from h,
      op_to = om_to h, op_flav = om_flav h, op_type = om_type h, op_grade = om_grade h, op_bad = om_bad h,
      op_open = False, op_n = 0\<rparr>"

definition pkt_entries :: "outenv \<Rightarrow> int \<Rightarrow> outmsg list \<Rightarrow> outpkt list" where
  "pkt_entries env v hs = map (\<lambda>i. pkt_entry env v i (hs ! i)) [0..<length hs]"

text \<open>An entry without what the closing of files changes.\<close>

definition ident :: "outpkt \<Rightarrow> outpkt" where
  "ident p = p\<lparr>op_open := False, op_n := 0\<rparr>"

lemma ident_simps [simp]:
  "ident (p\<lparr>op_open := b\<rparr>) = ident p" "ident (p\<lparr>op_n := n\<rparr>) = ident p" "op_tmp (ident p) = op_tmp p"
  "op_out (ident p) = op_out p" "op_matches x y g t f d (ident p) = op_matches x y g t f d p"
  by (simp_all add: ident_def op_matches_def)

lemma map_ident_update: "ident q = ident (ps ! i) \<Longrightarrow> map ident (ps[i := q]) = map ident ps"
  by (cases "i < length ps") (simp_all add: map_update list_update_same_conv list_update_beyond)

text \<open>The count of open files is right, and never above the limit.\<close>

definition files_counted :: "outstate \<Rightarrow> bool" where
  "files_counted st \<longleftrightarrow> nopen st = int (open_count st) \<and> nopen st \<le> maxopen st \<and> 1 \<le> maxopen st"

lemma least_n_some: "best \<noteq> None \<or> (\<exists>p \<in> set ps. op_open p) \<Longrightarrow> least_n i ps best \<noteq> None"
proof (induction i ps best rule: least_n.induct)
  case (2 i p ps best)
  show ?case
    by (simp only: least_n.simps, rule "2.IH") (use "2.prems" in \<open>auto split: option.splits\<close>)
qed simp

lemma close_keeps: "op_open (ps[i := (ps ! i)\<lparr>op_open := False\<rparr>] ! k) \<Longrightarrow> op_open (ps ! k)"
  by (cases "i < length ps"; cases "i = k") (simp_all add: list_update_beyond)

lemma close_ln_works:
  assumes "nopen st = int (open_count st)" "0 < nopen st"
  obtains st' where "outpkt_close_ln st = Some st'" "nopen st' = nopen st - 1"
    "nopen st' = int (open_count st')" "map ident (outpkts st') = map ident (outpkts st)"
    "\<forall>k < length (outpkts st). op_open (outpkts st' ! k) \<longrightarrow> op_open (outpkts st ! k)"
    "files st' = files st" "seqfile st' = seqfile st" "maxopen st' = maxopen st"
proof -
  have "\<exists>p \<in> set (outpkts st). op_open p"
    using assms by (auto simp: open_count_def filter_empty_conv simp flip: length_greater_0_conv)
  then obtain i where i: "least_n 0 (outpkts st) None = Some i" using least_n_some by blast
  define st' where "st' = st\<lparr>nopen := nopen st - 1, outpkts := (outpkts st)[i := (outpkts st ! i)\<lparr>op_open := False\<rparr>]\<rparr>"
  have c: "outpkt_close_ln st = Some st'" by (simp add: outpkt_close_ln_def i st'_def)
  have keeps: "\<forall>k < length (outpkts st). op_open (outpkts st' ! k) \<longrightarrow> op_open (outpkts st ! k)"
    using close_keeps [of "outpkts st" i] by (simp add: st'_def)
  show ?thesis
    by (rule that [OF c _ _ _ keeps])
      (use close_ln_count [OF c] assms(1) in \<open>simp_all add: st'_def map_ident_update\<close>)
qed

lemma fopen_effect:
  assumes "nopen st = int (open_count st)" "1 \<le> maxopen st"
  shows "\<exists>st'. outpkt_fopen env name a st = (openable env name, st') \<and>
    nopen st' = int (open_count st') + (if openable env name then 1 else 0) \<and>
    nopen st' \<le> maxopen st' \<and> map ident (outpkts st') = map ident (outpkts st) \<and>
    (\<forall>k < length (outpkts st). op_open (outpkts st' ! k) \<longrightarrow> op_open (outpkts st ! k)) \<and>
    seqfile st' = seqfile st \<and> maxopen st' = maxopen st \<and>
    files st' = (if openable env name then
        (files st)(name \<mapsto> (case files st name of Some c \<Rightarrow> if a then c else [] | None \<Rightarrow> []))
      else files st)"
  using assms
proof (induction env name a st rule: outpkt_fopen.induct)
  case (1 env name a st)
  show ?case
  proof (cases "nopen st \<ge> maxopen st")
    case True
    then have "0 < nopen st" using "1.prems"(2) by simp
    from close_ln_works [OF "1.prems"(1) this] obtain st1 where
      st1: "outpkt_close_ln st = Some st1" "nopen st1 = nopen st - 1"
        "nopen st1 = int (open_count st1)" "map ident (outpkts st1) = map ident (outpkts st)"
        "\<forall>k < length (outpkts st). op_open (outpkts st1 ! k) \<longrightarrow> op_open (outpkts st ! k)"
        "files st1 = files st" "seqfile st1 = seqfile st" "maxopen st1 = maxopen st" .
    have "outpkt_fopen env name a st = outpkt_fopen env name a st1"
      using True by (subst outpkt_fopen.simps) (simp add: st1(1))
    moreover have "length (outpkts st1) = length (outpkts st)" using st1(4) by (metis length_map)
    ultimately show ?thesis using "1.IH" [OF True st1(1) st1(3)] "1.prems"(2) st1(4-8) by auto
  next
    case False
    then show ?thesis using "1.prems"
      by (subst outpkt_fopen.simps) (simp add: open_count_def)
  qed
qed

lemma fopen_works:
  assumes "nopen st = int (open_count st)" "1 \<le> maxopen st" "\<forall>name. openable env name"
  shows "\<exists>st'. outpkt_fopen env name a st = (True, st') \<and> nopen st' = int (open_count st') + 1 \<and>
    nopen st' \<le> maxopen st' \<and> map ident (outpkts st') = map ident (outpkts st) \<and>
    (\<forall>k < length (outpkts st). op_open (outpkts st' ! k) \<longrightarrow> op_open (outpkts st ! k)) \<and>
    seqfile st' = seqfile st \<and> maxopen st' = maxopen st \<and>
    files st' = (files st)(name \<mapsto> (case files st name of Some c \<Rightarrow> if a then c else [] | None \<Rightarrow> []))"
  using fopen_effect [OF assms(1,2), of env name a] assms(3) by simp

text \<open>Names of different packets, and of the two files of a packet, differ.\<close>

lemma pkt_file_inj:
  assumes "pkt_file env v i h e = pkt_file env v j h' e'" "length e = length e'" "i < 0x100000" "j < 0x100000"
  shows "i = j" "e = e'"
proof -
  note n = outputname_inj [OF assms(1) [unfolded pkt_file_def] assms(2)]
  have "(v + 1 + int i) mod 0x100000 = (v + 1 + int j) mod 0x100000" by (rule n(1)) simp_all
  then have "int i mod 0x100000 = int j mod 0x100000" by (simp add: mod_eq_dvd_iff)
  then show "i = j" using assms(3,4) by simp
  show "e = e'" by (rule n(2)) simp_all
qed

lemma pkt_heads_snoc: "pkt_heads (ms @ [m]) = add_head m (pkt_heads ms)"
  by (simp add: pkt_heads_def)

lemma pkt_heads_keys: "set (map pkt_key (pkt_heads ms)) = set (map pkt_key ms)" "distinct (map pkt_key (pkt_heads ms))"
proof (induction ms rule: rev_induct)
  case Nil
  { case 1 show ?case by (simp add: pkt_heads_def) }
  { case 2 show ?case by (simp add: pkt_heads_def) }
next
  case (snoc m ms)
  { case 1 show ?case using snoc by (auto simp: pkt_heads_snoc add_head_def) }
  { case 2 show ?case using snoc by (auto simp: pkt_heads_snoc add_head_def) }
qed

lemma find_index_map: "find_index P (map g xs) = find_index (\<lambda>x. P (g x)) xs"
  by (induction xs) simp_all

lemma find_index_Some: "find_index P xs = Some i \<Longrightarrow> i < length xs \<and> P (xs ! i)"
  by (induction xs arbitrary: i) (auto split: if_splits)

lemma find_index_snoc: "find_index P xs = None \<Longrightarrow> P x \<Longrightarrow> find_index P (xs @ [x]) = Some (length xs)"
  by (induction xs) (auto split: if_splits)

lemma find_index_None: "find_index P xs = None \<longleftrightarrow> (\<forall>x \<in> set xs. \<not> P x)"
  by (induction xs) auto

lemma op_matches_entry:
  "op_matches (om_from m) (om_to m) (om_grade m) (om_type m) (om_flav m) (om_bad m) (pkt_entry env v i h)
     \<longleftrightarrow> pkt_key m = pkt_key h"
  by (auto simp: op_matches_def pkt_entry_def pkt_key_def node_eq_key)

lemma pkt_entries_nth [simp]:
  "i < length hs \<Longrightarrow> pkt_entries env v hs ! i = pkt_entry env v i (hs ! i)" "length (pkt_entries env v hs) = length hs"
  by (simp_all add: pkt_entries_def)

lemma pkt_entries_snoc: "pkt_entries env v (hs @ [h]) = pkt_entries env v hs @ [pkt_entry env v (length hs) h]"
  by (rule nth_equalityI) (auto simp: nth_append less_Suc_eq pkt_entries_def)

text \<open>The state after the messages \<open>ms\<close> from a state with the files \<open>F\<close> and the sequence number \<open>v\<close>.\<close>

definition run_inv :: "outenv \<Rightarrow> int \<Rightarrow> (cstring \<rightharpoonup> bytes) \<Rightarrow> outmsg list \<Rightarrow> outstate \<Rightarrow> bool" where
  "run_inv env v F ms st \<longleftrightarrow>
     files_counted st \<and>
     map ident (outpkts st) = pkt_entries env v (pkt_heads ms) \<and>
     seq_value (seqfile st) (v + int (length (pkt_heads ms))) \<and>
     (\<forall>i < length (pkt_heads ms).
        files st (pkt_file env v i (pkt_heads ms ! i) ''tmp'') = Some (pkt_text env ms (pkt_heads ms ! i))) \<and>
     (\<forall>name. (\<forall>i < length (pkt_heads ms). name \<noteq> pkt_file env v i (pkt_heads ms ! i) ''tmp'') \<longrightarrow>
        files st name = F name)"

lemma run_inv_search:
  assumes "map ident (outpkts st) = pkt_entries env v hs"
  shows "find_index (op_matches (om_from m) (om_to m) (om_grade m) (om_type m) (om_flav m) (om_bad m)) (outpkts st)
    = find_index (\<lambda>h. pkt_key m = pkt_key h) hs"
proof -
  have len: "length (outpkts st) = length hs" using assms by (metis length_map pkt_entries_nth(2))
  let ?Q = "op_matches (om_from m) (om_to m) (om_grade m) (om_type m) (om_flav m) (om_bad m)"
  have "find_index ?Q (outpkts st) = find_index ?Q (map ident (outpkts st))" by (simp add: find_index_map)
  also have "\<dots> = find_index (\<lambda>i. pkt_key m = pkt_key (hs ! i)) [0..<length hs]"
    by (simp only: assms pkt_entries_def find_index_map op_matches_entry)
  also have "\<dots> = find_index (\<lambda>h. pkt_key m = pkt_key h) (map ((!) hs) [0..<length hs])"
    by (simp only: find_index_map)
  finally show ?thesis by (simp add: map_nth)
qed

lemma count_open:
  "k < length ps \<Longrightarrow> \<not> op_open (ps ! k) \<Longrightarrow>
     length (filter op_open (ps[k := (ps ! k)\<lparr>op_open := True\<rparr>])) = Suc (length (filter op_open ps))"
proof (induction ps arbitrary: k)
  case (Cons p ps)
  then show ?case by (cases k) auto
qed simp

lemma count_touch:
  "op_open q = op_open (ps ! k) \<Longrightarrow> length (filter op_open (ps[k := q])) = length (filter op_open ps)"
proof (induction ps arbitrary: k)
  case (Cons p ps)
  then show ?case by (cases k) auto
qed simp

text \<open>A packet that is in the list is opened as it is, a new one is created with its header.\<close>

lemma open_existing:
  assumes "files_counted st" "\<forall>name. openable env name"
    and "find_index (op_matches x y g t f d) (outpkts st) = Some i"
    and "files st (op_tmp (outpkts st ! i)) = Some c"
  shows "\<exists>st'. outpkt_open env x y g t f d st = (Some i, st') \<and> files_counted st' \<and>
    map ident (outpkts st') = map ident (outpkts st) \<and> files st' = files st \<and> seqfile st' = seqfile st"
proof -
  define st1 where "st1 = upd_pkt i (\<lambda>p. p\<lparr>op_n := op_n p + 1\<rparr>) st"
  have i: "i < length (outpkts st)" using find_index_Some [OF assms(3)] by simp
  have same: "map ident (outpkts st1) = map ident (outpkts st)" "files st1 = files st" "seqfile st1 = seqfile st"
    "op_open (outpkts st1 ! i) = op_open (outpkts st ! i)" "op_tmp (outpkts st1 ! i) = op_tmp (outpkts st ! i)"
    "length (outpkts st1) = length (outpkts st)"
    using i by (simp_all add: st1_def map_ident_update)
  have c1: "files_counted st1"
    using assms(1) by (auto simp: files_counted_def st1_def open_count_def count_touch)
  show ?thesis
  proof (cases "op_open (outpkts st ! i)")
    case True
    have "outpkt_open env x y g t f d st = (Some i, st1)"
      using same(4) True by (simp add: outpkt_open_def assms(3) st1_def)
    then show ?thesis using c1 same by auto
  next
    case False
    obtain st2 where st2: "outpkt_fopen env (op_tmp (outpkts st1 ! i)) True st1 = (True, st2)"
      "nopen st2 = int (open_count st2) + 1" "nopen st2 \<le> maxopen st2"
      "map ident (outpkts st2) = map ident (outpkts st1)"
      "\<not> op_open (outpkts st2 ! i)" "seqfile st2 = seqfile st1" "maxopen st2 = maxopen st1" "files st2 = files st1"
      using fopen_works [of st1 env "op_tmp (outpkts st1 ! i)" True] c1 assms(2,4) False i same
      by (auto simp: files_counted_def fun_upd_idem)
    have "i < length (outpkts st2)" using i same(6) st2(4) by (metis length_map)
    then have "files_counted (upd_pkt i (\<lambda>p. p\<lparr>op_open := True\<rparr>) st2)"
      using st2 c1 count_open [of i "outpkts st2"] by (simp add: files_counted_def open_count_def)
    moreover have "outpkt_open env x y g t f d st = (Some i, upd_pkt i (\<lambda>p. p\<lparr>op_open := True\<rparr>) st2)"
      using same(4) False st2(1) by (simp add: outpkt_open_def assms(3) st1_def)
    ultimately show ?thesis using st2 same by (auto simp: map_ident_update)
  qed
qed

lemma names_fields:
  assumes "outpkt_names env (outpkt_new x y) g t f d st = (p, s0)"
  shows "\<not> op_open p" "outpkts s0 = outpkts st" "nopen s0 = nopen st" "maxopen s0 = maxopen st"
    "files s0 = files st" "op_matches x y g t f d p"
  using assms by (auto simp: outpkt_names_def outpkt_new_def outpkt_sequencer_def op_matches_def node_eq_key split_beta Let_def)

lemma open_new_form:
  assumes "find_index (op_matches x y g t f d) (outpkts st) = None"
    and "outpkt_names env (outpkt_new x y) g t f d st = (p, s0)"
    and "outpkt_fopen env (op_tmp p) False (s0\<lparr>outpkts := outpkts st @ [p]\<rparr>) = (ok, s2)"
  shows "outpkt_open env x y g t f d st =
    (let s3 = upd_pkt (length (outpkts st)) (\<lambda>p. p\<lparr>op_open := ok\<rparr>) s2
     in if ok then (Some (length (outpkts st)), file_append (op_tmp p) (outpkt_hdr env x y) s3) else (None, s3))"
  unfolding outpkt_open_def assms(1) option.case assms(2) prod.case Let_def names_fields(2) [OF assms(2)] assms(3) by simp

lemma open_found_form:
  assumes "find_index (op_matches x y g t f d) (outpkts st) = Some i"
    and "\<not> op_open (outpkts st ! i)"
    and "outpkt_fopen env (op_tmp (outpkts st ! i)) True (upd_pkt i (\<lambda>p. p\<lparr>op_n := op_n p + 1\<rparr>) st) = (ok, s2)"
  shows "outpkt_open env x y g t f d st = (if ok then Some i else None, upd_pkt i (\<lambda>p. p\<lparr>op_open := ok\<rparr>) s2)"
  using assms find_index_Some [OF assms(1)] by (simp add: outpkt_open_def)

lemma ident_nth: "map ident xs = map ident ys \<Longrightarrow> i < length ys \<Longrightarrow> op_tmp (xs ! i) = op_tmp (ys ! i)"
  by (metis ident_simps(3) length_map nth_map)

lemma open_counted:
  assumes "files_counted st"
  shows "files_counted (snd (outpkt_open env x y g t f d st))"
proof -
  have fopened: "files_counted (upd_pkt i (\<lambda>p. p\<lparr>op_open := ok\<rparr>) s2)"
    if "files_counted s1" "outpkt_fopen env name a s1 = (ok, s2)" "i < length (outpkts s1)" "\<not> op_open (outpkts s1 ! i)"
    for s1 s2 name a ok i
  proof -
    have r: "ok = openable env name" "nopen s2 = int (open_count s2) + (if ok then 1 else 0)" "nopen s2 \<le> maxopen s2"
      "map ident (outpkts s2) = map ident (outpkts s1)" "\<not> op_open (outpkts s2 ! i)" "maxopen s2 = maxopen s1"
      using fopen_effect [of s1 env name a] that by (auto simp: files_counted_def)
    have "i < length (outpkts s2)" using that(3) r(4) by (metis length_map)
    then show ?thesis
      using r that(1) count_open [of i "outpkts s2"] by (cases ok) (auto simp: files_counted_def open_count_def count_touch)
  qed
  show ?thesis
  proof (cases "find_index (op_matches x y g t f d) (outpkts st)")
    case (Some i)
    let ?st = "upd_pkt i (\<lambda>p. p\<lparr>op_n := op_n p + 1\<rparr>) st"
    have i: "i < length (outpkts st)" using find_index_Some [OF Some] by simp
    have c: "files_counted ?st" using assms by (simp add: files_counted_def open_count_def count_touch)
    obtain ok s2 where fo: "outpkt_fopen env (op_tmp (outpkts ?st ! i)) True ?st = (ok, s2)" by fastforce
    show ?thesis
    proof (cases "op_open (outpkts ?st ! i)")
      case True
      then show ?thesis using c by (simp add: outpkt_open_def Some Let_def)
    next
      case False
      then have "outpkt_open env x y g t f d st = (if ok then Some i else None, upd_pkt i (\<lambda>p. p\<lparr>op_open := ok\<rparr>) s2)"
        using open_found_form [OF Some, of env ok s2] i fo by simp
      then show ?thesis using fopened [OF c fo] i False by simp
    qed
  next
    case None
    obtain p s0 where nm: "outpkt_names env (outpkt_new x y) g t f d st = (p, s0)" by fastforce
    note p = names_fields [OF nm]
    let ?st = "s0\<lparr>outpkts := outpkts st @ [p]\<rparr>"
    obtain ok s2 where fo: "outpkt_fopen env (op_tmp p) False ?st = (ok, s2)" by fastforce
    have "files_counted ?st" using assms p by (simp add: files_counted_def open_count_def)
    from fopened [OF this fo, of "length (outpkts st)"] p(1)
    have "files_counted (upd_pkt (length (outpkts st)) (\<lambda>p. p\<lparr>op_open := ok\<rparr>) s2)" by simp
    moreover note open_new_form [OF None nm fo]
    ultimately show ?thesis by (cases ok) (simp_all add: Let_def file_append_def files_counted_def open_count_def)
  qed
qed

lemma open_new:
  assumes "files_counted st" "\<forall>name. openable env name"
    and "find_index (op_matches (om_from m) (om_to m) (om_grade m) (om_type m) (om_flav m) (om_bad m)) (outpkts st) = None"
    and "seq_value (seqfile st) (v + int n)" "n = length (outpkts st)" "v + int n < 9223372036854775807"
  shows "\<exists>st'. outpkt_open env (om_from m) (om_to m) (om_grade m) (om_type m) (om_flav m) (om_bad m) st = (Some n, st') \<and>
    files_counted st' \<and> map ident (outpkts st') = map ident (outpkts st) @ [pkt_entry env v n m] \<and>
    files st' = (files st)(pkt_file env v n m ''tmp'' \<mapsto> outpkt_hdr env (om_from m) (om_to m)) \<and>
    seq_value (seqfile st') (v + int n + 1)"
proof -
  let ?tmp = "pkt_file env v n m ''tmp''"
  define st0 where "st0 = st\<lparr>seqfile := snd (sequencer (seqfile st))\<rparr>"
  define p where "p = (pkt_entry env v n m)\<lparr>op_n := 1\<rparr>"
  define st1 where "st1 = st0\<lparr>outpkts := outpkts st @ [p]\<rparr>"
  have sq: "fst (sequencer (seqfile st)) = v + 1 + int n" "seq_value (seqfile st0) (v + int n + 1)"
    using sequencer_counts [OF assms(4,6)] by (simp_all add: st0_def)
  have names: "outpkt_names env (outpkt_new (om_from m) (om_to m)) (om_grade m) (om_type m) (om_flav m) (om_bad m) st = (p, st0)"
    using sq(1) by (simp add: outpkt_names_def outpkt_sequencer_def outpkt_new_def p_def pkt_entry_def pkt_file_def
        st0_def split_beta Let_def)
  have p: "op_tmp p = ?tmp" "\<not> op_open p" "ident p = pkt_entry env v n m"
    by (simp_all add: p_def pkt_entry_def ident_def)
  have "nopen st1 = int (open_count st1)" "1 \<le> maxopen st1"
    using assms(1) p(2) by (simp_all add: st1_def st0_def files_counted_def open_count_def)
  from fopen_works [OF this assms(2), of ?tmp False] obtain st2 where st2:
    "outpkt_fopen env ?tmp False st1 = (True, st2)" "nopen st2 = int (open_count st2) + 1" "nopen st2 \<le> maxopen st2"
    "map ident (outpkts st2) = map ident (outpkts st1)"
    "\<forall>k < length (outpkts st1). op_open (outpkts st2 ! k) \<longrightarrow> op_open (outpkts st1 ! k)"
    "seqfile st2 = seqfile st1" "maxopen st2 = maxopen st1" "files st2 = (files st)(?tmp \<mapsto> [])"
    by (auto simp: st1_def st0_def split: option.splits)
  define st3 where "st3 = upd_pkt n (\<lambda>p. p\<lparr>op_open := True\<rparr>) st2"
  have n: "n < length (outpkts st2)" using st2(4) assms(5) 
    by (simp add: st1_def flip: length_map [of ident "outpkts st2"])
  have "\<not> op_open (outpkts st2 ! n)" using st2(5) p(2) assms(5) by (auto simp: st1_def)
  then have "files_counted st3"
    using st2 n count_open [of n "outpkts st2"] assms(1)
    by (simp add: files_counted_def open_count_def st3_def st1_def st0_def)
  moreover have "map ident (outpkts st3) = map ident (outpkts st) @ [pkt_entry env v n m]"
    using st2(4) p(3) by (simp add: st3_def map_ident_update st1_def)
  moreover have "outpkt_open env (om_from m) (om_to m) (om_grade m) (om_type m) (om_flav m) (om_bad m) st =
      (Some n, file_append ?tmp (outpkt_hdr env (om_from m) (om_to m)) st3)"
    using st2(1) p(1) assms(5) by (simp add: outpkt_open_def assms(3) names st3_def st1_def st0_def Let_def)
  ultimately show ?thesis using st2(6,8) sq(2)
    by (simp add: file_append_def files_counted_def open_count_def st3_def st1_def)
qed

text \<open>One message, and a run of messages.\<close>

lemma pkt_text_snoc:
  "pkt_text env (ms @ [m]) h = pkt_text env ms h @ (if pkt_key m = pkt_key h then om_text m else [])"
  by (simp add: pkt_text_def)

lemma pkt_text_new:
  assumes "\<forall>x \<in> set ms. pkt_key x \<noteq> pkt_key m"
  shows "pkt_text env (ms @ [m]) m = outpkt_hdr env (om_from m) (om_to m) @ om_text m"
proof -
  have "filter (\<lambda>x. pkt_key x = pkt_key m) ms = []" using assms by (simp add: filter_empty_conv)
  then show ?thesis by (simp only: pkt_text_def filter_append) simp
qed

lemma put_keeps_inv:
  assumes "run_inv env v F ms st" "\<forall>name. openable env name"
    and "length (pkt_heads (ms @ [m])) \<le> 0x100000" "v + int (length (pkt_heads (ms @ [m]))) \<le> 9223372036854775807"
  shows "run_inv env v F (ms @ [m]) (outpkt_put env m st)"
proof -
  define hs where "hs = pkt_heads ms"
  let ?tmp = "\<lambda>i. pkt_file env v i (hs ! i) ''tmp''"
  have inv: "files_counted st" "map ident (outpkts st) = pkt_entries env v hs"
    "seq_value (seqfile st) (v + int (length hs))"
    "\<forall>i < length hs. files st (?tmp i) = Some (pkt_text env ms (hs ! i))"
    "\<forall>name. (\<forall>i < length hs. name \<noteq> ?tmp i) \<longrightarrow> files st name = F name"
    using assms(1) by (simp_all add: run_inv_def hs_def)
  have dist: "distinct (map pkt_key hs)" and keys: "set (map pkt_key hs) = set (map pkt_key ms)"
    by (simp_all only: hs_def pkt_heads_keys)
  have len: "length (outpkts st) = length hs" using inv(2) by (metis length_map pkt_entries_nth(2))
  have tmp_of: "op_tmp (q ! i) = ?tmp i" if "map ident q = pkt_entries env v hs" "i < length hs" for q i
  proof -
    have "ident (q ! i) = pkt_entry env v i (hs ! i)"
      using that by (metis length_map nth_map pkt_entries_nth)
    then have "op_tmp (ident (q ! i)) = ?tmp i" by (simp add: pkt_entry_def)
    then show ?thesis by simp
  qed
  note search = run_inv_search [OF inv(2), of m]
  show ?thesis
  proof (cases "find_index (\<lambda>h. pkt_key m = pkt_key h) hs")
    case (Some i)
    have i: "i < length hs" "pkt_key m = pkt_key (hs ! i)" using find_index_Some [OF Some] by auto
    have heads: "pkt_heads (ms @ [m]) = hs" using i by (auto simp: pkt_heads_snoc add_head_def simp flip: hs_def)
    have "files st (op_tmp (outpkts st ! i)) = Some (pkt_text env ms (hs ! i))"
      using inv(4) i(1) tmp_of [OF inv(2)] by simp
    from open_existing [OF inv(1) assms(2) search [unfolded Some] this] obtain st' where
      o: "outpkt_open env (om_from m) (om_to m) (om_grade m) (om_type m) (om_flav m) (om_bad m) st = (Some i, st')"
      and st': "files_counted st'" "map ident (outpkts st') = map ident (outpkts st)" "files st' = files st"
        "seqfile st' = seqfile st" by blast
    have w: "outpkt_put env m st = file_append (?tmp i) (om_text m) st'"
      using tmp_of [of "outpkts st'" i] st'(2) inv(2) i by (simp add: outpkt_put_def o outpkt_write_def)
    have other: "?tmp j \<noteq> ?tmp i \<and> pkt_key m \<noteq> pkt_key (hs ! j)" if "j < length hs" "j \<noteq> i" for j
      using pkt_file_inj(1) [of env v j "hs ! j" "''tmp''" i "hs ! i" "''tmp''"] that i assms(3) dist
      by (auto simp: heads distinct_conv_nth)
    show ?thesis
      unfolding run_inv_def heads w
      using st' inv i other
      by (auto simp: file_append_def files_counted_def open_count_def pkt_text_snoc)
  next
    case None
    let ?n = "length hs"
    have new: "pkt_key m \<notin> set (map pkt_key hs)" using None by (auto simp: find_index_None)
    have heads: "pkt_heads (ms @ [m]) = hs @ [m]" using new by (simp add: pkt_heads_snoc add_head_def flip: hs_def)
    have v: "v + int ?n < 9223372036854775807" using assms(4) by (simp add: heads)
    from open_new [OF inv(1) assms(2) search [unfolded None] inv(3) len [symmetric] v] obtain st' where
      o: "outpkt_open env (om_from m) (om_to m) (om_grade m) (om_type m) (om_flav m) (om_bad m) st = (Some ?n, st')"
      and st': "files_counted st'" "map ident (outpkts st') = map ident (outpkts st) @ [pkt_entry env v ?n m]"
        "files st' = (files st)(pkt_file env v ?n m ''tmp'' \<mapsto> outpkt_hdr env (om_from m) (om_to m))"
        "seq_value (seqfile st') (v + int ?n + 1)" by blast
    have "ident (outpkts st' ! ?n) = pkt_entry env v ?n m"
      using st'(2) len by (metis length_append_singleton length_map lessI nth_append_length nth_map)
    then have "op_tmp (ident (outpkts st' ! ?n)) = pkt_file env v ?n m ''tmp''" by (simp add: pkt_entry_def)
    then have w: "outpkt_put env m st = file_append (pkt_file env v ?n m ''tmp'') (om_text m) st'"
      by (simp add: outpkt_put_def o outpkt_write_def)
    have other: "?tmp j \<noteq> pkt_file env v ?n m ''tmp'' \<and> pkt_key m \<noteq> pkt_key (hs ! j)" if "j < ?n" for j
      using pkt_file_inj(1) [of env v j "hs ! j" "''tmp''" ?n m "''tmp''"] that assms(3) new
      by (auto simp: heads)
    have "\<forall>x \<in> set ms. pkt_key x \<noteq> pkt_key m" using new unfolding keys by (metis image_eqI list.set_map)
    note new_text = pkt_text_new [OF this]
    have old: "(\<forall>i < length hs. x \<noteq> ?tmp i) \<and> x \<noteq> pkt_file env v ?n m ''tmp''"
      if "\<forall>i < length (hs @ [m]). x \<noteq> pkt_file env v i ((hs @ [m]) ! i) ''tmp''" for x
    proof (intro conjI allI impI)
      fix i assume "i < length hs"
      then show "x \<noteq> ?tmp i" using that [THEN spec, of i] by (simp add: nth_append)
    next
      show "x \<noteq> pkt_file env v ?n m ''tmp''" using that [THEN spec, of ?n] by simp
    qed
    have "run_inv env v F (ms @ [m]) (file_append (pkt_file env v ?n m ''tmp'') (om_text m) st')"
      unfolding run_inv_def heads
    proof (intro conjI allI impI)
      fix x assume "\<forall>i < length (hs @ [m]). x \<noteq> pkt_file env v i ((hs @ [m]) ! i) ''tmp''"
      from old [OF this] show "files (file_append (pkt_file env v ?n m ''tmp'') (om_text m) st') x = F x"
        using inv(5) by (simp add: file_append_def st'(3))
    next
      fix i assume i: "i < length (hs @ [m])"
      show "files (file_append (pkt_file env v ?n m ''tmp'') (om_text m) st') (pkt_file env v i ((hs @ [m]) ! i) ''tmp'') =
          Some (pkt_text env (ms @ [m]) ((hs @ [m]) ! i))"
      proof (cases "i = ?n")
        case True
        have "files (file_append (pkt_file env v ?n m ''tmp'') (om_text m) st') (pkt_file env v ?n m ''tmp'') =
            Some (pkt_text env (ms @ [m]) m)"
          by (simp add: file_append_def st'(3) new_text)
        then show ?thesis using True by simp
      next
        case False
        then have "i < ?n" using i by simp
        then show ?thesis using other [of i] inv(4) by (simp add: file_append_def st'(3) pkt_text_snoc nth_append)
      qed
    qed (use st'(1,2,4) inv(2) in \<open>simp_all add: file_append_def files_counted_def open_count_def
        pkt_entries_snoc algebra_simps\<close>)
    then show ?thesis by (simp add: w)
  qed
qed

lemma run_keeps_inv:
  assumes "run_inv env v F [] st" "\<forall>name. openable env name"
    and "length (pkt_heads ms) \<le> 0x100000" "v + int (length (pkt_heads ms)) \<le> 9223372036854775807"
  shows "run_inv env v F ms (outpkt_run env ms st)"
  using assms(3,4)
proof (induction ms rule: rev_induct)
  case Nil
  then show ?case using assms(1) by (simp add: outpkt_run_def)
next
  case (snoc m ms)
  have "length (pkt_heads ms) \<le> length (pkt_heads (ms @ [m]))" by (simp add: pkt_heads_snoc add_head_def)
  then have "run_inv env v F ms (outpkt_run env ms st)" using snoc by simp
  from put_keeps_inv [OF this assms(2) snoc.prems] show ?case by (simp add: outpkt_run_def)
qed

text \<open>Closing: every packet gets its end marker and its name.\<close>

fun close_files :: "outpkt list \<Rightarrow> (cstring \<rightharpoonup> bytes) \<Rightarrow> (cstring \<rightharpoonup> bytes)" where
  "close_files [] F = F"
| "close_files (e # es) F =
     close_files es (F(op_tmp e := None, op_out e := Some (the (F (op_tmp e)) @ [ch_nul, ch_nul])))"

lemma int16_zero: "pkt_put_int16 0 = [ch_nul, ch_nul]"
  using byte_of_code [of ch_nul] by (simp add: pkt_put_int16_def)

lemma close_loop_works:
  assumes "map ident (outpkts st) = es" "nopen st = int (open_count st)" "1 \<le> maxopen st" "nopen st \<le> maxopen st"
    and "freed \<longrightarrow> nopen st < maxopen st" "\<forall>name. openable env name"
    and "\<forall>e \<in> set es. files st (op_tmp e) \<noteq> None" "distinct (map op_tmp es @ map op_out es)"
  shows "\<exists>st'. outpkt_close_loop env freed (length es) st = Some st' \<and> outpkts st' = [] \<and> nopen st' = 0 \<and>
    files st' = close_files es (files st) \<and> seqfile st' = seqfile st"
  using assms(1-5,7,8)
proof (induction es arbitrary: st freed)
  case (Cons e es)
  from Cons.prems(1) obtain p ps where ps: "outpkts st = p # ps" "ident p = e" "map ident ps = es" by auto
  have names: "op_tmp p = op_tmp e" "op_out p = op_out e" using ps(2) by auto
  obtain c where c: "files st (op_tmp e) = Some c" using Cons.prems(6) by auto
  have stuck: "\<not> (\<not> op_open p \<and> freed \<and> nopen st \<ge> maxopen st)" using Cons.prems(5) by auto
  obtain st1 where st1: "(if op_open p then (True, st) else outpkt_fopen env (op_tmp p) True st) = (True, st1)"
    "map ident (tl (outpkts st1)) = es" "nopen st1 - 1 = int (length (filter op_open (tl (outpkts st1))))"
    "nopen st1 \<le> maxopen st1" "maxopen st1 = maxopen st" "files st1 = files st" "seqfile st1 = seqfile st"
  proof (cases "op_open p")
    case True
    then show ?thesis using that [of st] Cons.prems(2,4) ps by (simp add: open_count_def)
  next
    case False
    obtain st2 where st2: "outpkt_fopen env (op_tmp p) True st = (True, st2)"
      "nopen st2 = int (open_count st2) + 1" "nopen st2 \<le> maxopen st2"
      "map ident (outpkts st2) = map ident (outpkts st)"
      "\<not> op_open (outpkts st2 ! 0)" "seqfile st2 = seqfile st" "maxopen st2 = maxopen st" "files st2 = files st"
      using fopen_works [OF Cons.prems(2,3) assms(6), of "op_tmp p" True] False ps(1) c names
      by (auto simp: fun_upd_idem)
    then obtain q qs where "outpkts st2 = q # qs" using ps(1) by (cases "outpkts st2") auto
    then show ?thesis using that [of st2] st2 False ps by (simp add: open_count_def)
  qed
  define st2 where "st2 = st1\<lparr>nopen := nopen st1 - 1,
    files := (files st)(op_tmp e := None, op_out e := Some (c @ [ch_nul, ch_nul])), outpkts := tl (outpkts st1)\<rparr>"
  have loop: "outpkt_close_loop env freed (length (e # es)) st = outpkt_close_loop env True (length es) st2"
    using stuck st1(1,6) c Cons.prems(7)
    unfolding length_Cons outpkt_close_loop.simps(2) ps(1) list.case
    by (subst if_not_P [OF stuck], simp only: st1(1) prod.case Let_def if_True)
      (simp add: file_append_def int16_zero names st2_def)
  have "\<exists>st'. outpkt_close_loop env True (length es) st2 = Some st' \<and> outpkts st' = [] \<and> nopen st' = 0 \<and>
    files st' = close_files es (files st2) \<and> seqfile st' = seqfile st2"
  proof (rule Cons.IH)
    show "map ident (outpkts st2) = es" "nopen st2 = int (open_count st2)" "nopen st2 \<le> maxopen st2"
      using st1(2-5) by (simp_all add: st2_def open_count_def)
    show "1 \<le> maxopen st2" "True \<longrightarrow> nopen st2 < maxopen st2" using st1(4,5) Cons.prems(3) by (simp_all add: st2_def)
    show "\<forall>x \<in> set es. files st2 (op_tmp x) \<noteq> None" 
    proof
      fix x assume "x \<in> set es"
      then show "files st2 (op_tmp x) \<noteq> None"
        using Cons.prems(6,7) by (cases "op_tmp x = op_out e"; cases "op_tmp x = op_tmp e") (simp_all add: st2_def rev_image_eqI)
    qed
    show "distinct (map op_tmp es @ map op_out es)" using Cons.prems(7) by simp
  qed
  then show ?case using loop c st1(7) by (simp add: st2_def)
qed simp

lemma close_files_other:
  "x \<notin> set (map op_tmp es @ map op_out es) \<Longrightarrow> close_files es F x = F x"
  by (induction es arbitrary: F) auto

lemma close_files_of:
  assumes "distinct (map op_tmp es @ map op_out es)" "e \<in> set es"
  shows "close_files es F (op_out e) = Some (the (F (op_tmp e)) @ [ch_nul, ch_nul]) \<and> close_files es F (op_tmp e) = None"
  using assms
proof (induction es arbitrary: F)
  case (Cons d es)
  let ?F = "F(op_tmp d := None, op_out d := Some (the (F (op_tmp d)) @ [ch_nul, ch_nul]))"
  have d: "op_tmp d \<notin> set (map op_tmp es @ map op_out es)" "op_out d \<notin> set (map op_tmp es @ map op_out es)"
    "op_tmp d \<noteq> op_out d"
    using Cons.prems(1) by auto
  show ?case
  proof (cases "e = d")
    case True
    then show ?thesis using close_files_other [OF d(1)] close_files_other [OF d(2)] d(3) by simp
  next
    case False
    then have e: "e \<in> set es" using Cons.prems(2) by simp
    then have "op_tmp e \<noteq> op_tmp d" "op_tmp e \<noteq> op_out d" using d by (auto simp: rev_image_eqI)
    moreover have "close_files es ?F (op_out e) = Some (the (?F (op_tmp e)) @ [ch_nul, ch_nul]) \<and>
        close_files es ?F (op_tmp e) = None"
      by (rule Cons.IH) (use Cons.prems(1) e in auto)
    ultimately show ?thesis by simp
  qed
qed simp

lemma entries_distinct:
  assumes "length hs \<le> 0x100000"
  shows "distinct (map op_tmp (pkt_entries env v hs) @ map op_out (pkt_entries env v hs))"
proof -
  have fields: "map op_tmp (pkt_entries env v hs) = map (\<lambda>i. pkt_file env v i (hs ! i) ''tmp'') [0..<length hs]"
    "map op_out (pkt_entries env v hs) = map (\<lambda>i. pkt_file env v i (hs ! i) ''pkt'') [0..<length hs]"
    by (simp_all add: pkt_entries_def pkt_entry_def)
  have same: "i = j" if "i < length hs" "j < length hs" "pkt_file env v i (hs ! i) e = pkt_file env v j (hs ! j) e" for i j e
    using pkt_file_inj(1) [OF that(3)] that(1,2) assms by simp
  have "pkt_file env v i (hs ! i) ''tmp'' \<noteq> pkt_file env v j (hs ! j) ''pkt''" if "i < length hs" "j < length hs" for i j
    using pkt_file_inj(2) [of env v i "hs ! i" "''tmp''" j "hs ! j" "''pkt''"] that assms by auto
  then show ?thesis
    unfolding fields by (auto simp: distinct_map inj_on_def intro: same)
qed

text \<open>
  C23. A run of messages through outpkt_open, with any limit on open files, followed by
  outpkt_close leaves one .pkt file for every combination of addresses, flavour, type, grade and
  bad flag: the header made from its first message, its messages in the order they came and the
  end marker; no .tmp file is left and no other file is touched. The closing and reopening of
  files is invisible, and outpkt_close never follows a freed entry.
\<close>

theorem outpkt_packets_complete:
  assumes "outpkts st = []" "nopen st = 0" "1 \<le> maxopen st" "seq_value (seqfile st) v"
    and "\<forall>name. openable env name"
    and "length (pkt_heads ms) \<le> 0x100000" "v + int (length (pkt_heads ms)) \<le> 9223372036854775807"
  shows "\<exists>st'. outpkt_close env (outpkt_run env ms st) = Some st' \<and> outpkts st' = [] \<and> nopen st' = 0 \<and>
    (\<forall>i < length (pkt_heads ms).
       files st' (pkt_file env v i (pkt_heads ms ! i) ''pkt'') =
         Some (pkt_text env ms (pkt_heads ms ! i) @ [ch_nul, ch_nul]) \<and>
       files st' (pkt_file env v i (pkt_heads ms ! i) ''tmp'') = None) \<and>
    (\<forall>name. (\<forall>i < length (pkt_heads ms). name \<noteq> pkt_file env v i (pkt_heads ms ! i) ''tmp'' \<and>
         name \<noteq> pkt_file env v i (pkt_heads ms ! i) ''pkt'') \<longrightarrow> files st' name = files st name)"
proof -
  let ?hs = "pkt_heads ms" and ?st = "outpkt_run env ms st"
  let ?es = "pkt_entries env v ?hs"
  have start: "run_inv env v (files st) [] st"
    using assms(1-4) by (simp add: run_inv_def files_counted_def open_count_def pkt_heads_def pkt_entries_def)
  note inv = run_keeps_inv [OF start assms(5-7), unfolded run_inv_def files_counted_def]
  have mem: "pkt_entry env v i (?hs ! i) \<in> set ?es" if "i < length ?hs" for i
    using that by (auto simp: pkt_entries_def)
  have len: "length (outpkts ?st) = length ?es" using inv by (metis length_map)
  have "\<exists>st'. outpkt_close_loop env False (length ?es) ?st = Some st' \<and> outpkts st' = [] \<and> nopen st' = 0 \<and>
    files st' = close_files ?es (files ?st) \<and> seqfile st' = seqfile ?st"
    by (rule close_loop_works [OF _ _ _ _ _ assms(5)])
      (use inv entries_distinct [OF assms(6), of env v] in \<open>auto simp: pkt_entries_def pkt_entry_def\<close>)
  then obtain st' where st': "outpkt_close env ?st = Some st'" "outpkts st' = []" "nopen st' = 0"
    "files st' = close_files ?es (files ?st)"
    by (auto simp: outpkt_close_def len)
  have "files st' (pkt_file env v i (?hs ! i) ''pkt'') = Some (pkt_text env ms (?hs ! i) @ [ch_nul, ch_nul]) \<and>
       files st' (pkt_file env v i (?hs ! i) ''tmp'') = None" if i: "i < length ?hs" for i
    using close_files_of [OF entries_distinct [OF assms(6)] mem [OF i], of "files ?st"] inv i
    by (simp add: st'(4) pkt_entry_def)
  moreover have "files st' x = files st x"
    if "\<forall>i < length ?hs. x \<noteq> pkt_file env v i (?hs ! i) ''tmp'' \<and> x \<noteq> pkt_file env v i (?hs ! i) ''pkt''" for x
  proof -
    have "x \<notin> set (map op_tmp ?es @ map op_out ?es)" using that by (auto simp: pkt_entries_def pkt_entry_def)
    from close_files_other [OF this] show ?thesis using inv that by (simp add: st'(4))
  qed
  ultimately show ?thesis using st' by blast
qed

definition sample_env :: outenv where
  "sample_env = \<lparr>outdir = ''out'', baddir = ''bad'', openable = (\<lambda>_. True), pkt_pw = (\<lambda>_. None), ver_minor = 5,
     ver_major = 4, localtime = (\<lambda>_. \<lparr>tm_year = 100, tm_mon = 0, tm_mday = 1, tm_hour = 0, tm_min = 0, tm_sec = 0\<rparr>),
     time_now = 0\<rparr>"

definition sample_msg :: "int \<Rightarrow> bytes \<Rightarrow> outmsg" where
  "sample_msg n t = \<lparr>om_from = mk_node 2 5020 545 0, om_to = mk_node 2 5020 n 0, om_grade = CHR ''0'',
     om_type = CHR ''0'', om_flav = CHR ''0'', om_bad = False, om_text = t\<rparr>"

definition sample_start :: outstate where
  "sample_start = \<lparr>outpkts = [], maxopen = 1, nopen = 0, files = Map.empty, seqfile = []\<rparr>"

abbreviation sample_run :: "outmsg list" where
  "sample_run \<equiv> [sample_msg 1 ''a'', sample_msg 2 ''b'', sample_msg 1 ''c'']"

lemma sample_heads: "pkt_heads sample_run = [sample_msg 1 ''a'', sample_msg 2 ''b'']"
  by (simp add: pkt_heads_def add_head_def pkt_key_def sample_msg_def znfp_of_def)

theorem outpkt_packets_complete_witness:
  "\<exists>st'. outpkt_close sample_env (outpkt_run sample_env sample_run sample_start) = Some st' \<and> outpkts st' = [] \<and>
     files st' (pkt_file sample_env 0 0 (sample_msg 1 ''a'') ''pkt'') =
       Some (pkt_text sample_env sample_run (sample_msg 1 ''a'') @ [ch_nul, ch_nul])"
  using outpkt_packets_complete [of sample_start 0 sample_env sample_run]
  by (auto simp: sample_heads sample_start_def sample_env_def seq_value_def)

text \<open>
  Whatever files can be opened, outpkt_open keeps the count of open packet files right and
  never above the limit.
\<close>

theorem outpkt_open_bounded:
  assumes "files_counted st"
  shows "files_counted (outpkt_put env m st)"
proof -
  have touch: "files_counted (outpkt_write i t s)" if "files_counted s" for i t s
    using that by (simp add: files_counted_def outpkt_write_def file_append_def open_count_def)
  obtain r s where o: "outpkt_open env (om_from m) (om_to m) (om_grade m) (om_type m) (om_flav m) (om_bad m) st = (r, s)"
    by fastforce
  from open_counted [OF assms, of env "om_from m" "om_to m" "om_grade m" "om_type m" "om_flav m" "om_bad m"]
  have "files_counted s" by (simp add: o)
  then show ?thesis by (simp add: outpkt_put_def o touch split: option.split)
qed

theorem outpkt_open_bounded_witness: "files_counted (outpkt_put sample_env (sample_msg 1 ''a'') sample_start)"
  by (rule outpkt_open_bounded) (simp add: files_counted_def sample_start_def open_count_def)

text \<open>
  C24. When the file of a new packet cannot be created the entry stays in the list: the next
  message for that packet is written to a file without a packet header.
\<close>

theorem failed_packet_has_no_header:
  assumes "files_counted st"
    and "find_index (op_matches (om_from m) (om_to m) (om_grade m) (om_type m) (om_flav m) (om_bad m)) (outpkts st) = None"
    and "outpkt_open env (om_from m) (om_to m) (om_grade m) (om_type m) (om_flav m) (om_bad m) st = (None, st1)"
    and "files st (op_tmp (last (outpkts st1))) = None"
    and "pkt_key m' = pkt_key m" "\<forall>name. openable env' name"
  shows "files (outpkt_put env' m' st1) (op_tmp (last (outpkts st1))) = Some (om_text m')"
proof -
  let ?Q = "op_matches (om_from m) (om_to m) (om_grade m) (om_type m) (om_flav m) (om_bad m)"
  let ?n = "length (outpkts st)"
  obtain p s0 where nm: "outpkt_names env (outpkt_new (om_from m) (om_to m)) (om_grade m) (om_type m) (om_flav m) (om_bad m) st
      = (p, s0)" by fastforce
  note p = names_fields [OF nm]
  let ?st = "s0\<lparr>outpkts := outpkts st @ [p]\<rparr>"
  obtain ok s2 where fo: "outpkt_fopen env (op_tmp p) False ?st = (ok, s2)" by fastforce
  have ok: "\<not> ok" and st1: "st1 = upd_pkt ?n (\<lambda>p. p\<lparr>op_open := False\<rparr>) s2"
    using assms(3) unfolding open_new_form [OF assms(2) nm fo] by (auto simp: Let_def split: if_splits)
  have "files_counted ?st" using assms(1) p by (simp add: files_counted_def open_count_def)
  then have f: "map ident (outpkts s2) = map ident (outpkts st @ [p])" "files s2 = files st"
    using fopen_effect [of ?st env "op_tmp p" False] fo ok p(5) by (auto simp: files_counted_def)
  have ids: "map ident (outpkts st1) = map ident (outpkts st) @ [ident p]"
    using f(1) by (simp add: st1 map_ident_update)
  have len: "length (outpkts st1) = Suc ?n" using arg_cong [OF ids, of length] by simp
  have "ident (outpkts st1 ! ?n) = ident p" using ids len by (metis length_map lessI nth_append_length nth_map)
  then have tmp: "op_tmp (last (outpkts st1)) = op_tmp (outpkts st1 ! ?n)" and no: "\<not> op_open (outpkts st1 ! ?n)"
    using len by (simp_all add: last_conv_nth flip: length_greater_0_conv) (simp add: st1)
  have Q: "op_matches (om_from m') (om_to m') (om_grade m') (om_type m') (om_flav m') (om_bad m') = ?Q"
    using assms(5) by (auto simp: fun_eq_iff op_matches_def pkt_key_def node_eq_key)
  have "find_index ?Q (outpkts st1) = find_index ?Q (map ident (outpkts st1))" by (simp add: find_index_map)
  also have "\<dots> = Some ?n"
    unfolding ids by (rule find_index_snoc [of _ "map ident (outpkts st)", simplified length_map])
      (use assms(2) p(6) in \<open>simp_all add: find_index_map\<close>)
  finally have found: "find_index (op_matches (om_from m') (om_to m') (om_grade m') (om_type m') (om_flav m') (om_bad m'))
      (outpkts st1) = Some ?n" by (simp add: Q)
  let ?st1 = "upd_pkt ?n (\<lambda>p. p\<lparr>op_n := op_n p + 1\<rparr>) st1"
  have c: "nopen ?st1 = int (open_count ?st1)" "1 \<le> maxopen ?st1"
    using open_counted [OF assms(1), of env "om_from m" "om_to m" "om_grade m" "om_type m" "om_flav m" "om_bad m"]
    by (simp_all add: assms(3) files_counted_def open_count_def count_touch)
  have none: "files ?st1 (op_tmp (outpkts ?st1 ! ?n)) = None" using assms(4) len tmp by (simp add: st1 f(2))
  obtain s4 where s4: "outpkt_fopen env' (op_tmp (outpkts ?st1 ! ?n)) True ?st1 = (True, s4)"
    "map ident (outpkts s4) = map ident (outpkts ?st1)"
    "files s4 = (files st1)(op_tmp (outpkts ?st1 ! ?n) \<mapsto> [])"
    using fopen_works [OF c assms(6), of "op_tmp (outpkts ?st1 ! ?n)" True] none by auto
  have "outpkt_open env' (om_from m') (om_to m') (om_grade m') (om_type m') (om_flav m') (om_bad m') st1 =
      (Some ?n, upd_pkt ?n (\<lambda>p. p\<lparr>op_open := True\<rparr>) s4)"
    using open_found_form [OF found no, of env' True s4] s4(1) len by simp
  moreover have "op_tmp (outpkts s4 ! ?n) = op_tmp (outpkts st1 ! ?n)" using ident_nth [OF s4(2)] len by simp
  moreover have "?n < length (outpkts s4)" using arg_cong [OF s4(2), of length] len by simp
  ultimately show ?thesis
    using s4(3) len tmp by (simp add: outpkt_put_def outpkt_write_def file_append_def)
qed

text \<open>A directory that cannot be written at first.\<close>

abbreviation closed_env :: outenv where
  "closed_env \<equiv> sample_env\<lparr>openable := (\<lambda>_. False)\<rparr>"

theorem failed_packet_has_no_header_witness:
  "files (outpkt_put sample_env (sample_msg 1 ''b'')
       (snd (outpkt_open closed_env (mk_node 2 5020 545 0) (mk_node 2 5020 1 0) (CHR ''0'') (CHR ''0'') (CHR ''0'') False sample_start)))
     (op_tmp (last (outpkts (snd (outpkt_open closed_env (mk_node 2 5020 545 0) (mk_node 2 5020 1 0)
         (CHR ''0'') (CHR ''0'') (CHR ''0'') False sample_start))))) = Some ''b''"
proof -
  have m: "om_from (sample_msg 1 t) = mk_node 2 5020 545 0" "om_to (sample_msg 1 t) = mk_node 2 5020 1 0"
    "om_grade (sample_msg 1 t) = CHR ''0''" "om_type (sample_msg 1 t) = CHR ''0''" "om_flav (sample_msg 1 t) = CHR ''0''"
    "om_bad (sample_msg 1 t) = False" "om_text (sample_msg 1 t) = t" for t
    by (simp_all add: sample_msg_def)
  obtain st1 where st1: "outpkt_open closed_env (mk_node 2 5020 545 0) (mk_node 2 5020 1 0) (CHR ''0'') (CHR ''0'')
      (CHR ''0'') False sample_start = (None, st1)" "files sample_start = Map.empty"
    by (simp add: outpkt_open_def sample_start_def outpkt_names_def outpkt_sequencer_def split_beta Let_def
        outpkt_fopen.simps)
  show ?thesis
    using failed_packet_has_no_header [of sample_start "sample_msg 1 ''a''" closed_env st1 "sample_msg 1 ''b''" sample_env] st1
    by (simp add: m sample_start_def files_counted_def open_count_def pkt_key_def sample_env_def)
qed

end
