(* ===== verification/Areas.thy ===== *)
theory Areas
  imports Config Outpkt
begin

unbundle bit_operations_syntax

text \<open>
  The table of echomail areas: \<open>src/common/areasbbs.c\<close>.  The linked list is the list of its entries;
  the static variables of the file are the fields of \<open>areas\<close>.  A line is the sequence of its
  \<open>xstrtok\<close> words.  Undefined behaviour (a missing argument of a numeric option, a \<open>P\<close> in front of the
  first node, an unset first line) is the value \<open>None\<close>.
\<close>

subsection \<open>Entries and table\<close>

abbreviation (input) AREASBBS_PASSTHRU :: int where "AREASBBS_PASSTHRU \<equiv> 1"
abbreviation (input) AREASBBS_READONLY :: int where "AREASBBS_READONLY \<equiv> 2"

record areasbbs =
  ab_dir :: cstring
  ab_key :: "cstring option"
  ab_lvl :: int
  ab_zone :: int
  ab_addr :: fnode
  ab_area :: cstring
  ab_nodes :: lon
  ab_flags :: int
  ab_desc :: "cstring option"
  ab_passive :: lon
  ab_time :: int
  ab_expire_n :: int
  ab_expire_t :: int
  ab_msgs_in :: int
  ab_msgs_out :: int
  ab_msgs_dupe :: int
  ab_msgs_routed :: int
  ab_msgs_insecure :: int
  ab_msgs_path :: int
  ab_msgs_size :: int
  ab_state :: "cstring option"
  ab_uplinks :: int

record areas =
  ab_first :: "cstring option"
  ab_list :: "areasbbs list"
  ab_filename :: "cstring option"
  ab_changed :: bool

definition areas_start :: areas where
  "areas_start = \<lparr>ab_first = None, ab_list = [], ab_filename = None, ab_changed = False\<rparr>"

definition areasbbs_new :: areasbbs where
  "areasbbs_new =
     \<lparr>ab_dir = [], ab_key = None, ab_lvl = -1, ab_zone = -1, ab_addr = node_invalid (mk_node 0 0 0 0),
      ab_area = [], ab_nodes = lon_init, ab_flags = 0, ab_desc = None, ab_passive = lon_init, ab_time = 0,
      ab_expire_n = 0, ab_expire_t = 0, ab_msgs_in = 0, ab_msgs_out = 0, ab_msgs_dupe = 0,
      ab_msgs_routed = 0, ab_msgs_insecure = 0, ab_msgs_path = 0, ab_msgs_size = 0, ab_state = None,
      ab_uplinks = 1\<rparr>"

text \<open>An entry is known by its place in the list, as the C code knows it by its pointer.\<close>

definition areasbbs_remove :: "nat \<Rightarrow> areas \<Rightarrow> areas" where
  "areasbbs_remove i st =
     (if i < length (ab_list st) then st\<lparr>ab_list := take i (ab_list st) @ drop (Suc i) (ab_list st)\<rparr> else st)"

definition areasbbs_add :: "areasbbs \<Rightarrow> areas \<Rightarrow> areas" where
  "areasbbs_add p st = st\<lparr>ab_list := ab_list st @ [p]\<rparr>"

definition areasbbs_lookup :: "cstring option \<Rightarrow> areas \<Rightarrow> nat option" where
  "areasbbs_lookup tag st =
     (case tag of
        None \<Rightarrow> None
      | Some a \<Rightarrow> List.find (\<lambda>i. stricmp a (ab_area (ab_list st ! i)) = 0) [0..<length (ab_list st)])"

subsection \<open>Node lists of an entry\<close>

text \<open>
  \<open>cur\<close> is the variable \<open>node\<close>, which has no value before the first address: a leading \<open>P\<close> puts the
  address of the word before it on the passive list.
\<close>

fun add_string_loop :: "lon \<Rightarrow> lon \<Rightarrow> fnode option \<Rightarrow> fnode \<Rightarrow> cstring list \<Rightarrow> (lon \<times> lon \<times> bool) option" where
  "add_string_loop l passive cur old [] = Some (l, passive, True)"
| "add_string_loop l passive cur old (p # ps) =
     (if peek p = CHR ''P'' \<and> cur = None then None
      else
        (let passive = (if peek p = CHR ''P'' then lon_add passive (the cur) else passive);
             p = (if peek p = CHR ''P'' then tl p else p)
         in case asc_to_node_diff p old old of
              (True, nd) \<Rightarrow> add_string_loop (lon_add l nd) passive (Some nd) nd ps
            | (False, _) \<Rightarrow> Some (l, passive, False)))"

definition areasbbs_add_string :: "int \<Rightarrow> lon \<Rightarrow> lon \<Rightarrow> cstring list \<Rightarrow> (lon \<times> lon \<times> bool) option" where
  "areasbbs_add_string cfzone l passive ps =
     add_string_loop (l\<lparr>lsize := 0\<rparr>) passive None (mk_node cfzone (-1) (-1) (-1)) ps"

fun comma_parts :: "cstring \<Rightarrow> cstring list" where
  "comma_parts [] = [[]]"
| "comma_parts (c # s) =
     (if c = CHR '','' then [] # comma_parts s
      else (case comma_parts s of [] \<Rightarrow> [[c]] | p # ps \<Rightarrow> (c # p) # ps))"

fun add_passive_loop :: "lon \<Rightarrow> fnode \<Rightarrow> cstring list \<Rightarrow> lon \<times> bool" where
  "add_passive_loop l old [] = (l, True)"
| "add_passive_loop l old (p # ps) =
     (case asc_to_node_diff p old old of
        (True, nd) \<Rightarrow> add_passive_loop (lon_add l nd) nd ps
      | (False, _) \<Rightarrow> (l, False))"

definition areasbbs_add_passive :: "int \<Rightarrow> lon \<Rightarrow> cstring option \<Rightarrow> lon \<times> bool" where
  "areasbbs_add_passive cfzone l p =
     (case p of
        None \<Rightarrow> (l, True)
      | Some p \<Rightarrow> add_passive_loop l (mk_node cfzone (-1) (-1) (-1)) (comma_parts p))"

subsection \<open>Lines\<close>

definition has_argument :: "cstring \<Rightarrow> bool" where
  "has_argument nl \<longleftrightarrow>
     nl = ''-a'' \<or> nl = ''-z'' \<or> nl = ''-l'' \<or> nl = ''-k'' \<or> nl = ''-d'' \<or> nl = ''-s'' \<or> nl = ''-p'' \<or>
     nl = ''-t'' \<or> nl = ''-e'' \<or> nl = ''-n'' \<or> nl = ''-u''"

definition area_argument :: "config \<Rightarrow> cstring \<Rightarrow> cstring option \<Rightarrow> areasbbs \<Rightarrow> areasbbs option" where
  "area_argument cf nl o2 p =
     (if nl = ''-k'' then Some (p\<lparr>ab_key := o2\<rparr>)
      else if nl = ''-d'' then Some (p\<lparr>ab_desc := o2\<rparr>)
      else if nl = ''-s'' then Some (p\<lparr>ab_state := o2\<rparr>)
      else if nl = ''-p'' then Some (p\<lparr>ab_passive := fst (areasbbs_add_passive (cf_zone cf) (ab_passive p) o2)\<rparr>)
      else
        (case o2 of
           None \<Rightarrow> None
         | Some s \<Rightarrow>
             Some (if nl = ''-a'' then p\<lparr>ab_addr := snd (asc_to_node (cf_defzone cf) s (ab_addr p) False)\<rparr>
                   else if nl = ''-z'' then p\<lparr>ab_zone := atoi s\<rparr>
                   else if nl = ''-l'' then p\<lparr>ab_lvl := atoi s\<rparr>
                   else if nl = ''-t'' then p\<lparr>ab_time := atol s\<rparr>
                   else if nl = ''-e'' then p\<lparr>ab_expire_n := atoi s\<rparr>
                   else if nl = ''-n'' then p\<lparr>ab_expire_t := atoi s\<rparr>
                   else p\<lparr>ab_uplinks := atoi s\<rparr>)))"

definition area_flag :: "cstring \<Rightarrow> areasbbs \<Rightarrow> areasbbs" where
  "area_flag nl p =
     (if nl = ''-#'' then p\<lparr>ab_flags := ab_flags p OR AREASBBS_PASSTHRU\<rparr>
      else if nl = ''-r'' then p\<lparr>ab_flags := ab_flags p OR AREASBBS_READONLY\<rparr>
      else p)"

text \<open>The loop over the options: the entry and the words from the first node on.\<close>

fun area_options :: "config \<Rightarrow> areasbbs \<Rightarrow> cstring list \<Rightarrow> (areasbbs \<times> cstring list) option" where
  "area_options cf p [] = Some (p, [])"
| "area_options cf p [nl] =
     (if peek nl \<noteq> CHR ''-'' then Some (p, [nl])
      else if has_argument nl then map_option (\<lambda>p. (p, [])) (area_argument cf nl None p)
      else Some (area_flag nl p, []))"
| "area_options cf p (nl # o2 # ws) =
     (if peek nl \<noteq> CHR ''-'' then Some (p, nl # o2 # ws)
      else if has_argument nl then
        (case area_argument cf nl (Some o2) p of None \<Rightarrow> None | Some p \<Rightarrow> area_options cf p ws)
      else area_options cf (area_flag nl p) (o2 # ws))"

text \<open>The result is \<open>Some None\<close> for NULL.\<close>

definition areasbbs_parse_words :: "config \<Rightarrow> cstring list \<Rightarrow> areasbbs option option" where
  "areasbbs_parse_words cf ws =
     (case ws of
        dir # tag # ws \<Rightarrow>
          (let p = (if peek dir = CHR ''#'' then areasbbs_new\<lparr>ab_flags := 0 OR AREASBBS_PASSTHRU\<rparr> else areasbbs_new);
               dir = (if peek dir = CHR ''#'' then tl dir else dir);
               p = p\<lparr>ab_dir := dir, ab_area := tag\<rparr>
           in do {
             (p, nl) \<leftarrow> area_options cf p ws;
             (nodes, passive, _) \<leftarrow> areasbbs_add_string (cf_zone cf) (ab_nodes p) (ab_passive p) nl;
             let p = p\<lparr>ab_nodes := nodes, ab_passive := passive\<rparr>;
             Some (Some (if ab_zone p = -1
                         then p\<lparr>ab_zone := (case lnodes (ab_nodes p) of [] \<Rightarrow> 0 | n # _ \<Rightarrow> zone n)\<rparr> else p)) })
      | _ \<Rightarrow> Some None)"

definition areasbbs_parse_line :: "config \<Rightarrow> cstring \<Rightarrow> areasbbs option option" where
  "areasbbs_parse_line cf line = areasbbs_parse_words cf (tokens ch_dquote DELIM_WS line)"

subsection \<open>The file\<close>

function areas_lines :: "config \<Rightarrow> bytes \<Rightarrow> areasbbs list option" where
  "areas_lines cf fp =
     (case fgets BUFFERSIZE fp of
        None \<Rightarrow> Some []
      | Some (line, rest) \<Rightarrow>
          (case areasbbs_parse_line cf (chomp (cstr line)) of
             None \<Rightarrow> None
           | Some p \<Rightarrow>
               map_option (\<lambda>ps. case p of None \<Rightarrow> ps | Some p \<Rightarrow> p # ps) (areas_lines cf rest)))"
  by pat_completeness auto
termination by (relation "measure (length o snd)") (auto simp: fgets_shorter)

declare areas_lines.simps [simp del]

text \<open>\<open>opn\<close> is the opening of the file: \<open>Some None\<close> without such a file, \<open>None\<close> for any other error.\<close>

definition areasbbs_init :: "config \<Rightarrow> (cstring \<Rightarrow> bytes option option) \<Rightarrow> cstring option \<Rightarrow> areas
    \<Rightarrow> (bool \<times> areas) option" where
  "areasbbs_init cf opn name st =
     (case name of
        None \<Rightarrow> Some (False, st)
      | Some fname \<Rightarrow>
          (let st = st\<lparr>ab_filename := name, ab_changed := False\<rparr>
           in case opn fname of
                None \<Rightarrow> Some (False, st)
              | Some None \<Rightarrow> Some (True, st)
              | Some (Some fp) \<Rightarrow>
                  (case fgets BUFFERSIZE fp of
                     None \<Rightarrow> Some (True, st)
                   | Some (line, rest) \<Rightarrow>
                       map_option (\<lambda>ps. (True, st\<lparr>ab_first := Some (chomp (cstr line)), ab_list := ab_list st @ ps\<rparr>))
                         (areas_lines cf rest))))"

text \<open>\<open>lon_print_sorted\<close> sorts from the index \<open>(short)uplinks\<close> on; a negative index is outside the array.\<close>

definition c_short :: "int \<Rightarrow> int" where
  "c_short v = (v + 32768) mod 65536 - 32768"

definition opt_text :: "cstring \<Rightarrow> cstring \<Rightarrow> bool \<Rightarrow> cstring" where
  "opt_text opt arg given = (if given then opt @ arg @ '' '' else [])"

definition areas_line :: "areasbbs \<Rightarrow> cstring option" where
  "areas_line p =
     (if c_short (ab_uplinks p) < 0 \<and> lsize (ab_nodes p) > 0 then None
      else Some
       ((if ab_flags p AND AREASBBS_PASSTHRU \<noteq> 0 then ''#'' else []) @ ab_dir p @ '' '' @ ab_area p @ '' '' @
        opt_text ''-z '' (dec (ab_zone p)) (ab_zone p \<noteq> -1) @
        opt_text ''-a '' (znfp1 (ab_addr p)) (zone (ab_addr p) \<noteq> -1) @
        opt_text ''-l '' (dec (ab_lvl p)) (ab_lvl p \<noteq> -1) @
        (case ab_key p of None \<Rightarrow> [] | Some k \<Rightarrow> opt_text ''-k '' k True) @
        opt_text ''-p '' (lon_print_passive (ab_passive p)) (0 < lsize (ab_passive p)) @
        opt_text ''-t '' (dec (ab_time p mod 18446744073709551616)) True @
        opt_text ''-e '' (dec (ab_expire_n p)) (ab_expire_n p \<noteq> 0) @
        opt_text ''-n '' (dec (ab_expire_t p)) (ab_expire_t p \<noteq> 0) @
        (case ab_desc p of None \<Rightarrow> [] | Some d \<Rightarrow> opt_text ''-d '' (ch_dquote # d @ [ch_dquote]) True) @
        (case ab_state p of None \<Rightarrow> [] | Some s \<Rightarrow> opt_text ''-s '' s True) @
        opt_text ''-u '' (dec (ab_uplinks p)) (ab_uplinks p > 1) @
        lon_print_sorted (ab_nodes p) (nat (c_short (ab_uplinks p)))))"

fun areas_text :: "areasbbs list \<Rightarrow> bytes option" where
  "areas_text [] = Some []"
| "areas_text (p # ps) = do { l \<leftarrow> areas_line p; r \<leftarrow> areas_text ps; Some (l @ ch_lf # r) }"

definition areasbbs_print :: "areas \<Rightarrow> bytes option" where
  "areasbbs_print st = do { l \<leftarrow> ab_first st; r \<leftarrow> areas_text (ab_list st); Some (l @ ch_lf # r) }"

subsection \<open>Rewriting the file\<close>

text \<open>\<open>rename\<close> on the files of a directory, and the chain of renames of \<open>areasbbs_rewrite\<close>.\<close>

definition fs_rename :: "cstring \<Rightarrow> cstring \<Rightarrow> (cstring \<rightharpoonup> bytes) \<Rightarrow> (cstring \<rightharpoonup> bytes)" where
  "fs_rename old new fs =
     (case fs old of None \<Rightarrow> fs | Some b \<Rightarrow> if old = new then fs else (fs(old := None))(new \<mapsto> b))"

definition N_HISTORY :: nat where "N_HISTORY = 5"

definition old_ext :: "nat \<Rightarrow> cstring" where
  "old_ext i = ''o'' @ (if i < 10 then ''0'' @ dec (int i) else dec (int i))"

fun renumber :: "cstring \<Rightarrow> nat \<Rightarrow> (cstring \<rightharpoonup> bytes) \<Rightarrow> (cstring \<rightharpoonup> bytes)" where
  "renumber base 0 fs = fs"
| "renumber base (Suc i) fs =
     renumber base i (fs_rename (base @ old_ext (Suc i)) (base @ old_ext (Suc (Suc i))) fs)"

text \<open>
  The result code and the files.  \<open>wr\<close> says whether the new file can be written; the write itself is
  not checked, because \<open>areasbbs_print\<close> returns \<open>ferror\<close>, which is never \<open>ERROR\<close>.
\<close>

definition areasbbs_rewrite :: "(char \<Rightarrow> cstring option) \<Rightarrow> (cstring \<Rightarrow> bool) \<Rightarrow> areas \<Rightarrow> (cstring \<rightharpoonup> bytes)
    \<Rightarrow> (bool \<times> (cstring \<rightharpoonup> bytes)) option" where
  "areasbbs_rewrite atable wr st fs =
     (if \<not> ab_changed st then Some (True, fs)
      else
        (case ab_filename st of
           None \<Rightarrow> Some (False, fs)
         | Some name \<Rightarrow> do {
             buf \<leftarrow> str_expand_name atable (replicate BUFFERSIZE ch_nul) MAXPATH name;
             let base = take (length (cstr buf) - 3) (cstr buf);
             (if \<not> wr (base @ ''new'') then Some (False, fs)
              else do {
                text \<leftarrow> areasbbs_print st;
                let fs = fs(base @ ''new'' \<mapsto> text);
                let fs = fs(base @ old_ext N_HISTORY := None);
                let fs = renumber base (N_HISTORY - 1) fs;
                let fs = fs_rename (base @ ''bbs'') (base @ ''o01'') fs;
                Some (True, fs_rename (base @ ''new'') (base @ ''bbs'') fs) }) }))"

subsection \<open>State characters\<close>

definition areasbbs_isstate :: "cstring option \<Rightarrow> char \<Rightarrow> bool" where
  "areasbbs_isstate state st = (case state of None \<Rightarrow> False | Some s \<Rightarrow> st \<noteq> ch_nul \<and> st \<in> set s)"

fun keep_loop :: "cstring \<Rightarrow> cbuf \<Rightarrow> nat \<Rightarrow> cstring \<Rightarrow> (cbuf \<times> nat) option" where
  "keep_loop stold p j [] = Some (p, j)"
| "keep_loop stold p j (c # cs) =
     (if c \<in> set stold then keep_loop stold p j cs
      else do { p \<leftarrow> buf_set p j c; keep_loop stold p (Suc j) cs })"

text \<open>
  Without old states the text is copied with \<open>BUF_COPY\<close> into a \<open>char *\<close>: at most the 8 bytes of a pointer
  are copied, and the last of these 8 is set to NUL.
\<close>

definition areasbbs_chstate :: "cstring option \<Rightarrow> cstring option \<Rightarrow> char \<Rightarrow> (bool \<times> cstring option) option" where
  "areasbbs_chstate state stold stnew =
     (case state of
        None \<Rightarrow> Some (True, Some (cstr [stnew, ch_nul]))
      | Some s \<Rightarrow>
          (if s = [] then Some (True, Some (cstr [stnew, ch_nul]))
           else if stnew = ch_nul \<or> stnew \<in> set s then Some (False, state)
           else do {
             let len = length s + 2;
             let p = replicate len ch_nul;
             (p, j) \<leftarrow> (case stold of
                         None \<Rightarrow> map_option (\<lambda>p. (p, len - 2)) (str_copy p 8 s)
                       | Some old \<Rightarrow>
                           (if old = [] then map_option (\<lambda>p. (p, len - 2)) (str_copy p 8 s)
                            else keep_loop old p 0 s));
             p \<leftarrow> buf_set p j stnew;
             Some (True, Some (cstr p)) }))"

lemma keep_loop_eq:
  "j + length cs \<le> length p \<Longrightarrow>
     keep_loop old p j cs = Some (take j p @ filter (\<lambda>c. c \<notin> set old) cs @ drop (j + length (filter (\<lambda>c. c \<notin> set old) cs)) p,
       j + length (filter (\<lambda>c. c \<notin> set old) cs))"
proof (induction cs arbitrary: p j)
  case (Cons c cs)
  show ?case
  proof (cases "c \<in> set old")
    case False
    have t: "take (Suc j) (p[j := c]) = take j p @ [c]"
      using Cons.prems by (simp add: take_Suc_conv_app_nth)
    show ?thesis
      using False Cons.prems Cons.IH [of "Suc j" "p[j := c]"] by (simp add: buf_set_def t)
  qed (use Cons in auto)
qed simp

lemma chstate_replaces:
  assumes "s \<noteq> []" "old \<noteq> []" "no_nul s" "new \<noteq> ch_nul" "new \<notin> set s"
  shows "areasbbs_chstate (Some s) (Some old) new = Some (True, Some (filter (\<lambda>c. c \<notin> set old) s @ [new]))"
proof -
  define k where "k = filter (\<lambda>c. c \<notin> set old) s"
  define n where "n = length s + 1 - length k"
  have k: "length k \<le> length s" "no_nul k" using assms(3) by (auto simp: k_def no_nul_def)
  then have n: "length s + 2 - length k = Suc n" by (simp add: n_def)
  define m where "m = length s + 2"
  have "keep_loop old (replicate m ch_nul) 0 s = Some (k @ replicate (Suc n) ch_nul, length k)"
    using keep_loop_eq [of 0 s "replicate m ch_nul" old] n
    by (simp add: k_def [symmetric] m_def [symmetric] drop_replicate del: replicate.simps) (simp add: m_def)
  moreover have "buf_set (k @ replicate (Suc n) ch_nul) (length k) new = Some (k @ new # replicate n ch_nul)"
    by (simp add: buf_set_def list_update_append)
  moreover have "cstr (k @ new # replicate n ch_nul) = k @ [new]"
  proof -
    obtain m where "n = Suc m" using k(1) by (cases n) (auto simp: n_def)
    then show ?thesis using cstr_append [of "k @ [new]" "replicate m ch_nul"] k(2) assms(4) by simp
  qed
  ultimately show ?thesis
    using assms unfolding m_def by (simp add: areasbbs_chstate_def k_def [symmetric] del: replicate.simps)
qed

lemma chstate_overflow:
  assumes "s \<noteq> []" "length s < 6" "new \<noteq> ch_nul" "new \<notin> set s"
  shows "areasbbs_chstate (Some s) None new = None"
proof -
  have "str_copy (replicate (length s + 2) ch_nul) 8 s = None"
    using buf_write_eq [of 0 "s @ [ch_nul]" "replicate (length s + 2) ch_nul"] assms(2)
    by (simp add: str_copy_def buf_close_def buf_set_def del: replicate.simps buf_write.simps)
  then show ?thesis using assms by (simp add: areasbbs_chstate_def del: replicate.simps)
qed

subsection \<open>Lines read back\<close>

lemma in_set_tl: "x \<in> set (tl xs) \<Longrightarrow> x \<in> set xs"
  by (cases xs) auto

lemma tokens_no_quote:
  assumes "ch_dquote \<notin> set s" 
  shows "tokens ch_dquote delim s = tokens ch_nul delim s"
  using assms
proof (induction "length s" arbitrary: s rule: less_induct)
  case less
  define t where "t = dropWhile (\<lambda>c. c \<in> set delim) s"
  have t: "ch_dquote \<notin> set t" using less.prems by (auto simp: t_def dest: set_dropWhileD)
  then have n: "next_token ch_dquote delim (Some s) = next_token ch_nul delim (Some s)"
    by (cases t) (auto simp: next_token_def strtok_r_ext_def t_def [symmetric] Let_def)
  show ?case
  proof (cases "next_token ch_nul delim (Some s)")
    case (Some r)
    obtain w l where r: "r = (w, l)" by (cases r)
    show ?thesis
    proof (cases l)
      case (Some u)
      have "left_of l < left_of (Some s)" using tk.progress \<open>next_token ch_nul delim (Some s) = Some r\<close> r by fastforce
      then have "length u < length s" using Some by simp
      moreover have "ch_dquote \<notin> set u"
      proof -
        have "t \<noteq> [] \<and> u = dropWhile (\<lambda>c. c \<in> set delim) (tl (dropWhile (\<lambda>c. c \<notin> set delim) t))"
          using \<open>next_token ch_nul delim (Some s) = Some r\<close> r Some
          by (auto simp: next_token_def strtok_r_ext_def t_def [symmetric] Let_def split: if_splits)
        then show ?thesis
          using t by (metis dropWhile_eq_Nil_conv in_set_tl set_dropWhileD)
      qed
      ultimately show ?thesis
        using less.hyps n by (subst (1 2) tokens_unfold) (simp add: \<open>next_token ch_nul delim (Some s) = Some r\<close> r Some)
    qed (use n r \<open>next_token ch_nul delim (Some s) = Some r\<close> in \<open>subst (1 2) tokens_unfold, simp\<close>)
  qed (subst (1 2) tokens_unfold, simp add: n)
qed

lemma tokens_written_prefix:
  assumes "list_all2 (written q delim) ws ts" "sep \<in> set delim"
    and "q \<notin> {ch_nul, ch_ctrl_a, ch_bslash}" "q \<notin> set delim"
  shows "tokens q delim (concat (map (\<lambda>t. t @ [sep]) ts) @ s) = ws @ tokens q delim s"
  using assms(1)
  by (induction rule: list_all2_induct) (simp_all add: tokens_written [OF _ assms(2-4)])

lemma atoi_dec_int: "is_c_int v \<Longrightarrow> atoi (dec v) = v"
proof -
  assume v: "is_c_int v"
  show ?thesis
  proof (cases "v < 0")
    case True
    have "dec_digits (dec_nat (nat (- v))) = - v"
      using dec_digits_dec [of "- v" "[]"] True by (simp add: dec_def)
    moreover have "- min 9223372036854775808 (- v) = v" using v by (simp add: is_c_int_def)
    moreover have "dec v = CHR ''-'' # dec_nat (nat (- v))" using True by (simp add: dec_def)
    ultimately show ?thesis using v by (simp add: atoi_def is_space_def)
  next
    case False
    then have "is_digit (peek (dec v @ []))" by (simp only: peek_dec not_less)
    then obtain c s where cs: "dec v = c # s" "is_digit c" by (cases "dec v") auto
    moreover have "min 9223372036854775807 v = v" using v by (simp add: is_c_int_def)
    ultimately show ?thesis
      using digit_not_special [OF cs(2)] dec_digits_dec [of v "[]"] v False by (simp add: atoi_def)
  qed
qed

lemma znfp1_read:
  assumes "valid_node a" "length (domain a) < MAX_DOMAIN" "length (znfp1 a) < LEN_ZNFP - 1"
  shows "asc_to_node dz (znfp1 a) nd False = (True, a\<lparr>flags := 0\<rparr>)"
proof -
  note v = valid_node_parts [OF assms(1)]
  let ?t = "dec (zone a) @ '':'' @ dec (net a) @ ''/'' @ dec (node a) @ tail_text (Some (point a)) (domain a)"
  have w: "zone a \<noteq> -2" "net a \<noteq> -2" "node a \<noteq> -2" "point a \<noteq> -2" using v(5) by (auto simp: has_wildcard_def)
  have "znfp1 a = take (LEN_ZNFP - 1) ?t"
    using v w by (auto simp: znfp1_def str_znfp_print_def Let_def znfp_put_number_def app_Nil app_take tail_text_def
        simp del: take_append)
  then have "znfp1 a = ?t" using assms(3) by simp
  then show ?thesis
    using v w assms(2) by (auto simp: asc_to_node_def parse_zone with_tail_def has_wildcard_def mk_node_def)
qed

lemma comma_parts_plain: "CHR '','' \<notin> set w \<Longrightarrow> comma_parts w = [w]"
  by (induction w) auto

lemma comma_parts_Cons: "CHR '','' \<notin> set w \<Longrightarrow> comma_parts (w @ CHR '','' # r) = w # comma_parts r"
  by (induction w) auto

lemma comma_parts_print:
  "fits_all node_fits old ns \<Longrightarrow> ns \<noteq> [] \<Longrightarrow>
     comma_parts (lon_print_loop True '','' old ns) = enc_all node_to_asc_diff old ns"
proof (induction ns arbitrary: old)
  case (Cons n ns)
  have w: "CHR '','' \<notin> set (node_to_asc_diff n old)"
    using Cons.prems asc_diff_chars [of n old] by (auto simp: node_fits_def is_list_delim_def)
  show ?case
  proof (cases "ns = []")
    case True
    then show ?thesis using comma_parts_plain [OF w] by simp
  next
    case False
    have "comma_parts (lon_print_loop True '','' n ns) = enc_all node_to_asc_diff n ns"
      using Cons.IH Cons.prems False by simp
    then show ?thesis using comma_parts_Cons [OF w] False by simp
  qed
qed simp

lemma add_passive_loop_dec: "lnodes (fst (add_passive_loop l old ps)) = lnodes l @ dec_all asc_diff_opt old ps"
  by (induction ps arbitrary: l old) (auto simp: asc_diff_opt_def split: prod.splits bool.splits)

lemma lon_ok_eq: "lon_ok l \<Longrightarrow> l = \<lparr>lsize = int (length (lnodes l)), lnodes = lnodes l\<rparr>"
  by (cases l) (simp add: lon_ok_def)

lemma add_passive_loop_ok:
  "lon_ok l \<Longrightarrow> length (lnodes l) + length ps < 2147483648 \<Longrightarrow> lon_ok (fst (add_passive_loop l old ps))"
  by (induction ps arbitrary: l old) (auto simp: lon_ok_add split: prod.splits bool.splits)

lemma add_string_loop_dec:
  assumes "\<forall>w \<in> set ps. peek w \<noteq> CHR ''P''" "lon_ok l" "length (lnodes l) + length ps < 2147483648"
  obtains l' ok where "add_string_loop l pas cur old ps = Some (l', pas, ok)" "lon_ok l'"
    "lnodes l' = lnodes l @ dec_all asc_diff_opt old ps"
  using assms
proof (induction ps arbitrary: l cur old thesis)
  case (Cons p ps)
  show ?case
  proof (cases "asc_to_node_diff p old old")
    case (Pair b nd)
    show ?thesis
    proof (cases b)
      case True
      obtain l' ok where "add_string_loop (lon_add l nd) pas (Some nd) nd ps = Some (l', pas, ok)" "lon_ok l'"
        "lnodes l' = lnodes (lon_add l nd) @ dec_all asc_diff_opt nd ps"
        using Cons.IH [where l = "lon_add l nd" and cur = "Some nd" and old = nd] Cons.prems by (auto simp: lon_ok_add)
      moreover have "asc_diff_opt p old = Some nd" using Pair True by (simp add: asc_diff_opt_def)
      ultimately show ?thesis
        using Cons.prems(1) [of l' ok] Cons.prems(2) Pair True by simp
    next
      case False
      then show ?thesis using Cons.prems Pair by (simp add: asc_diff_opt_def)
    qed
  qed
qed simp

subsection \<open>The words of a printed entry\<close>

definition plain_word :: "cstring \<Rightarrow> bool" where
  "plain_word w \<longleftrightarrow> w \<noteq> [] \<and> set w \<inter> set DELIM_WS = {} \<and> ch_dquote \<notin> set w"

definition canon_nodes :: "fnode list \<Rightarrow> lon" where
  "canon_nodes ns =
     \<lparr>lsize = int (length ns), lnodes = map (\<lambda>n. mk_node (zone n) (net n) (node n) (point n)) ns\<rparr>"

text \<open>What an entry must be to survive, and what of it survives.\<close>

definition areas_fits :: "areasbbs \<Rightarrow> bool" where
  "areas_fits p \<longleftrightarrow>
     plain_word (ab_dir p) \<and> peek (ab_dir p) \<noteq> CHR ''#'' \<and> plain_word (ab_area p) \<and>
     is_c_int (ab_zone p) \<and> ab_zone p \<noteq> -1 \<and>
     (zone (ab_addr p) = -1 \<or> valid_node (ab_addr p) \<and> length (domain (ab_addr p)) < MAX_DOMAIN \<and>
        plain_word (znfp1 (ab_addr p)) \<and> length (znfp1 (ab_addr p)) < LEN_ZNFP - 1) \<and>
     is_c_int (ab_lvl p) \<and> pred_option plain_word (ab_key p) \<and> pred_option plain_word (ab_state p) \<and>
     pred_option (\<lambda>d. ch_dquote \<notin> set d \<and> ch_bslash \<notin> set d) (ab_desc p) \<and>
     lon_ok (ab_passive p) \<and> fits_all node_fits no_node (lnodes (ab_passive p)) \<and>
     0 \<le> ab_time p \<and> ab_time p < 9223372036854775808 \<and> is_c_int (ab_expire_n p) \<and> is_c_int (ab_expire_t p) \<and>
     1 \<le> ab_uplinks p \<and> ab_uplinks p < 32768 \<and> lon_ok (ab_nodes p) \<and>
     fits_all node_fits no_node (dedup (lon_sort (ab_nodes p) (nat (ab_uplinks p))))"

definition areas_canon :: "areasbbs \<Rightarrow> areasbbs" where
  "areas_canon p =
     p\<lparr>ab_flags := ab_flags p AND AREASBBS_PASSTHRU,
       ab_addr := (if zone (ab_addr p) = -1 then node_invalid (mk_node 0 0 0 0) else (ab_addr p)\<lparr>flags := 0\<rparr>),
       ab_nodes := canon_nodes (dedup (lon_sort (ab_nodes p) (nat (ab_uplinks p)))),
       ab_passive := canon_nodes (lnodes (ab_passive p)),
       ab_msgs_in := 0, ab_msgs_out := 0, ab_msgs_dupe := 0, ab_msgs_routed := 0, ab_msgs_insecure := 0,
       ab_msgs_path := 0, ab_msgs_size := 0\<rparr>"

definition quoted_text :: "cstring \<Rightarrow> cstring" where
  "quoted_text d = ch_dquote # d @ [ch_dquote]"

definition seg :: "bool \<Rightarrow> cstring \<Rightarrow> cstring \<times> cstring \<Rightarrow> (cstring \<times> cstring) list" where
  "seg given opt w = (if given then [(opt, opt), w] else [])"

definition seg_opt :: "cstring \<Rightarrow> (cstring \<Rightarrow> cstring) \<Rightarrow> cstring option \<Rightarrow> (cstring \<times> cstring) list" where
  "seg_opt opt f w = (case w of None \<Rightarrow> [] | Some w \<Rightarrow> [(opt, opt), (w, f w)])"

abbreviation same :: "cstring \<Rightarrow> cstring \<times> cstring" where
  "same w \<equiv> (w, w)"

definition option_words :: "areasbbs \<Rightarrow> (cstring \<times> cstring) list" where
  "option_words p =
     seg (ab_zone p \<noteq> -1) ''-z'' (same (dec (ab_zone p))) @
     seg (zone (ab_addr p) \<noteq> -1) ''-a'' (same (znfp1 (ab_addr p))) @
     seg (ab_lvl p \<noteq> -1) ''-l'' (same (dec (ab_lvl p))) @
     seg_opt ''-k'' id (ab_key p) @
     seg (0 < lsize (ab_passive p)) ''-p'' (same (lon_print_passive (ab_passive p))) @
     seg True ''-t'' (same (dec (ab_time p mod 18446744073709551616))) @
     seg (ab_expire_n p \<noteq> 0) ''-e'' (same (dec (ab_expire_n p))) @
     seg (ab_expire_t p \<noteq> 0) ''-n'' (same (dec (ab_expire_t p))) @
     seg_opt ''-d'' quoted_text (ab_desc p) @
     seg_opt ''-s'' id (ab_state p) @
     seg (ab_uplinks p > 1) ''-u'' (same (dec (ab_uplinks p)))"

definition dir_word :: "areasbbs \<Rightarrow> cstring" where
  "dir_word p = (if ab_flags p AND AREASBBS_PASSTHRU \<noteq> 0 then ''#'' else []) @ ab_dir p"

abbreviation spaced :: "(cstring \<times> cstring) list \<Rightarrow> cstring" where
  "spaced ps \<equiv> concat (map (\<lambda>t. t @ [ch_sp]) (map snd ps))"

lemma spaced_seg: "spaced (seg given opt w) = opt_text (opt @ '' '') (snd w) given"
  by (simp add: seg_def opt_text_def)

lemma spaced_seg_opt:
  "spaced (seg_opt opt f w) = (case w of None \<Rightarrow> [] | Some w \<Rightarrow> opt_text (opt @ '' '') (f w) True)"
  by (simp add: seg_opt_def opt_text_def split: option.split)

lemma areas_line_words:
  assumes "0 \<le> c_short (ab_uplinks p)"
  shows "areas_line p = Some (spaced (same (dir_word p) # same (ab_area p) # option_words p) @
    lon_print_sorted (ab_nodes p) (nat (c_short (ab_uplinks p))))"
proof -
  have s: "spaced (a @ b) = spaced a @ spaced b" for a b :: "(cstring \<times> cstring) list" by simp
  have c: "spaced (same w # ps) = w @ '' '' @ spaced ps" for w and ps :: "(cstring \<times> cstring) list" by simp
  show ?thesis
    unfolding c option_words_def s spaced_seg spaced_seg_opt using assms
    by (simp add: areas_line_def dir_word_def quoted_text_def split: option.split)
qed

lemma plain_written: "plain_word w \<Longrightarrow> written ch_dquote DELIM_WS w w"
  by (rule written.plain) (cases w; auto simp: plain_word_def)+

lemma quoted_written:
  assumes "ch_dquote \<notin> set d" "ch_bslash \<notin> set d"
  shows "written ch_dquote DELIM_WS d (quoted_text d)"
proof -
  have "escape ch_dquote d = d" using assms(1) by (induction d) auto
  then show ?thesis using written.quoted [of d ch_dquote DELIM_WS] assms(2) by (simp add: quoted_text_def)
qed

lemma digit_plain: "is_digit c \<Longrightarrow> c \<notin> set DELIM_WS \<and> c \<noteq> ch_dquote"
  by (auto simp: DELIM_WS_def is_digit_def code_def)

lemma plain_dec: "plain_word (dec v)"
proof -
  have "\<forall>c \<in> set (dec v). c = CHR ''-'' \<or> is_digit c" using dec_nat_digits by (auto simp: dec_def)
  moreover have "CHR ''-'' \<notin> set DELIM_WS \<and> CHR ''-'' \<noteq> ch_dquote" by (simp add: DELIM_WS_def)
  ultimately have "c \<notin> set DELIM_WS \<and> c \<noteq> ch_dquote" if "c \<in> set (dec v)" for c
    using that digit_plain by metis
  then show ?thesis unfolding plain_word_def using dec_not_Nil by blast
qed

lemma asc_diff_char_set:
  assumes "valid_node n" "c \<in> set (node_to_asc_diff n old)"
  shows "is_digit c \<or> c = CHR '':'' \<or> c = CHR ''/'' \<or> c = CHR ''.''"
proof -
  have "0 \<le> zone n" "0 \<le> net n" "0 \<le> node n" "0 \<le> point n" using assms by (auto simp: valid_node_def ftn_num_def)
  then show ?thesis using assms(2) by (auto simp: node_to_asc_diff_def Let_def split: if_splits dest: dec_digits_all)
qed

lemma print_loop_chars:
  assumes "fits_all node_fits old ns" "c \<in> set (lon_print_loop True '','' old ns)"
  shows "is_digit c \<or> c = CHR '':'' \<or> c = CHR ''/'' \<or> c = CHR ''.'' \<or> c = CHR '',''"
  using assms
proof (induction ns arbitrary: old)
  case (Cons n ns)
  then show ?case using asc_diff_char_set [of n c old] by (auto simp: node_fits_def split: if_splits)
qed simp

lemma print_sorted_chars:
  assumes "fits_all node_fits old (dedup ns)" "c \<in> set (print_sorted_loop old ns)"
  shows "is_digit c \<or> c = CHR '':'' \<or> c = CHR ''/'' \<or> c = CHR ''.'' \<or> c = ch_sp"
  using assms
proof (induction old ns rule: print_sorted_loop.induct)
  case (2 old n ns)
  then show ?case using asc_diff_char_set [of n c old] by (auto simp: node_fits_def split: if_splits)
qed simp

lemma plain_passive:
  assumes "fits_all node_fits no_node (lnodes l)" "lnodes l \<noteq> []"
  shows "plain_word (lon_print_passive l)"
proof -
  obtain n ns where l: "lnodes l = n # ns" using assms(2) by (cases "lnodes l") auto
  then have "node_to_asc_diff n no_node \<noteq> []" using assms(1) nd.enc_word [of no_node n] by simp
  then have "lon_print_passive l \<noteq> []" by (simp add: lon_print_passive_def l)
  moreover have "c \<notin> set DELIM_WS \<and> c \<noteq> ch_dquote" if "c \<in> set (lon_print_passive l)" for c
    using print_loop_chars [OF assms(1), of c] that digit_plain [of c]
    by (auto simp: lon_print_passive_def DELIM_WS_def)
  ultimately show ?thesis by (auto simp: plain_word_def)
qed

lemma enc_all_chars:
  "fits_all node_fits old ns \<Longrightarrow> w \<in> set (enc_all node_to_asc_diff old ns) \<Longrightarrow>
     peek w \<noteq> CHR ''P'' \<and> peek w \<noteq> CHR ''-''"
proof (induction ns arbitrary: old)
  case (Cons n ns)
  have "peek v \<noteq> CHR ''P'' \<and> peek v \<noteq> CHR ''-''" if v: "v = node_to_asc_diff n old" for v
  proof (cases v)
    case (Cons c u)
    then have "is_digit c \<or> c = CHR '':'' \<or> c = CHR ''/'' \<or> c = CHR ''.''"
      using asc_diff_char_set [of n c old] \<open>fits_all node_fits old (n # ns)\<close> v by (auto simp: node_fits_def)
    moreover have "\<not> is_digit CHR ''P''" "\<not> is_digit CHR ''-''" by (simp_all add: is_digit_def code_def)
    ultimately show ?thesis using Cons by auto
  qed simp
  then show ?case using Cons by auto
qed simp

lemma canon_map: "fits_all node_fits old ns \<Longrightarrow> map (node_canon z) ns = lnodes (canon_nodes ns)"
proof (induction ns arbitrary: old)
  case (Cons n ns)
  then have "zone n \<noteq> -1" using valid_node_parts by (auto simp: node_fits_def)
  then show ?case using Cons.IH [of n] Cons.prems by (simp add: canon_nodes_def node_canon_def)
qed (simp add: canon_nodes_def)

lemma length_enc_all: "length (enc_all wr old ns) = length ns"
  by (induction ns arbitrary: old) auto

lemma passive_read:
  assumes "lon_ok l" "fits_all node_fits no_node (lnodes l)" "lnodes l \<noteq> []"
  shows "fst (areasbbs_add_passive z lon_init (Some (lon_print_passive l))) = canon_nodes (lnodes l)"
proof -
  let ?ps = "enc_all node_to_asc_diff no_node (lnodes l)"
  define r where "r = fst (add_passive_loop lon_init (mk_node z (-1) (-1) (-1)) ?ps)"
  have "lon_ok r" unfolding r_def by (rule add_passive_loop_ok) (use assms(1) in \<open>auto simp: lon_ok_def lon_init_def length_enc_all\<close>)
  moreover have "lnodes r = lnodes (canon_nodes (lnodes l))"
    unfolding r_def add_passive_loop_dec canon_map [OF assms(2), symmetric, of z]
    using nd.dec_all_enc_all [OF assms(2), of z] by (simp add: node_canon_no_node)
  ultimately have "r = canon_nodes (lnodes l)"
    using lon_ok_eq [of r] by (simp add: canon_nodes_def)
  moreover have "comma_parts (lon_print_passive l) = ?ps"
    unfolding lon_print_passive_def by (rule comma_parts_print [OF assms(2,3)])
  ultimately show ?thesis by (simp add: areasbbs_add_passive_def r_def)
qed

lemma area_options_arg:
  "has_argument nl \<Longrightarrow> peek nl = CHR ''-'' \<Longrightarrow> area_options cf p (nl # o2 # ws) =
     (case area_argument cf nl (Some o2) p of None \<Rightarrow> None | Some p \<Rightarrow> area_options cf p ws)"
  by simp

lemma options_seg:
  assumes "has_argument opt" "peek opt = CHR ''-''"
    and "given \<Longrightarrow> area_argument cf opt (Some (fst w)) p = Some (f p)" "\<not> given \<Longrightarrow> f p = p"
  shows "area_options cf p (map fst (seg given opt w) @ ws) = area_options cf (f p) ws"
  using assms(3,4) area_options_arg [OF assms(1,2)] by (simp add: seg_def)

lemma options_seg_opt:
  assumes "has_argument opt" "peek opt = CHR ''-''"
    and "\<And>s. w = Some s \<Longrightarrow> area_argument cf opt (Some s) p = Some (f p)" "w = None \<Longrightarrow> f p = p"
  shows "area_options cf p (map fst (seg_opt opt g w) @ ws) = area_options cf (f p) ws"
  using assms(3,4) area_options_arg [OF assms(1,2)] by (cases w) (simp_all add: seg_opt_def)

lemma area_options_end:
  "ws = [] \<or> peek (hd ws) \<noteq> CHR ''-'' \<Longrightarrow> area_options cf p ws = Some (p, ws)"
  by (cases "(cf, p, ws)" rule: area_options.cases) auto

lemmas option_eval = has_argument_def area_argument_def

lemma options_read:
  assumes p: "areas_fits p" and ws: "ws = [] \<or> peek (hd ws) \<noteq> CHR ''-''"
  shows "area_options cf (areasbbs_new\<lparr>ab_flags := fl, ab_dir := d, ab_area := a\<rparr>) (map fst (option_words p) @ ws)
    = Some ((areas_canon p)\<lparr>ab_flags := fl, ab_dir := d, ab_area := a, ab_nodes := lon_init\<rparr>, ws)"
proof -
  define q0 where "q0 = areasbbs_new\<lparr>ab_flags := fl, ab_dir := d, ab_area := a\<rparr>"
  define q1 where "q1 = q0\<lparr>ab_zone := ab_zone p\<rparr>"
  define q2 where "q2 = q1\<lparr>ab_addr := ab_addr (areas_canon p)\<rparr>"
  define q3 where "q3 = q2\<lparr>ab_lvl := ab_lvl p\<rparr>"
  define q4 where "q4 = q3\<lparr>ab_key := ab_key p\<rparr>"
  define q5 where "q5 = q4\<lparr>ab_passive := canon_nodes (lnodes (ab_passive p))\<rparr>"
  define q6 where "q6 = q5\<lparr>ab_time := ab_time p\<rparr>"
  define q7 where "q7 = q6\<lparr>ab_expire_n := ab_expire_n p\<rparr>"
  define q8 where "q8 = q7\<lparr>ab_expire_t := ab_expire_t p\<rparr>"
  define q9 where "q9 = q8\<lparr>ab_desc := ab_desc p\<rparr>"
  define q10 where "q10 = q9\<lparr>ab_state := ab_state p\<rparr>"
  define q11 where "q11 = q10\<lparr>ab_uplinks := ab_uplinks p\<rparr>"
  note defs = q0_def q1_def q2_def q3_def q4_def q5_def q6_def q7_def q8_def q9_def q10_def q11_def
  note f = p [unfolded areas_fits_def]
  have z: "area_options cf q0 (map fst (seg (ab_zone p \<noteq> -1) ''-z'' (same (dec (ab_zone p)))) @ w) = area_options cf q1 w" for w
    unfolding q1_def by (rule options_seg) (use f in \<open>simp_all add: option_eval atoi_dec_int\<close>)
  have ad: "area_options cf q1 (map fst (seg (zone (ab_addr p) \<noteq> -1) ''-a'' (same (znfp1 (ab_addr p)))) @ w) = area_options cf q2 w" for w
    unfolding q2_def
    by (rule options_seg) (use f in \<open>simp_all add: option_eval areas_canon_def znfp1_read q1_def q0_def areasbbs_new_def\<close>)
  have lv: "area_options cf q2 (map fst (seg (ab_lvl p \<noteq> -1) ''-l'' (same (dec (ab_lvl p)))) @ w) = area_options cf q3 w" for w
    unfolding q3_def by (rule options_seg) (use f in \<open>simp_all add: option_eval atoi_dec_int defs areasbbs_new_def\<close>)
  have ky: "area_options cf q3 (map fst (seg_opt ''-k'' id (ab_key p)) @ w) = area_options cf q4 w" for w
    unfolding q4_def by (rule options_seg_opt) (use f in \<open>simp_all add: option_eval defs areasbbs_new_def\<close>)
  have pv: "area_options cf q4 (map fst (seg (0 < lsize (ab_passive p)) ''-p'' (same (lon_print_passive (ab_passive p)))) @ w)
      = area_options cf q5 w" for w
  proof -
    have "ab_passive q4 = lon_init" by (simp add: defs areasbbs_new_def)
    moreover have "\<not> 0 < lsize (ab_passive p) \<Longrightarrow> lnodes (ab_passive p) = []" using f by (auto simp: lon_ok_def)
    moreover have "0 < lsize (ab_passive p) \<Longrightarrow> lnodes (ab_passive p) \<noteq> []" using f by (auto simp: lon_ok_def)
    moreover have "lon_init = canon_nodes []" by (simp add: lon_init_def canon_nodes_def)
    ultimately show ?thesis
      unfolding q5_def by (intro options_seg) (use f in \<open>simp_all add: option_eval passive_read\<close>)
  qed
  have tm: "area_options cf q5 (map fst (seg True ''-t'' (same (dec (ab_time p mod 18446744073709551616)))) @ w) = area_options cf q6 w" for w
    unfolding q6_def by (rule options_seg) (use f in \<open>simp_all add: option_eval atol_dec\<close>)
  have en: "area_options cf q6 (map fst (seg (ab_expire_n p \<noteq> 0) ''-e'' (same (dec (ab_expire_n p)))) @ w) = area_options cf q7 w" for w
    unfolding q7_def by (rule options_seg) (use f in \<open>simp_all add: option_eval atoi_dec_int defs areasbbs_new_def\<close>)
  have et: "area_options cf q7 (map fst (seg (ab_expire_t p \<noteq> 0) ''-n'' (same (dec (ab_expire_t p)))) @ w) = area_options cf q8 w" for w
    unfolding q8_def by (rule options_seg) (use f in \<open>simp_all add: option_eval atoi_dec_int defs areasbbs_new_def\<close>)
  have de: "area_options cf q8 (map fst (seg_opt ''-d'' quoted_text (ab_desc p)) @ w) = area_options cf q9 w" for w
    unfolding q9_def by (rule options_seg_opt) (use f in \<open>simp_all add: option_eval defs areasbbs_new_def\<close>)
  have sg: "area_options cf q9 (map fst (seg_opt ''-s'' id (ab_state p)) @ w) = area_options cf q10 w" for w
    unfolding q10_def by (rule options_seg_opt) (use f in \<open>simp_all add: option_eval defs areasbbs_new_def\<close>)
  have up: "area_options cf q10 (map fst (seg (ab_uplinks p > 1) ''-u'' (same (dec (ab_uplinks p)))) @ w) = area_options cf q11 w" for w
    unfolding q11_def by (rule options_seg) (use f in \<open>simp_all add: option_eval atoi_dec_int is_c_int_def defs areasbbs_new_def\<close>)
  have "area_options cf q0 (map fst (option_words p) @ ws) = area_options cf q11 ws"
    unfolding option_words_def map_append append.assoc z ad lv ky pv tm en et de sg up ..
  also have "\<dots> = Some (q11, ws)" by (rule area_options_end [OF ws])
  also have "q11 = (areas_canon p)\<lparr>ab_flags := fl, ab_dir := d, ab_area := a, ab_nodes := lon_init\<rparr>"
    by (simp add: defs areasbbs_new_def areas_canon_def)
  finally show ?thesis unfolding q0_def .
qed

abbreviation word_ok :: "cstring \<times> cstring \<Rightarrow> bool" where
  "word_ok w \<equiv> written ch_dquote DELIM_WS (fst w) (snd w)"

lemma seg_ok: "word_ok (same opt) \<Longrightarrow> (given \<Longrightarrow> word_ok w) \<Longrightarrow> list_all word_ok (seg given opt w)"
  by (simp add: seg_def)

lemma seg_opt_ok: "word_ok (same opt) \<Longrightarrow> (\<And>v. w = Some v \<Longrightarrow> word_ok (v, f v)) \<Longrightarrow> list_all word_ok (seg_opt opt f w)"
  by (simp add: seg_opt_def split: option.split)

lemma option_words_ok: "areas_fits p \<Longrightarrow> list_all word_ok (option_words p)"
proof -
  assume f: "areas_fits p"
  have pl: "plain_word ''-z''" "plain_word ''-a''" "plain_word ''-l''" "plain_word ''-k''" "plain_word ''-p''"
    "plain_word ''-t''" "plain_word ''-e''" "plain_word ''-n''" "plain_word ''-d''" "plain_word ''-s''" "plain_word ''-u''"
    by (simp_all add: plain_word_def DELIM_WS_def)
  have o: "word_ok (same ''-z'')" "word_ok (same ''-a'')" "word_ok (same ''-l'')" "word_ok (same ''-k'')"
    "word_ok (same ''-p'')" "word_ok (same ''-t'')" "word_ok (same ''-e'')" "word_ok (same ''-n'')"
    "word_ok (same ''-d'')" "word_ok (same ''-s'')" "word_ok (same ''-u'')"
    using pl by (simp_all add: plain_written)
  have d: "word_ok (same (dec v))" for v using plain_written [OF plain_dec] by simp
  have "0 < lsize (ab_passive p) \<Longrightarrow> word_ok (same (lon_print_passive (ab_passive p)))"
    using plain_written [OF plain_passive] f by (auto simp: areas_fits_def lon_ok_def)
  then show ?thesis
    using f unfolding option_words_def list_all_append
    by (intro conjI seg_ok seg_opt_ok o d) (auto simp: areas_fits_def intro: plain_written quoted_written)
qed

lemma areas_line_read:
  assumes p: "areas_fits p"
  obtains l where "areas_line p = Some l" "areasbbs_parse_line cf l = Some (Some (areas_canon p))"
proof -
  note f = p [unfolded areas_fits_def]
  define ns where "ns = dedup (lon_sort (ab_nodes p) (nat (ab_uplinks p)))"
  define nt where "nt = print_sorted_loop no_node (lon_sort (ab_nodes p) (nat (ab_uplinks p)))"
  define ps where "ps = same (dir_word p) # same (ab_area p) # option_words p"
  define nw where "nw = enc_all node_to_asc_diff no_node ns"
  have fit: "fits_all node_fits no_node ns" using f by (simp add: ns_def)
  have quote_not: "\<not> is_digit ch_dquote" by (simp add: is_digit_def code_def)
  have sh: "c_short (ab_uplinks p) = ab_uplinks p" using f by (simp add: c_short_def)
  have line: "areas_line p = Some (spaced ps @ nt)"
    using areas_line_words [of p] f by (simp add: sh ps_def nt_def lon_print_sorted_def)
  have "plain_word (dir_word p)" using f by (auto simp: dir_word_def plain_word_def DELIM_WS_def)
  then have "list_all word_ok ps"
    using f option_words_ok [OF p] by (simp add: ps_def plain_written)
  then have "list_all2 (written ch_dquote DELIM_WS) (map fst ps) (map snd ps)"
    by (simp add: list_all2_map1 list_all2_map2 list_all2_same list_all_iff)
  then have "tokens ch_dquote DELIM_WS (spaced ps @ nt) = map fst ps @ tokens ch_dquote DELIM_WS nt"
    by (rule tokens_written_prefix) (simp_all add: DELIM_WS_def)
  also have "tokens ch_dquote DELIM_WS nt = tokens ch_nul DELIM_WS nt"
    by (rule tokens_no_quote)
       (use print_sorted_chars [OF fit [unfolded ns_def], of ch_dquote] quote_not in \<open>auto simp: nt_def\<close>)
  also have "\<dots> = nw"
    unfolding nt_def nw_def ns_def by (rule tokens_print_sorted_loop) (use f in simp)
  finally have tok: "tokens ch_dquote DELIM_WS (spaced ps @ nt)
      = dir_word p # ab_area p # map fst (option_words p) @ nw" by (simp add: ps_def)
  have nwd: "nw = [] \<or> peek (hd nw) \<noteq> CHR ''-''"
    using enc_all_chars [OF fit, of "hd nw"] by (cases nw) (auto simp: nw_def)
  have "length ns \<le> length (lnodes (ab_nodes p))"
  proof -
    have "length (dedup ms) \<le> length ms" for ms
    proof (induction ms rule: dedup.induct)
      case (2 n ns)
      then show ?case using length_dropWhile_le [of "node_eq n" ns] by simp
    qed simp
    then show ?thesis unfolding ns_def
      by (rule order_trans) (use f in \<open>auto simp: lon_sort_def Let_def lon_ok_def\<close>)
  qed
  then have small: "length (lnodes lon_init) + length nw < 2147483648" using f by (simp add: nw_def length_enc_all lon_ok_def)
  have np: "\<forall>w \<in> set nw. peek w \<noteq> CHR ''P''" using enc_all_chars [OF fit] by (simp add: nw_def)
  obtain l' ok where l': "add_string_loop lon_init (ab_passive (areas_canon p)) None (mk_node (cf_zone cf) (-1) (-1) (-1)) nw
      = Some (l', ab_passive (areas_canon p), ok)" "lon_ok l'"
      "lnodes l' = dec_all asc_diff_opt (mk_node (cf_zone cf) (-1) (-1) (-1)) nw"
    using add_string_loop_dec [OF np _ small, of "ab_passive (areas_canon p)" None "mk_node (cf_zone cf) (-1) (-1) (-1)"] by auto
  have "lnodes l' = lnodes (canon_nodes ns)"
    using l'(3) nd.dec_all_enc_all [OF fit, of "cf_zone cf"] canon_map [OF fit, of "cf_zone cf"]
    by (simp add: nw_def node_canon_no_node)
  then have l'c: "l' = ab_nodes (areas_canon p)"
    using lon_ok_eq [OF l'(2)] by (simp add: areas_canon_def canon_nodes_def ns_def)
  have dirs: "(peek (dir_word p) = CHR ''#'') = (ab_flags p AND AREASBBS_PASSTHRU \<noteq> 0)"
    "(if ab_flags p AND AREASBBS_PASSTHRU \<noteq> 0 then tl (dir_word p) else dir_word p) = ab_dir p"
    using f by (auto simp: dir_word_def plain_word_def)
  define fl where "fl = (if ab_flags p AND AREASBBS_PASSTHRU \<noteq> 0 then 0 OR AREASBBS_PASSTHRU else (0::int))"
  have fl: "fl = ab_flags p AND AREASBBS_PASSTHRU" by (auto simp: fl_def and_one_eq)
  have new: "(if ab_flags p AND AREASBBS_PASSTHRU \<noteq> 0 then areasbbs_new\<lparr>ab_flags := 0 OR AREASBBS_PASSTHRU\<rparr> else areasbbs_new)
      = areasbbs_new\<lparr>ab_flags := fl\<rparr>"
    by (simp add: fl_def areasbbs_new_def)
  have init: "lon_init\<lparr>lsize := 0\<rparr> = lon_init" by (simp add: lon_init_def)
  have "areasbbs_parse_line cf (spaced ps @ nt) = Some (Some (areas_canon p))"
    unfolding areasbbs_parse_line_def tok areasbbs_parse_words_def list.case dirs new Let_def
    using options_read [OF p nwd, where cf = cf and fl = fl and d = "ab_dir p" and a = "ab_area p"] l'(1) f
    by (simp add: areasbbs_add_string_def init l'c fl) (simp add: areas_canon_def)
  then show thesis using that line by blast
qed

subsection \<open>Files read back\<close>

definition areas_line_ok :: "areasbbs \<Rightarrow> bool" where
  "areas_line_ok p \<longleftrightarrow>
     (case areas_line p of
        None \<Rightarrow> False
      | Some l \<Rightarrow> ch_lf \<notin> set l \<and> ch_cr \<notin> set l \<and> no_nul l \<and> length l + 1 < BUFFERSIZE)"

lemma areas_lines_line:
  assumes "ch_lf \<notin> set l" "ch_cr \<notin> set l" "no_nul l" "length l + 1 < BUFFERSIZE"
  shows "fgets BUFFERSIZE (l @ ch_lf # rest) = Some (l @ [ch_lf], rest)" "chomp (cstr (l @ [ch_lf])) = l"
proof -
  show "fgets BUFFERSIZE (l @ ch_lf # rest) = Some (l @ [ch_lf], rest)" by (rule fgets_line [OF assms(1,4)])
  have "cstr (l @ [ch_lf]) = l @ [ch_lf]" by (rule cstr_whole) (use assms(3) in simp)
  moreover have "l = [] \<or> last l \<noteq> ch_cr \<and> last l \<noteq> ch_lf" using assms(1,2) last_in_set by metis
  ultimately show "chomp (cstr (l @ [ch_lf])) = l" using chomp_line [of l] by simp
qed

lemma areas_text_read:
  assumes "list_all (\<lambda>p. areas_fits p \<and> areas_line_ok p) ps"
  obtains t where "areas_text ps = Some t" "areas_lines cf t = Some (map areas_canon ps)"
  using assms
proof (induction ps arbitrary: thesis)
  case Nil
  then show ?case by (simp add: areas_lines.simps fgets_def)
next
  case (Cons p ps)
  obtain t where t: "areas_text ps = Some t" "areas_lines cf t = Some (map areas_canon ps)"
    using Cons.IH Cons.prems(2) by auto
  obtain l where l: "areas_line p = Some l" "areasbbs_parse_line cf l = Some (Some (areas_canon p))"
    using areas_line_read [of p cf] Cons.prems(2) by auto
  have ok: "ch_lf \<notin> set l" "ch_cr \<notin> set l" "no_nul l" "length l + 1 < BUFFERSIZE"
    using Cons.prems(2) l(1) by (simp_all add: areas_line_ok_def)
  have "areas_lines cf (l @ ch_lf # t) = Some (map areas_canon (p # ps))"
    using areas_lines_line [OF ok] l(2) t(2) by (subst areas_lines.simps) simp
  then show ?case using Cons.prems(1) [of "l @ ch_lf # t"] l(1) t(1) by simp
qed

lemma areas_print_read:
  assumes "ab_first st = Some l1" "ch_lf \<notin> set l1" "ch_cr \<notin> set l1" "no_nul l1" "length l1 + 1 < BUFFERSIZE"
    and "list_all (\<lambda>p. areas_fits p \<and> areas_line_ok p) (ab_list st)"
  obtains t where "areasbbs_print st = Some t"
    "\<And>(opn :: cstring \<Rightarrow> bytes option option) name. opn name = Some (Some t) \<Longrightarrow> areasbbs_init cf opn (Some name) areas_start =
       Some (True, \<lparr>ab_first = Some l1, ab_list = map areas_canon (ab_list st), ab_filename = Some name, ab_changed = False\<rparr>)"
proof -
  obtain t where t: "areas_text (ab_list st) = Some t" "areas_lines cf t = Some (map areas_canon (ab_list st))"
    using areas_text_read [OF assms(6)] by blast
  show thesis
  proof (rule that [of "l1 @ ch_lf # t"])
    show "areasbbs_print st = Some (l1 @ ch_lf # t)" using t(1) assms(1) by (simp add: areasbbs_print_def)
    fix opn :: "cstring \<Rightarrow> bytes option option" and name assume "opn name = Some (Some (l1 @ ch_lf # t))"
    then show "areasbbs_init cf opn (Some name) areas_start =
       Some (True, \<lparr>ab_first = Some l1, ab_list = map areas_canon (ab_list st), ab_filename = Some name, ab_changed = False\<rparr>)"
      using areas_lines_line(1) [OF assms(2-5), of t] areas_lines_line(2) [OF assms(2-5)] t(2) by (simp add: areasbbs_init_def areas_start_def)
  qed
qed

lemma fs_rename_apply:
  "old \<noteq> new \<Longrightarrow> fs_rename old new fs n =
     (if n = new then (case fs old of None \<Rightarrow> fs new | Some b \<Rightarrow> Some b) else if n = old then None else fs n)"
  by (auto simp: fs_rename_def split: option.split)

lemma expand_plain:
  assumes "peek name \<noteq> CHR ''%''" "no_nul name" "length name < MAXPATH"
  obtains buf where "str_expand_name atable (replicate BUFFERSIZE ch_nul) MAXPATH name = Some buf" "cstr buf = name"
proof -
  have b: "MAXPATH \<le> BUFFERSIZE" "0 < BUFFERSIZE" by (simp_all add: MAXPATH_def BUFFERSIZE_def)
  obtain k where k: "BUFFERSIZE = Suc k" using b(2) gr0_implies_Suc by blast
  define d where d: "d = ch_nul # replicate k ch_nul"
  have c: "cstr d = []" by (simp add: d cstr_def)
  have s: "buf_set (replicate BUFFERSIZE ch_nul) 0 ch_nul = Some d"
    unfolding k by (simp add: buf_set_def d)
  obtain r where "str_append d MAXPATH name = Some (take (MAXPATH - 1) name @ ch_nul # r)"
    by (rule str_append_eq [of d MAXPATH name]) (use b k assms c in \<open>auto simp: d MAXPATH_def\<close>)
  moreover have "take (MAXPATH - 1) name = name" using assms(3) by simp
  ultimately show thesis
    using that [of "name @ ch_nul # r"] s assms(1) cstr_append [OF assms(2)] by (simp add: str_expand_name_def)
qed

lemma renumbered:
  assumes "n \<noteq> base @ ''o01''" "n \<noteq> base @ ''o02''" "n \<noteq> base @ ''o03''" "n \<noteq> base @ ''o04''" "n \<noteq> base @ ''o05''"
    and "fs (base @ ''o05'') = None"
  defines "fs' \<equiv> renumber base 4 fs"
  shows "fs' (base @ ''o05'') = fs (base @ ''o04'')" "fs' (base @ ''o04'') = fs (base @ ''o03'')"
    "fs' (base @ ''o03'') = fs (base @ ''o02'')" "fs' (base @ ''o02'') = fs (base @ ''o01'')"
    "fs' (base @ ''o01'') = None" "fs' n = fs n"
  using assms(1-6)
  by (simp_all add: fs'_def old_ext_def numeral_eq_Suc fs_rename_apply dec_eval split: option.split)

text \<open>
  C30. When areasbbs_rewrite has rewritten a changed AREAS.BBS, whose entries have fields
  without white space, quotes and control characters, areasbbs_init reads the file back as the
  same entries, up to the read-only mark, the counters and the order of the nodes, and the file
  before is kept as AREAS.O01.
\<close>

theorem areas_rewrite_reads_back:
  assumes "ab_changed st" "ab_filename st = Some (base @ ''bbs'')"
    and "peek (base @ ''bbs'') \<noteq> CHR ''%''" "no_nul base" "length base + 3 < MAXPATH" "wr (base @ ''new'')"
    and "ab_first st = Some l1" "ch_lf \<notin> set l1" "ch_cr \<notin> set l1" "no_nul l1" "length l1 + 1 < BUFFERSIZE"
    and "list_all (\<lambda>p. areas_fits p \<and> areas_line_ok p) (ab_list st)"
  shows "\<exists>fs'. areasbbs_rewrite atable wr st fs = Some (True, fs') \<and>
    areasbbs_init cf (\<lambda>n. Some (fs' n)) (Some (base @ ''bbs'')) areas_start =
      Some (True, \<lparr>ab_first = Some l1, ab_list = map areas_canon (ab_list st), ab_filename = Some (base @ ''bbs''),
                   ab_changed = False\<rparr>) \<and>
    map fs' [base @ ''o01'', base @ ''o02'', base @ ''o03'', base @ ''o04'', base @ ''o05''] =
      map fs [base @ ''bbs'', base @ ''o01'', base @ ''o02'', base @ ''o03'', base @ ''o04'']"
proof -
  obtain buf where buf: "str_expand_name atable (replicate BUFFERSIZE ch_nul) MAXPATH (base @ ''bbs'') = Some buf"
    "cstr buf = base @ ''bbs''"
    by (rule expand_plain [of "base @ ''bbs''" atable]) (use assms(3-5) in auto)
  obtain t where t: "areasbbs_print st = Some t"
    "\<And>(opn :: cstring \<Rightarrow> bytes option option) name. opn name = Some (Some t) \<Longrightarrow> areasbbs_init cf opn (Some name) areas_start =
       Some (True, \<lparr>ab_first = Some l1, ab_list = map areas_canon (ab_list st), ab_filename = Some name, ab_changed = False\<rparr>)"
    using areas_print_read [OF assms(7-12)] by blast
  define fs1 where "fs1 = (fs(base @ ''new'' \<mapsto> t))(base @ ''o05'' := None)"
  define fs2 where "fs2 = renumber base 4 fs1"
  define fs' where "fs' = fs_rename (base @ ''new'') (base @ ''bbs'') (fs_rename (base @ ''bbs'') (base @ ''o01'') fs2)"
  have f2: "fs2 (base @ ''o05'') = fs (base @ ''o04'')" "fs2 (base @ ''o04'') = fs (base @ ''o03'')"
    "fs2 (base @ ''o03'') = fs (base @ ''o02'')" "fs2 (base @ ''o02'') = fs (base @ ''o01'')"
    "fs2 (base @ ''o01'') = None" "fs2 (base @ ''bbs'') = fs (base @ ''bbs'')" "fs2 (base @ ''new'') = Some t"
    using renumbered [of "base @ ''bbs''" base fs1] renumbered [of "base @ ''new''" base fs1]
    unfolding fs2_def [symmetric] by (simp_all add: fs1_def)
  have "areasbbs_rewrite atable wr st fs = Some (True, fs')"
    using assms(1,2,6) buf t(1)
    by (simp add: areasbbs_rewrite_def Let_def fs'_def fs2_def fs1_def N_HISTORY_def old_ext_def dec_eval del: fun_upd_apply)
  moreover have "fs' (base @ ''bbs'') = Some t"
    using f2 by (simp add: fs'_def fs_rename_apply)
  moreover have "map fs' [base @ ''o01'', base @ ''o02'', base @ ''o03'', base @ ''o04'', base @ ''o05''] =
      map fs [base @ ''bbs'', base @ ''o01'', base @ ''o02'', base @ ''o03'', base @ ''o04'']"
    using f2 by (simp add: fs'_def fs_rename_apply split: option.split)
  ultimately show ?thesis using t(2) [of "\<lambda>n. Some (fs' n)" "base @ ''bbs''"] by auto
qed

definition sample_area :: areasbbs where
  "sample_area = areasbbs_new\<lparr>ab_dir := ''/a'', ab_area := ''T'', ab_zone := 2, ab_desc := Some ''x y'',
     ab_state := Some ''S'', ab_time := 5, ab_flags := AREASBBS_READONLY,
     ab_nodes := \<lparr>lsize = 2, lnodes = [mk_node 2 5020 1 0, mk_node 2 5020 7 0]\<rparr>\<rparr>"

definition sample_areas :: areas where
  "sample_areas = \<lparr>ab_first = Some ''first'', ab_list = [sample_area], ab_filename = Some ''areas.bbs'', ab_changed = True\<rparr>"

lemma sample_sort: "lon_sort \<lparr>lsize = 2, lnodes = [mk_node 2 5020 1 0, mk_node 2 5020 7 0]\<rparr> (Suc 0)
    = [mk_node 2 5020 1 0, mk_node 2 5020 7 0]"
  by (simp add: lon_sort_def)

lemma sample_line: "areas_line sample_area = Some (''/a T -z 2 -t 5 -d '' @ quoted_text ''x y'' @ '' -s S 2:5020/1 7'')"
  by (simp add: areas_line_def sample_area_def areasbbs_new_def c_short_def opt_text_def sample_sort node_invalid_def
      dec_eval lon_print_sorted_def node_to_asc_diff_def node_eq_def quoted_text_def lon_init_def and_one_eq)

lemma sample_fits: "areas_fits sample_area" "areas_line_ok sample_area"
proof -
  show "areas_fits sample_area"
    by (simp add: areas_fits_def sample_area_def areasbbs_new_def plain_word_def DELIM_WS_def is_c_int_def lon_ok_def
        node_invalid_def sample_sort lon_init_def node_fits_def valid_node_def ftn_num_def node_np_eq_def node_eq_def)
  show "areas_line_ok sample_area"
    unfolding areas_line_ok_def sample_line by (simp add: quoted_text_def BUFFERSIZE_def)
qed

theorem areas_rewrite_reads_back_witness:
  "\<exists>fs'. areasbbs_rewrite (\<lambda>_. None) (\<lambda>_. True) sample_areas [''areas.bbs'' \<mapsto> ''old''] = Some (True, fs') \<and>
    areasbbs_init scf_start (\<lambda>n. Some (fs' n)) (Some ''areas.bbs'') areas_start =
      Some (True, \<lparr>ab_first = Some ''first'', ab_list = [areas_canon sample_area], ab_filename = Some ''areas.bbs'',
                   ab_changed = False\<rparr>) \<and> fs' ''areas.o01'' = Some ''old''"
  using areas_rewrite_reads_back [of sample_areas "''areas.''" "\<lambda>_. True" "''first''" "\<lambda>_. None" "[''areas.bbs'' \<mapsto> ''old'']" scf_start]
  by (simp add: sample_areas_def sample_fits MAXPATH_def BUFFERSIZE_def) (metis (no_types))

text \<open>The read-only mark of an area is not written.\<close>

lemma readonly_lost: "areas_fits p \<Longrightarrow> \<exists>l q. areas_line p = Some l \<and> areasbbs_parse_line cf l = Some (Some q) \<and>
    ab_flags q AND AREASBBS_READONLY = 0"
proof -
  assume "areas_fits p"
  then obtain l where "areas_line p = Some l" "areasbbs_parse_line cf l = Some (Some (areas_canon p))"
    by (rule areas_line_read)
  moreover have "ab_flags (areas_canon p) AND AREASBBS_READONLY = 0"
    by (simp add: areas_canon_def and.assoc)
  ultimately show ?thesis by blast
qed

text \<open>A node on the passive list: the letter is taken before the address, so the one before it is added.\<close>

lemma passive_prefix_adds_previous:
  assumes "asc_to_node_diff a old old = (True, n)" "asc_to_node_diff b n n = (True, m)" "peek a \<noteq> CHR ''P''"
  shows "add_string_loop lon_init lon_init None old [a, CHR ''P'' # b] =
    Some (lon_add (lon_add lon_init n) m, lon_add lon_init n, True)"
    "add_string_loop lon_init lon_init None old [CHR ''P'' # b] = None"
  using assms by simp_all

end
