(* ===== verification/Routing.thy ===== *)
theory Routing
  imports Config
begin

text \<open>
  The routing tables of \<open>src/common/routing.c\<close> and what \<open>src/toss/ftnroute.c\<close> does with them: the
  choice of the system, the flavour and the way a packet goes.

  A keyword that is not known is \<open>None\<close> where the code returns \<open>ERROR\<close>.  The four linked lists of
  \<open>routing.c\<close> and the static packet type of \<open>routing_parse_line\<close> are the fields of one record.
\<close>

abbreviation TYPE_NETMAIL :: char where "TYPE_NETMAIL \<equiv> CHR ''n''"
abbreviation TYPE_ECHOMAIL :: char where "TYPE_ECHOMAIL \<equiv> CHR ''e''"
abbreviation TYPE_TICK :: char where "TYPE_TICK \<equiv> CHR ''t''"
abbreviation CMD_SEND :: char where "CMD_SEND \<equiv> CHR ''s''"
abbreviation CMD_ROUTE :: char where "CMD_ROUTE \<equiv> CHR ''r''"
abbreviation CMD_CHANGE :: char where "CMD_CHANGE \<equiv> CHR ''c''"
abbreviation CMD_HOSTROUTE :: char where "CMD_HOSTROUTE \<equiv> CHR ''h''"
abbreviation CMD_HUBROUTE :: char where "CMD_HUBROUTE \<equiv> CHR ''u''"
abbreviation CMD_REMAP :: char where "CMD_REMAP \<equiv> CHR ''m''"
abbreviation CMD_REMAP_TO :: char where "CMD_REMAP_TO \<equiv> CHR ''m''"
abbreviation CMD_REMAP_FROM :: char where "CMD_REMAP_FROM \<equiv> CHR ''f''"
abbreviation CMD_REWRITE :: char where "CMD_REWRITE \<equiv> CHR ''w''"
abbreviation CMD_REWRITE_FROM :: char where "CMD_REWRITE_FROM \<equiv> CHR ''g''"
abbreviation CMD_REWRITE_TO :: char where "CMD_REWRITE_TO \<equiv> CHR ''k''"
abbreviation CMD_SENDMOVE :: char where "CMD_SENDMOVE \<equiv> CHR ''v''"
abbreviation CMD_XROUTE :: char where "CMD_XROUTE \<equiv> CHR ''x''"
abbreviation CMD_BOSSROUTE :: char where "CMD_BOSSROUTE \<equiv> CHR ''b''"
abbreviation FLAV_NONE :: char where "FLAV_NONE \<equiv> CHR ''-''"
abbreviation FLAV_NORMAL :: char where "FLAV_NORMAL \<equiv> CHR ''n''"
abbreviation FLAV_HOLD :: char where "FLAV_HOLD \<equiv> CHR ''h''"
abbreviation FLAV_CRASH :: char where "FLAV_CRASH \<equiv> CHR ''c''"
abbreviation FLAV_DIRECT :: char where "FLAV_DIRECT \<equiv> CHR ''d''"

record routing =
  r_type :: char
  r_cmd :: char
  r_flav :: char
  r_flav_new :: char
  r_nodes :: lon

record remap =
  rm_type :: char
  rm_from :: fnode
  rm_to :: fnode
  rm_name :: cstring

record rewrite =
  rw_type :: char
  rw_from :: fnode
  rw_to :: fnode
  rw_name :: cstring

record mkroute =
  mk_uplink :: fnode
  mk_links :: lon
  mk_cmd :: char
  mk_flav :: char

record routes =
  rt_routing :: "routing list"
  rt_remap :: "remap list"
  rt_rewrite :: "rewrite list"
  rt_mkroute :: "mkroute list"
  rt_type :: char

definition routes_start :: routes where
  "routes_start = \<lparr>rt_routing = [], rt_remap = [], rt_rewrite = [], rt_mkroute = [], rt_type = TYPE_NETMAIL\<rparr>"

subsection \<open>Keywords\<close>

fun keyword :: "(cstring \<times> 'a) list \<Rightarrow> cstring \<Rightarrow> 'a option" where
  "keyword [] s = None"
| "keyword ((k, v) # ks) s = (if stricmp s k = 0 then Some v else keyword ks s)"

definition parse_cmd :: "cstring \<Rightarrow> char option" where
  "parse_cmd s =
     keyword
       [(''netmail'', TYPE_NETMAIL), (''echomail'', TYPE_ECHOMAIL), (''tick'', TYPE_TICK), (''send'', CMD_SEND),
        (''route'', CMD_ROUTE), (''change'', CMD_CHANGE), (''hostroute'', CMD_HOSTROUTE), (''hubroute'', CMD_HUBROUTE),
        (''remap'', CMD_REMAP), (''remapto'', CMD_REMAP_TO), (''remapfrom'', CMD_REMAP_FROM), (''rewrite'', CMD_REWRITE),
        (''rewriteto'', CMD_REWRITE_TO), (''rewritefrom'', CMD_REWRITE_FROM), (''sendmove'', CMD_SENDMOVE),
        (''xroute'', CMD_XROUTE), (''bossroute'', CMD_BOSSROUTE)] s"

definition parse_flav :: "cstring \<Rightarrow> char option" where
  "parse_flav s =
     keyword
       [(''normal'', FLAV_NORMAL), (''out'', FLAV_NORMAL), (''hold'', FLAV_HOLD), (''hut'', FLAV_HOLD),
        (''crash'', FLAV_CRASH), (''cut'', FLAV_CRASH), (''direct'', FLAV_DIRECT), (''dut'', FLAV_DIRECT)] s"

subsection \<open>Lines\<close>

text \<open>
  Every \<open>xstrtok\<close> of a line has the delimiters blank and tab, so a line is the list of its words.
  \<open>z\<close> is \<open>cf_zone()\<close>.
\<close>

abbreviation zone_only :: "int \<Rightarrow> fnode" where
  "zone_only z \<equiv> mk_node z (-1) (-1) (-1)"

definition parse_addr :: "cstring \<Rightarrow> fnode \<Rightarrow> fnode option" where
  "parse_addr p old = (case znfp_parse_diff p old old of (True, nd) \<Rightarrow> Some nd | (False, _) \<Rightarrow> None)"

definition routing_remap :: "int \<Rightarrow> char \<Rightarrow> cstring list \<Rightarrow> routes \<Rightarrow> routes" where
  "routing_remap z cmd args st =
     (case args of
        s # d # name # _ \<Rightarrow>
          (case (parse_addr s (zone_only z), parse_addr d (zone_only z)) of
             (Some src, Some dest) \<Rightarrow>
               st\<lparr>rt_remap := rt_remap st @ [\<lparr>rm_type = cmd, rm_from = src, rm_to = dest, rm_name = name\<rparr>]\<rparr>
           | _ \<Rightarrow> st)
      | _ \<Rightarrow> st)"

definition routing_rewrite :: "int \<Rightarrow> char \<Rightarrow> cstring list \<Rightarrow> routes \<Rightarrow> routes" where
  "routing_rewrite z cmd args st =
     (case args of
        s # d # names \<Rightarrow>
          (case (parse_addr s (zone_only z), parse_addr d (zone_only z)) of
             (Some src, Some dest) \<Rightarrow>
               (let add = (\<lambda>name. st\<lparr>rt_rewrite := rt_rewrite st @
                      [\<lparr>rw_type = cmd, rw_from = src, rw_to = dest, rw_name = name\<rparr>]\<rparr>)
                in if cmd = CMD_REWRITE_FROM \<or> cmd = CMD_REWRITE_TO
                   then (case names of [] \<Rightarrow> st | name # _ \<Rightarrow> add name)
                   else add ''*'')
           | _ \<Rightarrow> st)
      | _ \<Rightarrow> st)"

definition mk_links_of :: "int \<Rightarrow> cstring list \<Rightarrow> lon" where
  "mk_links_of z args = foldl (\<lambda>l p. if p = [] then l else lon_add_string z l p) lon_init args"

definition mk_route :: "int \<Rightarrow> char \<Rightarrow> cstring list \<Rightarrow> routes \<Rightarrow> routes" where
  "mk_route z cmd args st =
     (case args of
        [] \<Rightarrow> st
      | f # args \<Rightarrow>
          (case parse_flav f of
             None \<Rightarrow> st
           | Some flav \<Rightarrow>
               (let add = (\<lambda>dest args.
                      let links = mk_links_of z args
                      in if cmd = CMD_XROUTE \<and> lsize links \<noteq> 2 then st
                         else st\<lparr>rt_mkroute := rt_mkroute st @
                                [\<lparr>mk_uplink = dest, mk_links = links, mk_cmd = cmd, mk_flav = flav\<rparr>]\<rparr>)
                in if cmd = CMD_XROUTE
                   then (case args of
                           [] \<Rightarrow> st
                         | p # args \<Rightarrow>
                             (case parse_addr p (zone_only z) of None \<Rightarrow> st | Some dest \<Rightarrow> add dest args))
                   else add (mk_node 0 0 0 0) args)))"

text \<open>The list of nodes: a word that is no address is skipped.\<close>

fun node_list :: "lon \<Rightarrow> fnode \<Rightarrow> cstring list \<Rightarrow> lon" where
  "node_list l old [] = l"
| "node_list l old (p # ps) =
     (case parse_addr p old of None \<Rightarrow> node_list l old ps | Some nd \<Rightarrow> node_list (lon_add l nd) nd ps)"

definition routing_entry :: "int \<Rightarrow> char \<Rightarrow> char \<Rightarrow> cstring list \<Rightarrow> routing option" where
  "routing_entry z type cmd args =
     (case args of
        [] \<Rightarrow> None
      | f # args \<Rightarrow>
          (case parse_flav f of
             None \<Rightarrow> None
           | Some flav \<Rightarrow>
               (let make = (\<lambda>flav_new args. case args of
                        [] \<Rightarrow> None
                      | _ \<Rightarrow> Some \<lparr>r_type = type, r_cmd = cmd, r_flav = flav, r_flav_new = flav_new,
                                     r_nodes = node_list lon_init (zone_only z) args\<rparr>)
                in if cmd = CMD_CHANGE
                   then (case args of
                           [] \<Rightarrow> None
                         | f # args \<Rightarrow> (case parse_flav f of None \<Rightarrow> None | Some new \<Rightarrow> make new args))
                   else make FLAV_NONE args)))"

text \<open>
  \<open>routing_parse_line\<close> and the linking of its result in \<open>routing_do_file\<close>: the new tables, and the file
  to include.  An include line without a name opens the empty name, which is no file.
\<close>

definition routing_do_line :: "int \<Rightarrow> cstring \<Rightarrow> routes \<Rightarrow> routes \<times> cstring option" where
  "routing_do_line z buf st =
     (case tokens ch_dquote WS buf of
        [] \<Rightarrow> (st, None)
      | p # args \<Rightarrow>
          if strieq p ''include'' then (st, Some (case args of [] \<Rightarrow> [] | name # _ \<Rightarrow> name))
          else
            (case parse_cmd p of
               None \<Rightarrow> st
             | Some cmd \<Rightarrow>
                 if cmd = TYPE_NETMAIL \<or> cmd = TYPE_ECHOMAIL \<or> cmd = TYPE_TICK then st\<lparr>rt_type := cmd\<rparr>
                 else if cmd = CMD_REMAP \<or> cmd = CMD_REMAP_FROM \<or> cmd = CMD_REMAP_TO then routing_remap z cmd args st
                 else if cmd = CMD_REWRITE \<or> cmd = CMD_REWRITE_FROM \<or> cmd = CMD_REWRITE_TO
                   then routing_rewrite z cmd args st
                 else if cmd = CMD_HUBROUTE \<or> cmd = CMD_HOSTROUTE \<or> cmd = CMD_BOSSROUTE \<or> cmd = CMD_XROUTE
                   then mk_route z cmd args st
                 else
                   (case routing_entry z (rt_type st) cmd args of
                      None \<Rightarrow> st | Some r \<Rightarrow> st\<lparr>rt_routing := rt_routing st @ [r]\<rparr>),
             None))"

definition routing_open :: "(cstring \<rightharpoonup> bytes) \<Rightarrow> cstring \<Rightarrow> bytes option option" where
  "routing_open files name = map_option Some (files name)"

definition routing_do_file :: "nat \<Rightarrow> (cstring \<rightharpoonup> bytes) \<Rightarrow> int \<Rightarrow> cstring \<Rightarrow> routes \<Rightarrow> routes option" where
  "routing_do_file d files z name st =
     (case routing_open files name of
        Some (Some c) \<Rightarrow> nested d (routing_open files) (routing_do_line z) id (cf_lines BUFFERSIZE c) st
      | _ \<Rightarrow> None)"

definition routing_init :: "nat \<Rightarrow> (cstring \<rightharpoonup> bytes) \<Rightarrow> int \<Rightarrow> cstring \<Rightarrow> routes \<Rightarrow> routes option" where
  "routing_init d files z name st = routing_do_file d files z name st"

subsection \<open>Packets\<close>

record pktdesc =
  d_from :: fnode
  d_to :: fnode
  d_grade :: char
  d_type :: char
  d_flav :: char
  d_move :: bool

definition parse_pkt_name :: "cstring \<Rightarrow> fnode \<Rightarrow> fnode \<Rightarrow> pktdesc option" where
  "parse_pkt_name name from_node to_node =
     (let p = rev (takeWhile (\<lambda>c. c \<noteq> CHR ''/'') (rev name))
      in if length p \<noteq> 8 + 1 + 3 then None
         else
           (let g = p ! 0; t = p ! 1; f = p ! 2;
                sane = (t = TYPE_ECHOMAIL \<or> t = TYPE_NETMAIL \<or> t = TYPE_TICK) \<and>
                  (f = FLAV_NORMAL \<or> f = FLAV_HOLD \<or> f = FLAV_CRASH \<or> f = FLAV_DIRECT)
            in Some \<lparr>d_from = from_node, d_to = to_node, d_grade = if sane then g else CHR ''-'',
                     d_type = if sane then t else CHR ''-'', d_flav = if sane then f else FLAV_NORMAL, d_move = False\<rparr>))"

text \<open>The last step of both command functions.\<close>

definition no_wild :: "int \<Rightarrow> int" where
  "no_wild v = (if v = EMPTY \<or> v = WILDCARD then 0 else v)"

definition set_values :: "fnode \<Rightarrow> fnode" where
  "set_values nd =
     nd\<lparr>zone := no_wild (zone nd), net := no_wild (net nd), node := no_wild (node nd), point := no_wild (point nd)\<rparr>"

definition do_cmd :: "pktdesc \<Rightarrow> routing \<Rightarrow> fnode \<Rightarrow> bool \<times> pktdesc" where
  "do_cmd desc r match =
     (let (ret, desc) =
        (if r_cmd r = CMD_SEND then
           (if d_flav desc = FLAV_NORMAL
            then (True, desc\<lparr>d_flav := r_flav r, d_move := False,
                   d_to := (if point match = EMPTY then (d_to desc)\<lparr>point := 0\<rparr> else d_to desc)\<rparr>)
            else (False, desc))
         else if r_cmd r = CMD_SENDMOVE then
           (if d_flav desc = FLAV_NORMAL then (True, desc\<lparr>d_flav := r_flav r, d_move := True\<rparr>) else (False, desc))
         else if r_cmd r = CMD_ROUTE then
           (if d_flav desc = FLAV_NORMAL
            then (True, desc\<lparr>d_flav := r_flav r, d_to := hd (lnodes (r_nodes r)), d_move := False\<rparr>)
            else (False, desc))
         else if r_cmd r = CMD_CHANGE then
           (if d_flav desc = r_flav r then (True, desc\<lparr>d_flav := r_flav_new r, d_move := False\<rparr>) else (False, desc))
         else (False, desc))
      in (ret, desc\<lparr>d_to := set_values (d_to desc)\<rparr>))"

text \<open>
  The hub data base is \<open>hub\<close>, the record of an address.  \<open>xstrtok\<close> cuts the record at its first
  delimiter; without a word in it the code follows a null pointer, the value \<open>None\<close>.  \<open>znfp_parse_partial\<close>
  returns 0 for an address, so \<open>node\<close> is stored when the text is none: \<open>left_behind\<close> is what the parser
  leaves in \<open>node\<close> then.
\<close>

definition do_cmd_mkroute :: "(cstring \<Rightarrow> cstring option) \<Rightarrow> (cstring \<Rightarrow> fnode) \<Rightarrow> pktdesc \<Rightarrow> mkroute
    \<Rightarrow> (bool \<times> pktdesc) option" where
  "do_cmd_mkroute hub left_behind desc r =
     map_option (\<lambda>(ret, desc). (ret, desc\<lparr>d_to := set_values (d_to desc)\<rparr>))
       (if mk_cmd r = CMD_XROUTE then
          (if node_match (d_from desc) (lnodes (mk_links r) ! 0) \<and> node_match (d_to desc) (lnodes (mk_links r) ! 1)
           then Some (True, desc\<lparr>d_to := mk_uplink r, d_flav := mk_flav r, d_move := False\<rparr>)
           else Some (False, desc))
        else if mk_cmd r = CMD_HOSTROUTE then
          (if lon_search_wild (mk_links r) (d_to desc)
           then Some (True, desc\<lparr>d_flav := mk_flav r, d_to := (d_to desc)\<lparr>node := 0, point := 0\<rparr>, d_move := False\<rparr>)
           else Some (False, desc))
        else if mk_cmd r = CMD_HUBROUTE then
          (if lon_search_wild (mk_links r) (d_to desc)
           then
             (case hub (znfp1 (d_to desc)) of
                None \<Rightarrow> Some (False, desc)
              | Some p \<Rightarrow>
                  (let delim = (\<lambda>c. c = CHR '' '' \<or> c = CHR ''$'');
                       pre = takeWhile delim p;
                       word = takeWhile (\<lambda>c. \<not> delim c) (dropWhile delim p)
                   in if word = [] then None
                      else if znfp_parse_partial (pre @ word) = None
                        then Some (True, desc\<lparr>d_to := (left_behind (pre @ word))\<lparr>point := 0\<rparr>, d_move := False\<rparr>)
                      else Some (True, desc\<lparr>d_move := False\<rparr>)))
           else Some (False, desc))
        else if mk_cmd r = CMD_BOSSROUTE then
          (if d_flav desc = mk_flav r \<and> lon_search_wild (mk_links r) (d_to desc)
           then Some (True, desc\<lparr>d_to := (d_to desc)\<lparr>point := 0\<rparr>, d_move := False\<rparr>)
           else Some (False, desc))
        else Some (False, desc))"

text \<open>The two loops of \<open>do_routing\<close>: the first command that is done ends them.\<close>

fun mkroute_loop :: "(cstring \<Rightarrow> cstring option) \<Rightarrow> (cstring \<Rightarrow> fnode) \<Rightarrow> mkroute list \<Rightarrow> pktdesc
    \<Rightarrow> (bool \<times> pktdesc) option" where
  "mkroute_loop hub left_behind [] desc = Some (False, desc)"
| "mkroute_loop hub left_behind (r # rs) desc =
     (case do_cmd_mkroute hub left_behind desc r of
        None \<Rightarrow> None
      | Some (True, desc) \<Rightarrow> Some (True, desc)
      | Some (False, desc) \<Rightarrow> mkroute_loop hub left_behind rs desc)"

fun routing_loop :: "routing list \<Rightarrow> pktdesc \<Rightarrow> bool \<times> pktdesc" where
  "routing_loop [] desc = (False, desc)"
| "routing_loop (r # rs) desc =
     (if d_type desc = r_type r then
        (case List.find (\<lambda>p. node_match (d_to desc) p) (lnodes (r_nodes r)) of
           None \<Rightarrow> routing_loop rs desc
         | Some match \<Rightarrow>
             (case do_cmd desc r match of
                (True, desc) \<Rightarrow> (True, desc)
              | (False, desc) \<Rightarrow> routing_loop rs desc))
      else routing_loop rs desc)"

definition route_desc :: "(cstring \<Rightarrow> cstring option) \<Rightarrow> (cstring \<Rightarrow> fnode) \<Rightarrow> routes \<Rightarrow> pktdesc \<Rightarrow> pktdesc option" where
  "route_desc hub left_behind rt desc =
     (case (if d_type desc = TYPE_NETMAIL then mkroute_loop hub left_behind (rt_mkroute rt) desc else Some (False, desc)) of
        None \<Rightarrow> None
      | Some (True, desc) \<Rightarrow> Some desc
      | Some (False, desc) \<Rightarrow> Some (snd (routing_loop (rt_routing rt) desc)))"

subsection \<open>The first command that applies\<close>

definition plain_node :: "fnode \<Rightarrow> bool" where
  "plain_node nd \<longleftrightarrow> {zone nd, net nd, node nd, point nd} \<inter> {EMPTY, WILDCARD} = {}"

lemma set_values_plain: "plain_node nd \<Longrightarrow> set_values nd = nd"
  by (simp add: plain_node_def set_values_def no_wild_def)

lemma plain_set_values [simp]: "plain_node (set_values nd)"
  by (simp add: plain_node_def set_values_def no_wild_def)

lemma plain_point_zero: "plain_node nd \<Longrightarrow> plain_node (nd\<lparr>point := 0\<rparr>)"
  by (simp add: plain_node_def)

definition applicable :: "pktdesc \<Rightarrow> routing \<Rightarrow> bool" where
  "applicable desc r \<longleftrightarrow>
     d_type desc = r_type r \<and> (\<exists>p \<in> set (lnodes (r_nodes r)). node_match (d_to desc) p) \<and>
     (if r_cmd r = CMD_SEND \<or> r_cmd r = CMD_SENDMOVE \<or> r_cmd r = CMD_ROUTE then d_flav desc = FLAV_NORMAL
      else r_cmd r = CMD_CHANGE \<and> d_flav desc = r_flav r)"

text \<open>What a command makes of a packet; \<open>send\<close> with a pattern without a point goes to the boss node.\<close>

definition routed :: "pktdesc \<Rightarrow> routing \<Rightarrow> pktdesc" where
  "routed desc r =
     (if r_cmd r = CMD_ROUTE then desc\<lparr>d_flav := r_flav r, d_to := set_values (hd (lnodes (r_nodes r))), d_move := False\<rparr>
      else if r_cmd r = CMD_SENDMOVE then desc\<lparr>d_flav := r_flav r, d_move := True\<rparr>
      else if r_cmd r = CMD_CHANGE then desc\<lparr>d_flav := r_flav_new r, d_move := False\<rparr>
      else if point (the (List.find (node_match (d_to desc)) (lnodes (r_nodes r)))) = EMPTY
        then desc\<lparr>d_flav := r_flav r, d_move := False, d_to := (d_to desc)\<lparr>point := 0\<rparr>\<rparr>
      else desc\<lparr>d_flav := r_flav r, d_move := False\<rparr>)"

lemma pktdesc_same_to [simp]: "desc\<lparr>d_to := d_to desc\<rparr> = (desc :: pktdesc)"
  by simp

lemma do_cmd_no:
  assumes "plain_node (d_to desc)" "d_type desc = r_type r" "List.find (node_match (d_to desc)) (lnodes (r_nodes r)) = Some m"
    and "\<not> applicable desc r"
  shows "do_cmd desc r m = (False, desc)"
proof -
  have "\<exists>p \<in> set (lnodes (r_nodes r)). node_match (d_to desc) p" using find_Some_in [OF assms(3)] by blast
  then show ?thesis
    using assms(2,4) by (auto simp: do_cmd_def applicable_def set_values_plain [OF assms(1)])
qed

lemma do_cmd_yes:
  assumes "plain_node (d_to desc)" "List.find (node_match (d_to desc)) (lnodes (r_nodes r)) = Some m" "applicable desc r"
  shows "do_cmd desc r m = (True, routed desc r)"
proof -
  note v = set_values_plain [OF assms(1)] set_values_plain [OF plain_point_zero [OF assms(1)]]
  consider "r_cmd r = CMD_SEND" "d_flav desc = FLAV_NORMAL" | "r_cmd r = CMD_SENDMOVE" "d_flav desc = FLAV_NORMAL"
    | "r_cmd r = CMD_ROUTE" "d_flav desc = FLAV_NORMAL" | "r_cmd r = CMD_CHANGE" "d_flav desc = r_flav r"
    using assms(3) [unfolded applicable_def, THEN conjunct2, THEN conjunct2] by metis
  then show ?thesis
  proof cases
    case 1
    then show ?thesis by (simp add: do_cmd_def routed_def assms(2) v)
  next
    case 2
    then show ?thesis by (simp add: do_cmd_def routed_def v)
  next
    case 3
    then show ?thesis by (simp add: do_cmd_def routed_def)
  next
    case 4
    then show ?thesis by (simp add: do_cmd_def routed_def v)
  qed
qed

lemma plain_routed: "plain_node (d_to desc) \<Longrightarrow> plain_node (d_to (routed desc r))"
  by (simp add: routed_def plain_point_zero)

text \<open>
  C26. The routing commands act as a first-match table: the packet goes where the first command
  sends it whose type, node patterns and flavour fit, later commands have no effect, and the
  destination has no wildcard left.
\<close>

theorem routing_first_match:
  assumes "plain_node (d_to desc)"
  shows "routing_loop rs desc =
      (case List.find (applicable desc) rs of None \<Rightarrow> (False, desc) | Some r \<Rightarrow> (True, routed desc r)) \<and>
    plain_node (d_to (snd (routing_loop rs desc)))"
proof (induction rs)
  case Nil
  then show ?case using assms by simp
next
  case (Cons r rs)
  show ?case
  proof (cases "applicable desc r")
    case True
    then obtain m where "List.find (node_match (d_to desc)) (lnodes (r_nodes r)) = Some m"
      by (cases "List.find (node_match (d_to desc)) (lnodes (r_nodes r))") (auto simp: find_None_all applicable_def)
    from do_cmd_yes [OF assms this True] this show ?thesis
      using True plain_routed [OF assms, of r] by (simp add: applicable_def)
  next
    case False
    have e: "routing_loop (r # rs) desc = routing_loop rs desc"
    proof (cases "List.find (node_match (d_to desc)) (lnodes (r_nodes r))")
      case None
      then show ?thesis by simp
    next
      case (Some m)
      show ?thesis
      proof (cases "d_type desc = r_type r")
        case True
        from do_cmd_no [OF assms True Some False] Some show ?thesis by simp
      qed simp
    qed
    have f: "List.find (applicable desc) (r # rs) = List.find (applicable desc) rs" using False by simp
    show ?thesis unfolding e f by (rule Cons.IH)
  qed
qed

lemma plain_routing_loop: "plain_node (d_to desc) \<Longrightarrow> plain_node (d_to (snd (routing_loop rs desc)))"
proof (induction rs arbitrary: desc)
  case (Cons r rs)
  show ?case
  proof (cases "List.find (\<lambda>p. node_match (d_to desc) p) (lnodes (r_nodes r))")
    case None
    then show ?thesis using Cons by simp
  next
    case (Some m)
    obtain b d1 where d1: "do_cmd desc r m = (b, d1)" by fastforce
    then have "plain_node (d_to d1)" by (auto simp: do_cmd_def split: if_splits)
    then show ?thesis using Some d1 Cons by (cases b) auto
  qed
qed simp

theorem routing_first_match_witness:
  "routing_loop [] \<lparr>d_from = mk_node 2 5020 1 0, d_to = mk_node 2 5020 2 0, d_grade = CHR ''n'', d_type = CHR ''n'',
      d_flav = CHR ''n'', d_move = False\<rparr> =
    (False, \<lparr>d_from = mk_node 2 5020 1 0, d_to = mk_node 2 5020 2 0, d_grade = CHR ''n'', d_type = CHR ''n'',
      d_flav = CHR ''n'', d_move = False\<rparr>)"
  using routing_first_match [of "\<lparr>d_from = mk_node 2 5020 1 0, d_to = mk_node 2 5020 2 0, d_grade = CHR ''n'',
      d_type = CHR ''n'', d_flav = CHR ''n'', d_move = False\<rparr>" "[]"]
  by (simp add: plain_node_def)

subsection \<open>What routing leaves alone\<close>

definition same_packet :: "pktdesc \<Rightarrow> pktdesc \<Rightarrow> bool" where
  "same_packet a b \<longleftrightarrow> d_from a = d_from b \<and> d_grade a = d_grade b \<and> d_type a = d_type b"

lemma do_cmd_same: "do_cmd desc r m = (b, desc') \<Longrightarrow> same_packet desc' desc"
  by (auto simp: do_cmd_def same_packet_def split: if_splits)

lemma routing_loop_same: "same_packet (snd (routing_loop rs desc)) desc"
proof (induction rs arbitrary: desc)
  case (Cons r rs)
  show ?case
  proof (cases "List.find (\<lambda>p. node_match (d_to desc) p) (lnodes (r_nodes r))")
    case None
    then show ?thesis using Cons by simp
  next
    case (Some m)
    obtain b d1 where d1: "do_cmd desc r m = (b, d1)" by fastforce
    have "same_packet d1 desc" by (rule do_cmd_same [OF d1])
    moreover have "same_packet (snd (routing_loop rs d1)) d1" "same_packet (snd (routing_loop rs desc)) desc"
      by (rule Cons)+
    ultimately show ?thesis using Some d1 by (cases b) (auto simp: same_packet_def)
  qed
qed (simp add: same_packet_def)

lemma mkroute_same:
  "do_cmd_mkroute hub left_behind desc r = Some (b, desc') \<Longrightarrow> same_packet desc' desc \<and> plain_node (d_to desc')"
  by (auto simp: do_cmd_mkroute_def same_packet_def Let_def split: if_splits option.splits)

lemma mkroute_loop_same:
  "plain_node (d_to desc) \<Longrightarrow> mkroute_loop hub left_behind rs desc = Some (b, desc') \<Longrightarrow>
     same_packet desc' desc \<and> plain_node (d_to desc')"
proof (induction rs arbitrary: desc)
  case (Cons r rs)
  obtain b1 d1 where d1: "do_cmd_mkroute hub left_behind desc r = Some (b1, d1)"
    using Cons.prems(2) by (auto split: option.splits)
  have s1: "same_packet d1 desc \<and> plain_node (d_to d1)" by (rule mkroute_same [OF d1])
  show ?case
  proof (cases b1)
    case True
    then show ?thesis using Cons.prems(2) d1 s1 by simp
  next
    case False
    then have "mkroute_loop hub left_behind rs d1 = Some (b, desc')" using Cons.prems(2) d1 by simp
    from Cons.IH [OF _ this] s1 show ?thesis by (simp add: same_packet_def)
  qed
qed (simp add: same_packet_def)

text \<open>
  Whatever the routing tables are, routing a packet changes neither its source address nor
  its grade and type, and the destination it gets is an address without wildcards.
\<close>

theorem route_desc_target:
  assumes "plain_node (d_to desc)" "route_desc hub left_behind rt desc = Some desc'"
  shows "plain_node (d_to desc') \<and> d_from desc' = d_from desc \<and> d_grade desc' = d_grade desc \<and> d_type desc' = d_type desc"
proof -
  obtain b d1 where d1: "(if d_type desc = TYPE_NETMAIL then mkroute_loop hub left_behind (rt_mkroute rt) desc
      else Some (False, desc)) = Some (b, d1)"
    using assms(2) by (auto simp: route_desc_def split: option.splits)
  then have s1: "same_packet d1 desc \<and> plain_node (d_to d1)"
    using mkroute_loop_same [OF assms(1)] assms(1) by (auto simp: same_packet_def split: if_splits)
  have "desc' = (if b then d1 else snd (routing_loop (rt_routing rt) d1))"
    using assms(2) unfolding route_desc_def d1 by (cases b) simp_all
  moreover have "plain_node (d_to (snd (routing_loop (rt_routing rt) d1)))"
    using plain_routing_loop s1 by blast
  ultimately show ?thesis using s1 routing_loop_same [of "rt_routing rt" d1] by (auto simp: same_packet_def)
qed

text \<open>A table with one command for every packet of the zone.\<close>

definition sample_routes :: routes where
  "sample_routes = routes_start\<lparr>rt_routing := [\<lparr>r_type = TYPE_NETMAIL, r_cmd = CMD_ROUTE, r_flav = FLAV_CRASH,
     r_flav_new = FLAV_NONE, r_nodes = \<lparr>lsize = 1, lnodes = [mk_node 2 5020 (-2) (-2)]\<rparr>\<rparr>]\<rparr>"

definition sample_desc :: pktdesc where
  "sample_desc = \<lparr>d_from = mk_node 2 5020 1 0, d_to = mk_node 2 5020 2 7, d_grade = CHR ''n'', d_type = CHR ''n'',
     d_flav = CHR ''n'', d_move = False\<rparr>"

theorem route_desc_target_witness:
  "\<exists>desc'. route_desc (\<lambda>_. None) (\<lambda>_. mk_node 0 0 0 0) sample_routes sample_desc = Some desc' \<and>
     plain_node (d_to desc') \<and> d_to desc' = mk_node 2 5020 0 0"
proof -
  have r: "route_desc (\<lambda>_. None) (\<lambda>_. mk_node 0 0 0 0) sample_routes sample_desc =
      Some (sample_desc\<lparr>d_flav := FLAV_CRASH, d_to := mk_node 2 5020 0 0\<rparr>)"
    by (simp add: route_desc_def sample_routes_def sample_desc_def routes_start_def do_cmd_def node_match_def
        set_values_def no_wild_def mk_node_def)
  from route_desc_target [OF _ this] show ?thesis
    using r by (simp add: sample_desc_def plain_node_def)
qed

subsection \<open>hubroute\<close>

text \<open>
  C27. With the records hubroute_write stores, a hubroute command counts as done but leaves the
  destination of the packet as it is: the record is parsed up to its mode number only and the
  result test is inverted.
\<close>

theorem hubroute_keeps_address:
  assumes "mk_cmd r = CMD_HUBROUTE" "plain_node (d_to desc)"
    and "lon_search_wild (mk_links r) (d_to desc)"
    and "hub (znfp1 (d_to desc)) = Some (dec mode @ CHR ''$'' # address)" "ftn_num mode"
  shows "do_cmd_mkroute hub left_behind desc r = Some (True, desc\<lparr>d_move := False\<rparr>)"
proof -
  let ?delim = "\<lambda>c. c = CHR '' '' \<or> c = CHR ''$''"
  have m: "0 \<le> mode" using assms(5) by (simp add: ftn_num_def)
  have digits: "\<forall>c \<in> set (dec mode). \<not> ?delim c"
    using dec_digits_all [OF m] by (auto simp: is_digit_def code_def)
  have none: "takeWhile ?delim (dec mode @ CHR ''$'' # address) = []" "dropWhile ?delim (dec mode @ CHR ''$'' # address)
      = dec mode @ CHR ''$'' # address"
    using digits by (cases "dec mode"; simp)+
  have word: "takeWhile (\<lambda>c. \<not> ?delim c) (dec mode @ CHR ''$'' # address) = dec mode"
    by (rule takeWhile_append_stop) (use digits in auto)
  have parsed: "znfp_parse_partial (dec mode) \<noteq> None"
    using parse_node [of mode None "[]"] assms(5) by (simp add: tail_text_def)
  show ?thesis
    unfolding do_cmd_mkroute_def
    using assms parsed by (auto simp add: none word set_values_plain Let_def simp del: de_Morgan_disj)
qed

subsection \<open>From the line to the packet\<close>

text \<open>A written address is read as the pattern of the node and, without a point, of all its points.\<close>

definition pattern :: "int \<Rightarrow> fnode \<Rightarrow> fnode" where
  "pattern z n =
     (if zone n = -1 then zone_only z
      else mk_node (zone n) (net n) (node n) (if point n = 0 then EMPTY else point n))"

lemma parse_addr_diff:
  assumes "node_fits old n"
  shows "parse_addr (node_to_asc_diff n old) (pattern z old) = Some (pattern z n)"
proof -
  have n: "valid_node n" "zone n \<noteq> -1" using assms valid_node_parts by (auto simp: node_fits_def)
  note v = valid_node_parts [OF n(1)]
  define pt where "pt = tail_text (if point n = 0 then None else Some (point n)) []"
  have pt: "(if point n \<noteq> 0 then ''.'' @ dec (point n) else []) = pt" by (simp add: pt_def tail_text_def)
  have pat: "pattern z n = mk_node (zone n) (net n) (node n) (if point n = 0 then EMPTY else point n)"
    using n by (simp add: pattern_def)
  show ?thesis
  proof (cases "zone n = zone old")
    case False
    then have "node_to_asc_diff n old = dec (zone n) @ CHR '':'' # dec (net n) @ CHR ''/'' # dec (node n) @ pt"
      by (simp add: node_to_asc_diff_def pt_def tail_text_def)
    then show ?thesis
      using v n by (auto simp: parse_addr_def znfp_parse_diff_def pt_def parse_zone with_tail_def pat mk_node_def)
  next
    case True
    then have old: "valid_node old" "zone old \<noteq> -1" "\<not> (node_np_eq n old \<and> point n = 0)"
      using assms n by (auto simp: node_fits_def)
    have o: "zone (pattern z old) = zone old" "net (pattern z old) = net old" "node (pattern z old) = node old"
      using old by (simp_all add: pattern_def)
    show ?thesis
    proof (cases "node_np_eq n old")
      case True
      then have "node_to_asc_diff n old = tail_text (Some (point n)) []" "point n \<noteq> 0"
        using old by (auto simp: node_to_asc_diff_def node_np_eq_def tail_text_def)
      then show ?thesis
        using True v by (auto simp: parse_addr_def znfp_parse_diff_def parse_point with_tail_def node_np_eq_def o pat mk_node_def)
    next
      case False
      then show ?thesis
        unfolding node_to_asc_diff_def pt Let_def using v \<open>zone n = zone old\<close>
        by (auto simp: parse_addr_def znfp_parse_diff_def parse_net parse_node with_tail_def node_np_eq_def mk_node_def pt_def
            o pat)
    qed
  qed
qed

interpretation pat: diff_codec node_to_asc_diff parse_addr "pattern z" node_fits "[ch_sp, ch_tab, ch_cr, ch_lf, CHR '','']"
  for z
  by unfold_locales (use parse_addr_diff nd.enc_word in auto)

lemma node_list_all:
  assumes "fits_all node_fits old ns"
  shows "lnodes (node_list l (pattern z old) (enc_all node_to_asc_diff old ns)) = lnodes l @ map (pattern z) ns"
  using assms by (induction ns arbitrary: l old) (simp_all add: pat.dec_enc)

lemma asc_diff_digits:
  assumes "valid_node n" "c \<in> set (node_to_asc_diff n old)"
  shows "is_digit c \<or> c \<in> {CHR '':'', CHR ''/'', CHR ''.''}"
proof -
  have "0 \<le> zone n" "0 \<le> net n" "0 \<le> node n" "0 \<le> point n"
    using assms(1) by (auto simp: valid_node_def ftn_num_def)
  moreover have "0 \<le> v \<Longrightarrow> c \<in> set (dec v) \<Longrightarrow> is_digit c" for v using dec_digits_all by blast
  ultimately show ?thesis using assms(2) by (auto simp: node_to_asc_diff_def Let_def split: if_splits)
qed

lemma enc_words:
  assumes "fits_all node_fits old ns" "w \<in> set (enc_all node_to_asc_diff old ns)"
  shows "w \<noteq> [] \<and> (\<forall>c \<in> set w. is_digit c \<or> c \<in> {CHR '':'', CHR ''/'', CHR ''.''})"
  using assms
proof (induction ns arbitrary: old)
  case (Cons n ns)
  then have "node_fits old n" by simp
  then have "valid_node n" "node_to_asc_diff n old \<noteq> []" using nd.enc_word by (auto simp: node_fits_def)
  then show ?case using Cons asc_diff_digits [of n _ old] by auto
qed simp

lemma match_pattern:
  assumes "valid_node n" "node_np_eq x n" "point n = 0 \<or> point x = point n"
  shows "node_match x (pattern z n)"
  using assms valid_node_parts [OF assms(1)] by (auto simp: node_match_def pattern_def node_np_eq_def)

lemma fits_all_valid: "fits_all node_fits old ns \<Longrightarrow> x \<in> set ns \<Longrightarrow> valid_node x"
  by (induction ns arbitrary: old) (auto simp: node_fits_def)

lemma first_match_single: "plain_node (d_to desc) \<Longrightarrow> applicable desc r \<Longrightarrow> routing_loop [r] desc = (True, routed desc r)"
proof -
  assume a: "plain_node (d_to desc)" "applicable desc r"
  then obtain m where m: "List.find (node_match (d_to desc)) (lnodes (r_nodes r)) = Some m"
    by (cases "List.find (node_match (d_to desc)) (lnodes (r_nodes r))") (auto simp: find_None_all applicable_def)
  have "d_type desc = r_type r" using a(2) by (simp add: applicable_def)
  then show ?thesis using do_cmd_yes [OF a(1) m a(2)] m by simp
qed

text \<open>A line of words, each followed by a blank.\<close>

definition blank_line :: "cstring list \<Rightarrow> cstring" where
  "blank_line ws = concat (map (\<lambda>w. w @ [ch_sp]) ws)"

definition line_word :: "cstring \<Rightarrow> bool" where
  "line_word w \<longleftrightarrow> w \<noteq> [] \<and> set w \<inter> {ch_sp, ch_tab, ch_lf, ch_cr, ch_nul, ch_dquote, CHR 0x0B, CHR 0x0C} = {}"

lemma tokens_blank_line: "\<forall>w \<in> set ws. line_word w \<Longrightarrow> tokens ch_dquote WS (blank_line ws) = ws"
proof (induction ws)
  case (Cons w ws)
  then have w: "w \<noteq> []" "set w \<inter> set WS = {}" "hd w \<noteq> ch_dquote" by (cases w; auto simp: line_word_def WS_def)+
  have "tokens ch_dquote WS (w @ ch_sp # blank_line ws) = w # tokens ch_dquote WS (blank_line ws)"
    by (rule tokens_written [OF written.plain [OF w]]) (simp_all add: WS_def)
  then show ?case using Cons by (simp add: blank_line_def)
qed (simp add: blank_line_def tokens_Nil)

lemma cf_lines_blank_line:
  assumes "\<forall>w \<in> set ws. line_word w" "ws = v # vs" "hd v \<noteq> CHR ''#''" "\<not> is_space (hd v)"
    and "length (blank_line ws) + 1 < n"
  shows "cf_lines n (blank_line ws @ [ch_lf]) = [blank_line ws]"
proof -
  have chars: "ch_lf \<notin> set (blank_line ws)" "no_nul (blank_line ws)"
    using assms(1) by (auto simp: blank_line_def line_word_def no_nul_def)
  obtain c u where v: "v = c # u" using assms(1,2) by (cases v) (auto simp: line_word_def)
  then have c: "blank_line ws = c # u @ ch_sp # blank_line vs" using assms(2) by (simp add: blank_line_def)
  have "last (blank_line ws) = ch_sp"
    by (cases ws rule: rev_cases) (simp_all add: blank_line_def assms(2))
  then have "chomp (blank_line ws @ [ch_lf]) = blank_line ws" by (simp add: chomp_def)
  then have "cf_line (blank_line ws @ [ch_lf]) = [blank_line ws]"
    using assms(3,4) v by (simp add: cf_line_def c)
  then show ?thesis using cf_lines_line [OF chars assms(5), of "[]"] by simp
qed

lemma digit_line_word:
  assumes "w \<noteq> []" "\<forall>c \<in> set w. is_digit c \<or> c \<in> {CHR '':'', CHR ''/'', CHR ''.''}"
  shows "line_word w"
proof -
  have "\<not> (is_digit c \<or> c \<in> {CHR '':'', CHR ''/'', CHR ''.''})"
    if "c \<in> {ch_sp, ch_tab, ch_lf, ch_cr, ch_nul, ch_dquote, CHR 0x0B, CHR 0x0C}" for c
    using that by (auto simp: is_digit_def code_def)
  then show ?thesis using assms unfolding line_word_def by blast
qed

abbreviation flav_words :: "cstring list" where
  "flav_words \<equiv> [''normal'', ''hold'', ''crash'', ''direct'']"

lemma parse_flav_words:
  "parse_flav ''normal'' = Some FLAV_NORMAL" "parse_flav ''hold'' = Some FLAV_HOLD"
  "parse_flav ''crash'' = Some FLAV_CRASH" "parse_flav ''direct'' = Some FLAV_DIRECT"
  by (simp_all add: parse_flav_def stricmp_zero strieq_def tolower_def isupper_def code_def)

lemma parse_flav_word: "fw \<in> set flav_words \<Longrightarrow> parse_flav fw = Some (hd fw) \<and> line_word fw"
  by (elim list.set_cases [of fw flav_words]; auto simp: parse_flav_words line_word_def)

lemma route_word:
  "parse_cmd ''route'' = Some CMD_ROUTE" "line_word ''route''" "\<not> strieq ''route'' ''include''"
  by (simp_all add: parse_cmd_def line_word_def stricmp_zero strieq_def tolower_def isupper_def code_def)

text \<open>The words of a route line, and the entry it makes.\<close>

definition route_words :: "cstring \<Rightarrow> fnode list \<Rightarrow> cstring list" where
  "route_words fw ns = ''route'' # fw # enc_all node_to_asc_diff no_node ns"

lemma route_words_ok:
  assumes "fits_all node_fits no_node ns" "fw \<in> set flav_words"
  shows "\<forall>w \<in> set (route_words fw ns). line_word w"
  using route_word(2) parse_flav_word [OF assms(2)] enc_words [OF assms(1)] digit_line_word
  by (auto simp: route_words_def)

lemma pattern_no_node: "pattern z no_node = zone_only z"
  by (simp add: pattern_def)

lemma route_line_entry:
  assumes "fits_all node_fits no_node ns" "ns \<noteq> []" "fw \<in> set flav_words"
  obtains l where "routing_do_line z (blank_line (route_words fw ns)) routes_start =
      (routes_start\<lparr>rt_routing := [\<lparr>r_type = TYPE_NETMAIL, r_cmd = CMD_ROUTE, r_flav = hd fw, r_flav_new = FLAV_NONE,
         r_nodes = l\<rparr>]\<rparr>, None)" "lnodes l = map (pattern z) ns"
proof -
  let ?args = "enc_all node_to_asc_diff no_node ns"
  have toks: "tokens ch_dquote WS (blank_line (route_words fw ns)) = route_words fw ns"
    by (rule tokens_blank_line [OF route_words_ok [OF assms(1,3)]])
  have "lnodes (node_list lon_init (zone_only z) ?args) = map (pattern z) ns"
    using node_list_all [OF assms(1), of lon_init z] by (simp add: pattern_no_node)
  moreover obtain a as where "?args = a # as" using assms(2) by (cases ns) auto
  then have "routing_entry z TYPE_NETMAIL CMD_ROUTE (fw # ?args) = Some \<lparr>r_type = TYPE_NETMAIL, r_cmd = CMD_ROUTE,
      r_flav = hd fw, r_flav_new = FLAV_NONE, r_nodes = node_list lon_init (zone_only z) ?args\<rparr>"
    using parse_flav_word [OF assms(3)] by (simp add: routing_entry_def)
  then have "routing_do_line z (blank_line (route_words fw ns)) routes_start =
      (routes_start\<lparr>rt_routing := [\<lparr>r_type = TYPE_NETMAIL, r_cmd = CMD_ROUTE, r_flav = hd fw, r_flav_new = FLAV_NONE,
         r_nodes = node_list lon_init (zone_only z) ?args\<rparr>]\<rparr>, None)"
    unfolding routing_do_line_def toks by (simp add: route_words_def route_word routes_start_def)
  ultimately show ?thesis by (rule that [rotated])
qed

text \<open>
  C25. A routing file with one line route FLAVOUR HUB NODE ... sends every normal netmail packet
  for a listed address, or for a point of a node listed without a point, to the hub with that
  flavour, and changes nothing else of the packet.
\<close>

theorem route_line_routes:
  assumes "fits_all node_fits no_node (hub # ns)" "fw \<in> set flav_words"
    and "files name = Some (blank_line (route_words fw (hub # ns)) @ [ch_lf])"
    and "length (blank_line (route_words fw (hub # ns))) + 1 < BUFFERSIZE"
    and "d_type desc = TYPE_NETMAIL" "d_flav desc = FLAV_NORMAL" "plain_node (d_to desc)"
    and "n \<in> set (hub # ns)" "node_np_eq (d_to desc) n" "point n = 0 \<or> point (d_to desc) = point n"
  shows "\<exists>rt. routing_do_file 0 files z name routes_start = Some rt \<and>
    route_desc hubdb left_behind rt desc =
      Some (desc\<lparr>d_to := mk_node (zone hub) (net hub) (node hub) (point hub), d_flav := hd fw, d_move := False\<rparr>)"
proof -
  let ?ws = "route_words fw (hub # ns)"
  obtain l where e: "routing_do_line z (blank_line ?ws) routes_start =
      (routes_start\<lparr>rt_routing := [\<lparr>r_type = TYPE_NETMAIL, r_cmd = CMD_ROUTE, r_flav = hd fw, r_flav_new = FLAV_NONE,
         r_nodes = l\<rparr>]\<rparr>, None)" and l: "lnodes l = map (pattern z) (hub # ns)"
    using route_line_entry [OF assms(1) _ assms(2)] by blast
  define r where "r = \<lparr>r_type = TYPE_NETMAIL, r_cmd = CMD_ROUTE, r_flav = hd fw, r_flav_new = FLAV_NONE, r_nodes = l\<rparr>"
  let ?rt = "routes_start\<lparr>rt_routing := [r]\<rparr>"
  have lines: "cf_lines BUFFERSIZE (blank_line ?ws @ [ch_lf]) = [blank_line ?ws]"
    by (rule cf_lines_blank_line [OF route_words_ok [OF assms(1,2)] route_words_def])
      (use assms(4) in \<open>simp_all add: is_space_def\<close>)
  have read: "routing_do_file 0 files z name routes_start = Some ?rt"
    using e by (simp add: routing_do_file_def routing_open_def assms(3) lines nested_line r_def)
  have valid: "valid_node x" if "x \<in> set (hub # ns)" for x
    using assms(1) that fits_all_valid by blast
  have "\<exists>p \<in> set (lnodes l). node_match (d_to desc) p"
    using match_pattern [OF valid [OF assms(8)] assms(9,10)] assms(8) by (auto simp: l)
  then have app: "applicable desc r" using assms(5,6) by (simp add: applicable_def r_def)
  have hub: "set_values (pattern z hub) = mk_node (zone hub) (net hub) (node hub) (point hub)"
    using valid [of hub, unfolded valid_node_def] ftn_num_not_special [of "zone hub"] ftn_num_not_special [of "net hub"]
      ftn_num_not_special [of "node hub"] ftn_num_not_special [of "point hub"]
    by (simp add: pattern_def set_values_def no_wild_def mk_node_def)
  have "routing_loop [r] desc = (True, routed desc r)"
    using first_match_single [OF assms(7) app] .
  also have "routed desc r = desc\<lparr>d_to := mk_node (zone hub) (net hub) (node hub) (point hub), d_flav := hd fw, d_move := False\<rparr>"
    by (simp add: routed_def r_def l hub)
  finally have "route_desc hubdb left_behind ?rt desc =
      Some (desc\<lparr>d_to := mk_node (zone hub) (net hub) (node hub) (point hub), d_flav := hd fw, d_move := False\<rparr>)"
    by (simp add: route_desc_def routes_start_def del: routing_loop.simps)
  then show ?thesis using read by blast
qed

theorem route_line_routes_witness:
  "\<exists>rt. routing_do_file 0 [''routing'' \<mapsto> blank_line (route_words ''crash'' [mk_node 2 5020 1 0, mk_node 2 5020 2 0]) @ [ch_lf]]
       2 ''routing'' routes_start = Some rt \<and>
     route_desc (\<lambda>_. None) (\<lambda>_. mk_node 0 0 0 0) rt sample_desc =
       Some (sample_desc\<lparr>d_to := mk_node 2 5020 1 0, d_flav := CHR ''c'', d_move := False\<rparr>)"
proof -
  have fits: "fits_all node_fits no_node [mk_node 2 5020 1 0, mk_node 2 5020 2 0]"
    by (simp add: node_fits_def valid_node_def ftn_num_def node_np_eq_def)
  show ?thesis
    using route_line_routes [of "mk_node 2 5020 1 0" "[mk_node 2 5020 2 0]" "''crash''"
        "[''routing'' \<mapsto> blank_line (route_words ''crash'' [mk_node 2 5020 1 0, mk_node 2 5020 2 0]) @ [ch_lf]]"
        "''routing''" sample_desc "mk_node 2 5020 2 0" 2 "\<lambda>_. None" "\<lambda>_. mk_node 0 0 0 0"] fits
    by (simp add: sample_desc_def plain_node_def node_np_eq_def BUFFERSIZE_def blank_line_def route_words_def
        node_to_asc_diff_def dec_eval)
qed

theorem hubroute_keeps_address_witness:
  "do_cmd_mkroute (\<lambda>_. Some (dec 5 @ CHR ''$'' # ''2:5020/1'')) (\<lambda>_. mk_node 0 0 0 0) sample_desc
      \<lparr>mk_uplink = mk_node 0 0 0 0, mk_links = \<lparr>lsize = 1, lnodes = [mk_node 2 5020 2 7]\<rparr>, mk_cmd = CMD_HUBROUTE,
       mk_flav = CHR ''n''\<rparr> = Some (True, sample_desc\<lparr>d_move := False\<rparr>)"
  by (rule hubroute_keeps_address [where mode = 5 and address = "''2:5020/1''"])
    (simp_all add: sample_desc_def plain_node_def lon_search_wild_def node_match_def ftn_num_def)

text \<open>
  The nodes of \<open>hostroute\<close>, \<open>hubroute\<close>, \<open>bossroute\<close> and \<open>xroute\<close> are read with \<open>lon_add_string\<close>, which takes
  no wildcards: a pattern with one is left out.
\<close>

lemma mk_route_drops_wildcards: "mk_links_of 2 [''2:5020/*''] = lon_init"
proof -
  have t: "tokens ch_nul DELIM_WS ''2:5020/*'' = [''2:5020/*'']"
    by (rule tokens_word(1)) (simp_all add: DELIM_WS_def)
  have "asc_to_node_diff ''2:5020/*'' old old = (False, snd (asc_to_node_diff ''2:5020/*'' old old))" for old
    by (simp add: asc_to_node_diff_def znfp_parse_diff_def has_wildcard_def znfp_parse_partial_def parse_stage_def
        parse_end_def znfp_get_number_def parse_digits_def is_digit_def code_def c_int_def Let_def)
  then show ?thesis by (simp add: mk_links_of_def lon_add_string_def t) (metis (no_types, lifting) old.prod.case bool.case(2))
qed

end
