(* ===== verification/Message.thy ===== *)
theory Message
  imports Packet
begin

text \<open>
  Message bodies: \<open>src/common/message.c\<close>.  The line reader \<open>pkt_get_line\<close>, the parser
  \<open>pkt_get_body_parse\<close> that sorts the lines into the fields of a \<open>MsgBody\<close>, the writer
  \<open>msg_put_msgbody\<close>, and the addresses in Origin and MSGID lines.  A textlist is the list of its
  lines (theory Textlist justifies this).
\<close>

subsection \<open>Reading a line\<close>

text \<open>
  The loop of \<open>pkt_get_line\<close>: \<open>sz\<close>, the flag \<open>read_lf\<close>, the bytes stored so far and the file.
  The result is the return value, the bytes stored, whether the closing NUL was written, and the
  rest of the file.
\<close>

definition nonzero :: "char list \<Rightarrow> char list" where
  "nonzero cs = filter (\<lambda>c. c \<noteq> ch_nul) cs"

function get_line_loop :: "nat \<Rightarrow> bool \<Rightarrow> bytes \<Rightarrow> bytes \<Rightarrow> int \<times> bytes \<times> bool \<times> bytes" where
  "get_line_loop sz read_lf acc fp =
     (if sz \<le> 3 then (1, acc, True, fp)
      else case fp of
        [] \<Rightarrow> if read_lf then (1, acc, True, []) else (ERROR, acc, False, [])
      | c # fp' \<Rightarrow>
          if read_lf \<and> c \<noteq> ch_lf then (1, acc, True, c # fp')
          else if c = ch_nul then
            (case fp' of
               c1 # c2 # fp'' \<Rightarrow>
                 if c2 = ch_nul \<and> c1 = CHR 0x02 then (MSG_TYPE, acc, True, fp'')
                 else if c2 = ch_nul \<and> c1 = ch_nul then (MSG_END, acc, True, fp'')
                 else get_line_loop (sz - length (nonzero [c1, c2])) read_lf (acc @ nonzero [c1, c2]) fp''
             | _ \<Rightarrow> (ERROR, acc, False, []))
          else if c = CHR 0x02 then
            (case fp' of
               [] \<Rightarrow> (ERROR, acc, False, [])
             | c1 # fp'' \<Rightarrow>
                 if c1 = ch_nul then (MSG_TYPE, acc, True, fp'')
                 else get_line_loop (sz - 2) read_lf (acc @ [c, c1]) fp'')
          else get_line_loop (sz - 1) (read_lf \<or> c = ch_cr) (acc @ [c]) fp')"
  by pat_completeness auto
termination by (relation "measure (\<lambda>(sz, lf, acc, fp). length fp)") auto

declare get_line_loop.simps [simp del]

text \<open>The buffer keeps its old bytes behind what was stored.\<close>

definition overlay :: "bytes \<Rightarrow> cbuf \<Rightarrow> cbuf" where
  "overlay w b = w @ drop (length w) b"

definition pkt_get_line :: "bytes \<Rightarrow> cbuf \<Rightarrow> int \<times> cbuf \<times> bytes" where
  "pkt_get_line fp buf =
     (let (type, acc, closed, fp) = get_line_loop BUFFERSIZE False [] fp
      in (type, overlay (if closed then acc @ [ch_nul] else acc) buf, fp))"

abbreviation rest_of :: "int \<times> bytes \<times> bool \<times> bytes \<Rightarrow> bytes" where
  "rest_of r \<equiv> snd (snd (snd r))"

lemma get_line_loop_le: "length fp \<le> k \<Longrightarrow> length (rest_of (get_line_loop sz lf acc fp)) \<le> k"
proof (induction k arbitrary: sz lf acc fp)
  case 0
  then show ?case by (simp add: get_line_loop.simps)
next
  case (Suc k)
  then show ?case
    by (subst get_line_loop.simps) (auto split: list.splits intro!: le_SucI Suc.IH)
qed

lemma get_line_loop_progress:
  assumes "3 < sz" "length fp \<le> k"
  shows "length (rest_of (get_line_loop sz False acc (c # fp))) \<le> k"
  using assms
  by (subst get_line_loop.simps) (auto split: list.splits intro!: get_line_loop_le)

lemma pkt_get_line_progress:
  "pkt_get_line fp buf = (1, buf', fp') \<Longrightarrow> length fp' < length fp"
  using get_line_loop_progress [of BUFFERSIZE "tl fp" "length (tl fp)" "[]" "hd fp"]
  by (cases fp) (auto simp: pkt_get_line_def BUFFERSIZE_def get_line_loop.simps [of _ _ _ "[]"]
      split: prod.splits)

text \<open>
  The loop \<open>while ((type = pkt_get_line (fp, buffer, sizeof (buffer))) == 1)\<close> around a body that
  may return early: its final state (\<open>None\<close> for the early return), the last \<open>type\<close>, the buffer
  and the rest of the file.
\<close>

function line_loop :: "('s \<Rightarrow> cstring \<Rightarrow> 's option) \<Rightarrow> 's \<Rightarrow> cbuf \<Rightarrow> bytes
    \<Rightarrow> 's option \<times> int \<times> cbuf \<times> bytes" where
  "line_loop step st buf fp =
     (case pkt_get_line fp buf of (type, buf', fp') \<Rightarrow>
        if type = 1 then
          (case step st (cstr buf') of
             None \<Rightarrow> (None, type, buf', fp')
           | Some st' \<Rightarrow> line_loop step st' buf' fp')
        else (Some st, type, buf', fp'))"
  by pat_completeness auto
termination
  by (relation "measure (\<lambda>(step, st, buf, fp). length fp)") (auto dest: sym [THEN pkt_get_line_progress])

declare line_loop.simps [simp del]

text \<open>\<open>pkt_get_body\<close>: an incomplete last line is closed with CR LF.\<close>

definition pkt_get_body :: "bytes \<Rightarrow> cbuf \<Rightarrow> int \<times> cstring list \<times> cbuf \<times> bytes" where
  "pkt_get_body fp buf =
     (case line_loop (\<lambda>txl s. Some (txl @ [s])) [] buf fp of
        (txl, type, buf, fp) \<Rightarrow>
          (let txl = (case txl of None \<Rightarrow> [] | Some txl \<Rightarrow> txl) in
           if (type = MSG_END \<or> type = MSG_TYPE) \<and> cstr buf \<noteq> [] then
             (let l = take (BUFFERSIZE - 1) (cstr buf @ [ch_cr, ch_lf])
              in (type, txl @ [l], overlay (l @ [ch_nul]) buf, fp))
           else (type, txl, buf, fp)))"

subsection \<open>The message body\<close>

record msgbody =
  b_area :: "cstring option"
  kludge :: "cstring list"
  rfc :: "cstring list"
  body :: "cstring list"
  tear :: "cstring option"
  origin :: "cstring option"
  seenby :: "cstring list"
  path :: "cstring list"
  via :: "cstring list"

definition msg_body_init :: msgbody where
  "msg_body_init = \<lparr>b_area = None, kludge = [], rfc = [], body = [], tear = None, origin = None,
     seenby = [], path = [], via = []\<rparr>"

definition msg_body_clear :: "msgbody \<Rightarrow> msgbody" where
  "msg_body_clear b = msg_body_init"

definition FTN_RFC_HEADERS :: "cstring list" where
  "FTN_RFC_HEADERS =
     [''From:'', ''Reply-To:'', ''UUCPFROM:'', ''To:'', ''Cc:'', ''Bcc:'', ''Newsgroups:'', ''Sender:'',
      ''Content-Transfer-Encoding:'', ''Header-To:'', ''Header-Cc:'', ''Subject:'', ''User-Agent:'',
      ''X-Mailer:'', ''X-Newsreader:'', ''In-Reply-To:'', ''References:'']"

definition is_blank_line :: "cstring option \<Rightarrow> bool" where
  "is_blank_line s = (case s of None \<Rightarrow> True | Some s \<Rightarrow> list_all is_space s)"

datatype parse_mode = HI_KLUDGE | PARSE_BLANK | SEARCH_RFC | PARSE_BODY_NETMAIL | PARSE_BODY_ECHOMAIL

record parse_state =
  look_for_AREA :: bool
  parse_blank :: int
  do_flag :: parse_mode
  found_kludge :: bool
  found_origin :: bool
  found_tearline :: bool
  ret_ok :: bool
  p_body :: msgbody

definition parse_start :: parse_state where
  "parse_start = \<lparr>look_for_AREA = True, parse_blank = 3, do_flag = HI_KLUDGE, found_kludge = False,
     found_origin = False, found_tearline = False, ret_ok = False, p_body = msg_body_init\<rparr>"

definition is_tearline :: "cstring \<Rightarrow> bool" where
  "is_tearline s \<longleftrightarrow> starts_with s ''---'' \<and> (at s 3 = ch_sp \<or> at s 3 = ch_cr)"

definition is_originline :: "cstring \<Rightarrow> bool" where
  "is_originline s \<longleftrightarrow> starts_with s '' * Origin:''"

definition is_rfc_header :: "cstring \<Rightarrow> cstring \<Rightarrow> bool" where
  "is_rfc_header s h \<longleftrightarrow> strnicmp s h (length h) = 0"

definition add_body :: "parse_state \<Rightarrow> cstring list \<Rightarrow> parse_state" where
  "add_body st ls = st\<lparr>p_body := (p_body st)\<lparr>body := body (p_body st) @ ls\<rparr>\<rparr>"

text \<open>A text line: a tear or origin line held back before it turns out to be ordinary text.\<close>

definition parse_text_line :: "parse_state \<Rightarrow> cstring \<Rightarrow> parse_state" where
  "parse_text_line st s =
     (if \<not> found_kludge st \<and> \<not> found_origin st \<and> \<not> found_tearline st then add_body st [s]
      else if found_tearline st then
        (let st = add_body st [the (tear (p_body st)), s]
         in st\<lparr>p_body := (p_body st)\<lparr>tear := None\<rparr>, found_tearline := False\<rparr>)
      else if found_origin st then
        (let st = add_body st [the (origin (p_body st)), s]
         in st\<lparr>p_body := (p_body st)\<lparr>origin := None\<rparr>, found_origin := False\<rparr>)
      else st)"

definition parse_netmail_line :: "parse_state \<Rightarrow> cstring \<Rightarrow> parse_state" where
  "parse_netmail_line st s =
     (let b = p_body st in
      if is_tearline s \<and> tear b = None then
        st\<lparr>p_body := b\<lparr>tear := Some s\<rparr>, found_tearline := True\<rparr>
      else if is_originline s \<and> origin b = None then
        st\<lparr>p_body := b\<lparr>origin := Some s\<rparr>, found_origin := True\<rparr>
      else if starts_with s (ch_ctrl_a # ''Via'') \<or> starts_with s (ch_ctrl_a # ''Recd'') then
        st\<lparr>p_body := b\<lparr>via := via b @ [s]\<rparr>, found_kludge := True\<rparr>
      else parse_text_line st s)"

definition parse_echomail_line :: "parse_state \<Rightarrow> cstring \<Rightarrow> parse_state" where
  "parse_echomail_line st s =
     (let b = p_body st in
      if is_tearline s \<and> tear b = None then
        st\<lparr>p_body := b\<lparr>tear := Some s\<rparr>, found_tearline := True\<rparr>
      else if is_originline s \<and> origin b = None then
        st\<lparr>p_body := b\<lparr>origin := Some s\<rparr>, found_origin := True\<rparr>
      else if starts_with s (ch_ctrl_a # ''PATH'') then
        st\<lparr>p_body := b\<lparr>path := path b @ [s]\<rparr>, found_kludge := True\<rparr>
      else if starts_with s ''SEEN-BY'' then
        st\<lparr>p_body := b\<lparr>seenby := seenby b @ [s]\<rparr>, found_kludge := True\<rparr>
      else parse_text_line st s)"

definition parse_body_line :: "parse_state \<Rightarrow> cstring \<Rightarrow> parse_state" where
  "parse_body_line st s =
     (case do_flag st of
        PARSE_BODY_NETMAIL \<Rightarrow> parse_netmail_line st s
      | PARSE_BODY_ECHOMAIL \<Rightarrow> parse_echomail_line st s
      | _ \<Rightarrow> st)"

text \<open>
  The inner \<open>continue\<close> of the header search continues the search loop, so the line is added once
  per header it matches.
\<close>

definition parse_rfc_line :: "parse_state \<Rightarrow> cstring \<Rightarrow> parse_state" where
  "parse_rfc_line st s =
     (if do_flag st = SEARCH_RFC then
        (let hits = filter (is_rfc_header s) FTN_RFC_HEADERS; b = p_body st in
         if hits \<noteq> [] then st\<lparr>p_body := b\<lparr>rfc := rfc b @ map (\<lambda>_. s) hits\<rparr>\<rparr>
         else if b_area b \<noteq> None then parse_body_line (st\<lparr>do_flag := PARSE_BODY_ECHOMAIL\<rparr>) s
         else parse_body_line (st\<lparr>do_flag := PARSE_BODY_NETMAIL, ret_ok := True\<rparr>) s)
      else parse_body_line st s)"

definition parse_blank_line :: "parse_state \<Rightarrow> cstring \<Rightarrow> parse_state" where
  "parse_blank_line st s =
     (if do_flag st = PARSE_BLANK then
        (let st = st\<lparr>parse_blank := parse_blank st - 1\<rparr> in
         if \<not> is_blank_line (Some s) \<or> parse_blank st = 0
         then parse_rfc_line (st\<lparr>do_flag := SEARCH_RFC\<rparr>) s
         else st)
      else parse_rfc_line st s)"

text \<open>One round of the loop of \<open>pkt_get_body_parse\<close>; \<open>None\<close> is the \<open>return ERROR\<close>.\<close>

definition parse_line :: "parse_state \<Rightarrow> cstring \<Rightarrow> parse_state option" where
  "parse_line st s =
     (if do_flag st = HI_KLUDGE then
        (if peek s = ch_ctrl_a then
           Some (st\<lparr>p_body := (p_body st)\<lparr>kludge := kludge (p_body st) @ [s]\<rparr>, ret_ok := True\<rparr>)
         else if look_for_AREA st \<and> starts_with s ''AREA:'' then
           Some (st\<lparr>p_body := (p_body st)\<lparr>b_area := Some s\<rparr>, look_for_AREA := False, ret_ok := True\<rparr>)
         else if ret_ok st then Some (parse_blank_line (st\<lparr>do_flag := PARSE_BLANK\<rparr>) s)
         else None)
      else Some (parse_blank_line st s))"

text \<open>What is filled in for an echomail message after the loop.\<close>

definition parse_finish :: "fnode \<Rightarrow> cbuf \<Rightarrow> msgbody \<Rightarrow> msgbody" where
  "parse_finish to_node buf b =
     (if b_area b = None then b
      else
        (let b = (if tear b = None then b\<lparr>tear := Some (''---'' @ [ch_cr])\<rparr> else b);
             b = (if origin b = None then b\<lparr>origin := Some (cstr buf)\<rparr> else b);
             nn = dec (net to_node) @ ''/'' @ dec (node to_node);
             b = (if seenby b = [] then b\<lparr>seenby := [''SEEN-BY: '' @ nn]\<rparr> else b)
         in if path b = [] then b\<lparr>path := [ch_ctrl_a # ''PATH: '' @ nn]\<rparr> else b))"

text \<open>The result: \<open>ret == OK\<close>, the body and the rest of the file.\<close>

definition pkt_get_body_parse :: "bytes \<Rightarrow> cbuf \<Rightarrow> fnode \<Rightarrow> bool \<times> msgbody option \<times> bytes" where
  "pkt_get_body_parse fp buf to_node =
     (case line_loop parse_line parse_start buf fp of
        (None, _, _, fp) \<Rightarrow> (False, None, fp)
      | (Some st, type, buf, fp) \<Rightarrow> (ret_ok st, Some (parse_finish to_node buf (p_body st)), fp))"

definition opt_line :: "cstring option \<Rightarrow> cstring list" where
  "opt_line l = (case l of None \<Rightarrow> [] | Some s \<Rightarrow> [s])"

text \<open>\<open>msg_put_line\<close> writes nothing for NULL.\<close>

definition msg_put_line :: "cstring option \<Rightarrow> bytes" where
  "msg_put_line l = (case l of None \<Rightarrow> [] | Some s \<Rightarrow> s)"

definition msg_put_msgbody :: "msgbody \<Rightarrow> bytes" where
  "msg_put_msgbody b =
     msg_put_line (b_area b) @ concat (kludge b) @ concat (rfc b) @ concat (body b) @
     msg_put_line (tear b) @ msg_put_line (origin b) @ concat (seenby b) @ concat (path b) @
     concat (via b) @ [ch_nul]"

subsection \<open>Lines read back\<close>

definition text_line :: "cstring \<Rightarrow> bool" where
  "text_line l \<longleftrightarrow> l \<noteq> [] \<and> last l = ch_cr \<and>
     (\<forall>c \<in> set (butlast l). c \<notin> {ch_nul, CHR 0x02, ch_cr, ch_lf}) \<and> length l < BUFFERSIZE - 3"

lemma get_line_loop_char:
  "c \<notin> {ch_nul, CHR 0x02, ch_cr, ch_lf} \<Longrightarrow> 3 < sz \<Longrightarrow>
     get_line_loop sz False acc (c # fp) = get_line_loop (sz - 1) False (acc @ [c]) fp"
  by (subst get_line_loop.simps) simp

lemma get_line_loop_text:
  "\<forall>c \<in> set t. c \<notin> {ch_nul, CHR 0x02, ch_cr, ch_lf} \<Longrightarrow> length t + 3 < sz \<Longrightarrow>
     get_line_loop sz False acc (t @ fp) = get_line_loop (sz - length t) False (acc @ t) fp"
proof (induction t arbitrary: sz acc)
  case (Cons c t)
  have "get_line_loop sz False acc (c # t @ fp) = get_line_loop (sz - 1) False (acc @ [c]) (t @ fp)"
    by (rule get_line_loop_char) (use Cons.prems in auto)
  also have "\<dots> = get_line_loop (sz - 1 - length t) False ((acc @ [c]) @ t) fp"
    by (rule Cons.IH) (use Cons.prems in auto)
  finally show ?case by simp
qed simp

lemma pkt_get_line_text:
  assumes "text_line l" "fp = [] \<or> hd fp \<noteq> ch_lf"
  shows "pkt_get_line (l @ fp) buf = (1, overlay (l @ [ch_nul]) buf, fp)"
proof -
  obtain t where l: "l = t @ [ch_cr]"
    using assms(1) by (cases l rule: rev_cases) (simp_all add: text_line_def)
  have t1: "\<forall>c \<in> set t. c \<notin> {ch_nul, CHR 0x02, ch_cr, ch_lf}"
    using assms(1) unfolding text_line_def l butlast_snoc by blast
  have "length (t @ [ch_cr]) < BUFFERSIZE - 3" using assms(1) unfolding text_line_def l by blast
  then have t2: "length t + 4 < BUFFERSIZE" by (simp only: length_append list.size)
  note t = t1 t2
  have e: "get_line_loop sz True acc fp = (1, acc, True, fp)" for sz acc
    using assms(2) by (subst get_line_loop.simps) (cases fp; simp)
  have "get_line_loop BUFFERSIZE False [] (t @ ch_cr # fp)
      = get_line_loop (BUFFERSIZE - length t) False t (ch_cr # fp)"
    using get_line_loop_text [OF t(1), of BUFFERSIZE "[]" "ch_cr # fp"] t(2) by simp
  also have "\<dots> = (1, t @ [ch_cr], True, fp)"
    using t(2) by (subst get_line_loop.simps) (simp add: e)
  finally show ?thesis by (simp add: pkt_get_line_def l)
qed

lemma cstr_overlay: "no_nul l \<Longrightarrow> cstr (overlay (l @ [ch_nul]) buf) = l"
  by (simp add: overlay_def cstr_append)

lemma text_line_no_nul: "text_line l \<Longrightarrow> no_nul l"
  by (cases l rule: rev_cases) (auto simp: text_line_def no_nul_def)

lemma text_line_hd: "text_line l \<Longrightarrow> l \<noteq> [] \<and> hd l \<noteq> ch_lf"
  by (cases l) (auto simp: text_line_def split: if_splits)

fun steps :: "('s \<Rightarrow> cstring \<Rightarrow> 's option) \<Rightarrow> 's \<Rightarrow> cstring list \<Rightarrow> 's option" where
  "steps step st [] = Some st"
| "steps step st (l # ls) = (case step st l of None \<Rightarrow> None | Some st' \<Rightarrow> steps step st' ls)"

lemma steps_append:
  "steps step st (xs @ ys) = (case steps step st xs of None \<Rightarrow> None | Some st' \<Rightarrow> steps step st' ys)"
  by (induction xs arbitrary: st) (auto split: option.splits)

lemma line_loop_steps:
  assumes "steps step st ls = Some st'" "\<forall>l \<in> set ls. text_line l" "r \<noteq> []" "hd r \<noteq> ch_lf"
  shows "\<exists>buf'. line_loop step st buf (concat ls @ r) = line_loop step st' buf' r"
  using assms(1,2)
proof (induction ls arbitrary: st buf)
  case (Cons l ls)
  then obtain st1 where st1: "step st l = Some st1" "steps step st1 ls = Some st'"
    by (auto split: option.splits)
  have "hd (concat ls @ r) \<noteq> ch_lf"
    using Cons.prems(2) assms(3,4) text_line_hd by (cases ls) auto
  then have g: "pkt_get_line (l @ concat ls @ r) buf = (1, overlay (l @ [ch_nul]) buf, concat ls @ r)"
    using Cons.prems(2) by (intro pkt_get_line_text) auto
  have "cstr (overlay (l @ [ch_nul]) buf) = l"
    using Cons.prems(2) text_line_no_nul by (intro cstr_overlay) auto
  then have "line_loop step st buf (concat (l # ls) @ r)
      = line_loop step st1 (overlay (l @ [ch_nul]) buf) (concat ls @ r)"
    using g st1 by (subst line_loop.simps) simp
  then show ?case using Cons.IH [OF st1(2)] Cons.prems(2) by auto
qed auto

text \<open>The NUL and the two bytes behind it end the message.\<close>

lemma line_loop_end:
  assumes "t \<in> {MSG_TYPE, MSG_END}"
  shows "line_loop step st buf (ch_nul # pkt_put_int16 t @ fp) = (Some st, t, overlay [ch_nul] buf, fp)"
proof -
  have b: "byte_of 0 = ch_nul" "byte_of 2 = CHR 0x02"
    by (rule byte_of_eqI, simp add: code_def)+
  have "get_line_loop BUFFERSIZE False [] (ch_nul # pkt_put_int16 t @ fp) = (t, [], True, fp)"
    using assms b by (subst get_line_loop.simps) (auto simp: pkt_put_int16_def pkt_consts BUFFERSIZE_def)
  then show ?thesis
    using assms by (subst line_loop.simps) (auto simp: pkt_get_line_def pkt_consts)
qed

subsection \<open>Bodies read back\<close>

definition msgbody_lines :: "msgbody \<Rightarrow> cstring list" where
  "msgbody_lines b = opt_line (b_area b) @ kludge b @ rfc b @ body b @ opt_line (tear b) @
     opt_line (origin b) @ seenby b @ path b @ via b"

lemma msg_put_msgbody_lines: "msg_put_msgbody b = concat (msgbody_lines b) @ [ch_nul]"
  by (simp add: msg_put_msgbody_def msgbody_lines_def msg_put_line_def opt_line_def split: option.splits)

definition is_via :: "cstring \<Rightarrow> bool" where
  "is_via s \<longleftrightarrow> starts_with s (ch_ctrl_a # ''Via'') \<or> starts_with s (ch_ctrl_a # ''Recd'')"

definition is_path :: "cstring \<Rightarrow> bool" where
  "is_path s \<longleftrightarrow> starts_with s (ch_ctrl_a # ''PATH'')"

definition is_seenby :: "cstring \<Rightarrow> bool" where
  "is_seenby s \<longleftrightarrow> starts_with s ''SEEN-BY''"

text \<open>A line that starts the text: none of the classes that come before it.\<close>

definition starts_text :: "cstring \<Rightarrow> bool" where
  "starts_text s \<longleftrightarrow> peek s \<noteq> ch_ctrl_a \<and> \<not> starts_with s ''AREA:'' \<and> \<not> is_blank_line (Some s)"

definition headers_of :: "cstring \<Rightarrow> nat" where
  "headers_of s = length (filter (is_rfc_header s) FTN_RFC_HEADERS)"

definition plain_text :: "bool \<Rightarrow> cstring \<Rightarrow> bool" where
  "plain_text echo s \<longleftrightarrow> \<not> is_tearline s \<and> \<not> is_originline s \<and>
     (if echo then \<not> is_path s \<and> \<not> is_seenby s else \<not> is_via s)"

text \<open>A body in the order the writer emits it: every field holds lines of its class.\<close>

definition body_ok :: "msgbody \<Rightarrow> bool" where
  "body_ok b \<longleftrightarrow>
     (\<forall>l \<in> set (msgbody_lines b). text_line l) \<and>
     (\<forall>k \<in> set (kludge b). peek k = ch_ctrl_a) \<and>
     (\<forall>h \<in> set (rfc b). starts_text h \<and> headers_of h = 1) \<and>
     (\<exists>l ls. body b = l # ls \<and> starts_text l \<and> headers_of l = 0) \<and>
     (\<forall>l \<in> set (body b). plain_text (b_area b \<noteq> None) l) \<and>
     (\<forall>t. tear b = Some t \<longrightarrow> is_tearline t) \<and> (\<forall>t. origin b = Some t \<longrightarrow> is_originline t) \<and>
     (case b_area b of
        None \<Rightarrow> kludge b \<noteq> [] \<and> seenby b = [] \<and> path b = [] \<and> (\<forall>l \<in> set (via b). is_via l)
      | Some a \<Rightarrow> starts_with a ''AREA:'' \<and> via b = [] \<and> tear b \<noteq> None \<and> origin b \<noteq> None \<and>
          seenby b \<noteq> [] \<and> path b \<noteq> [] \<and> (\<forall>l \<in> set (seenby b). is_seenby l) \<and>
          (\<forall>l \<in> set (path b). is_path l))"

text \<open>The parser state in the text part, and the phases that lead to it.\<close>

definition in_text :: "bool \<Rightarrow> bool \<Rightarrow> bool \<Rightarrow> msgbody \<Rightarrow> parse_state" where
  "in_text k orig t b =
     \<lparr>look_for_AREA = (b_area b = None), parse_blank = 2,
      do_flag = (if b_area b = None then PARSE_BODY_NETMAIL else PARSE_BODY_ECHOMAIL),
      found_kludge = k, found_origin = orig, found_tearline = t, ret_ok = True, p_body = b\<rparr>"

definition in_head :: "msgbody \<Rightarrow> parse_state" where
  "in_head b =
     \<lparr>look_for_AREA = (b_area b = None), parse_blank = 3, do_flag = HI_KLUDGE,
      found_kludge = False, found_origin = False, found_tearline = False, ret_ok = True, p_body = b\<rparr>"

definition in_rfc :: "msgbody \<Rightarrow> parse_state" where
  "in_rfc b = (in_head b)\<lparr>parse_blank := 2, do_flag := SEARCH_RFC\<rparr>"

lemma parse_kludge:
  "peek k = ch_ctrl_a \<Longrightarrow> parse_line (in_head b) k = Some (in_head (b\<lparr>kludge := kludge b @ [k]\<rparr>))"
  by (simp add: parse_line_def in_head_def)

lemma steps_kludges:
  "\<forall>k \<in> set ks. peek k = ch_ctrl_a \<Longrightarrow>
     steps parse_line (in_head b) ks = Some (in_head (b\<lparr>kludge := kludge b @ ks\<rparr>))"
  by (induction ks arbitrary: b) (simp_all add: parse_kludge)

lemma one_header:
  "headers_of s = 1 \<Longrightarrow> filter (is_rfc_header s) FTN_RFC_HEADERS \<noteq> [] \<and>
     map (\<lambda>_. s) (filter (is_rfc_header s) FTN_RFC_HEADERS) = [s]"
  by (auto simp: headers_of_def length_Suc_conv)

lemma parse_rfc_first:
  "starts_text s \<Longrightarrow> headers_of s = 1 \<Longrightarrow> parse_line (in_head b) s = Some (in_rfc (b\<lparr>rfc := rfc b @ [s]\<rparr>))"
  using one_header [of s]
  by (simp add: parse_line_def in_head_def in_rfc_def starts_text_def parse_blank_line_def
      parse_rfc_line_def Let_def)

lemma parse_rfc_next:
  "headers_of s = 1 \<Longrightarrow> parse_line (in_rfc b) s = Some (in_rfc (b\<lparr>rfc := rfc b @ [s]\<rparr>))"
  using one_header [of s]
  by (simp add: parse_line_def in_head_def in_rfc_def parse_blank_line_def parse_rfc_line_def Let_def)

lemma steps_rfc_next:
  "\<forall>h \<in> set hs. headers_of h = 1 \<Longrightarrow>
     steps parse_line (in_rfc b) hs = Some (in_rfc (b\<lparr>rfc := rfc b @ hs\<rparr>))"
  by (induction hs arbitrary: b) (simp_all add: parse_rfc_next)

lemma steps_rfc:
  "\<forall>h \<in> set hs. starts_text h \<and> headers_of h = 1 \<Longrightarrow> hs \<noteq> [] \<Longrightarrow>
     steps parse_line (in_head b) hs = Some (in_rfc (b\<lparr>rfc := rfc b @ hs\<rparr>))"
  by (cases hs) (simp_all add: parse_rfc_first steps_rfc_next)

lemma parse_plain:
  "plain_text (b_area b \<noteq> None) s \<Longrightarrow>
     parse_body_line (in_text False False False b) s = in_text False False False (b\<lparr>body := body b @ [s]\<rparr>)"
  by (cases "b_area b")
     (simp_all add: parse_body_line_def in_text_def plain_text_def parse_netmail_line_def
      parse_echomail_line_def parse_text_line_def add_body_def Let_def is_via_def is_path_def
      is_seenby_def)

lemma parse_text_first:
  assumes "starts_text s" "headers_of s = 0" "st = in_head b \<or> st = in_rfc b"
  shows "parse_line st s = Some (parse_body_line (in_text False False False b) s)"
proof -
  have "filter (is_rfc_header s) FTN_RFC_HEADERS = []" using assms(2) by (simp add: headers_of_def)
  then show ?thesis using assms(1,3)
    by (auto simp: parse_line_def in_head_def in_rfc_def in_text_def starts_text_def
        parse_blank_line_def parse_rfc_line_def Let_def)
qed

lemma parse_in_text: "parse_line (in_text k orig t b) s = Some (parse_body_line (in_text k orig t b) s)"
  by (simp add: parse_line_def in_text_def parse_blank_line_def parse_rfc_line_def)

lemma steps_plain:
  "\<forall>l \<in> set ls. plain_text (b_area b \<noteq> None) l \<Longrightarrow>
     steps parse_line (in_text False False False b) ls = Some (in_text False False False (b\<lparr>body := body b @ ls\<rparr>))"
  by (induction ls arbitrary: b) (simp_all add: parse_in_text parse_plain)

lemma line_classes:
  "is_tearline s \<Longrightarrow> peek s = CHR ''-''" "is_originline s \<Longrightarrow> peek s = CHR '' ''"
  "is_via s \<Longrightarrow> peek s = ch_ctrl_a" "is_path s \<Longrightarrow> peek s = ch_ctrl_a" "is_seenby s \<Longrightarrow> peek s = CHR ''S''"
  by (cases s; auto simp: is_tearline_def is_originline_def is_via_def is_path_def is_seenby_def starts_with_def)+

lemma parse_tear:
  "is_tearline s \<Longrightarrow> tear b = None \<Longrightarrow>
     parse_body_line (in_text k orig t b) s = in_text k orig True (b\<lparr>tear := Some s\<rparr>)"
  by (simp add: parse_body_line_def in_text_def parse_netmail_line_def parse_echomail_line_def Let_def)

lemma parse_origin:
  assumes "is_originline s" "origin b = None"
  shows "parse_body_line (in_text k orig t b) s = in_text k True t (b\<lparr>origin := Some s\<rparr>)"
proof -
  have "\<not> is_tearline s" using assms line_classes(1,2) [of s] by auto
  then show ?thesis using assms
    by (simp add: parse_body_line_def in_text_def parse_netmail_line_def parse_echomail_line_def Let_def)
qed

lemma parse_trailer:
  "b_area b = None \<Longrightarrow> is_via s \<Longrightarrow>
     parse_body_line (in_text k orig t b) s = in_text True orig t (b\<lparr>via := via b @ [s]\<rparr>)"
  "b_area b \<noteq> None \<Longrightarrow> is_path s \<Longrightarrow>
     parse_body_line (in_text k orig t b) s = in_text True orig t (b\<lparr>path := path b @ [s]\<rparr>)"
  "b_area b \<noteq> None \<Longrightarrow> is_seenby s \<Longrightarrow>
     parse_body_line (in_text k orig t b) s = in_text True orig t (b\<lparr>seenby := seenby b @ [s]\<rparr>)"
proof -
  have *: "\<not> is_tearline s \<and> \<not> is_originline s" if "peek s = ch_ctrl_a \<or> peek s = CHR ''S''"
    using that line_classes(1,2) [of s] by auto
  show "parse_body_line (in_text k orig t b) s = in_text True orig t (b\<lparr>via := via b @ [s]\<rparr>)"
    if "b_area b = None" "is_via s"
    using that * line_classes(3) [of s]
    by (simp add: parse_body_line_def in_text_def parse_netmail_line_def Let_def is_via_def)
  show "parse_body_line (in_text k orig t b) s = in_text True orig t (b\<lparr>path := path b @ [s]\<rparr>)"
    if "b_area b \<noteq> None" "is_path s"
    using that * line_classes(4) [of s] by (cases "b_area b")
      (simp_all add: parse_body_line_def in_text_def parse_echomail_line_def Let_def is_path_def)
  show "parse_body_line (in_text k orig t b) s = in_text True orig t (b\<lparr>seenby := seenby b @ [s]\<rparr>)"
    if "b_area b \<noteq> None" "is_seenby s"
  proof -
    have "\<not> is_path s" using that line_classes(4,5) [of s] by auto
    then show ?thesis using that * line_classes(5) [of s] by (cases "b_area b")
      (simp_all add: parse_body_line_def in_text_def parse_echomail_line_def Let_def is_seenby_def is_path_def)
  qed
qed

lemma steps_via:
  "b_area b = None \<Longrightarrow> \<forall>l \<in> set ls. is_via l \<Longrightarrow> \<exists>k'.
     steps parse_line (in_text k orig t b) ls = Some (in_text k' orig t (b\<lparr>via := via b @ ls\<rparr>))"
proof (induction ls arbitrary: b k)
  case Nil
  have "b\<lparr>via := via b @ []\<rparr> = b" by simp
  then show ?case by auto
next
  case (Cons l ls)
  then show ?case using Cons.IH [of "b\<lparr>via := via b @ [l]\<rparr>" True]
    by (simp add: parse_in_text parse_trailer)
qed

lemma steps_path:
  "b_area b \<noteq> None \<Longrightarrow> \<forall>l \<in> set ls. is_path l \<Longrightarrow> \<exists>k'.
     steps parse_line (in_text k orig t b) ls = Some (in_text k' orig t (b\<lparr>path := path b @ ls\<rparr>))"
proof (induction ls arbitrary: b k)
  case Nil
  have "b\<lparr>path := path b @ []\<rparr> = b" by simp
  then show ?case by auto
next
  case (Cons l ls)
  then show ?case using Cons.IH [of "b\<lparr>path := path b @ [l]\<rparr>" True]
    by (simp add: parse_in_text parse_trailer)
qed

lemma steps_seenby:
  "b_area b \<noteq> None \<Longrightarrow> \<forall>l \<in> set ls. is_seenby l \<Longrightarrow> \<exists>k'.
     steps parse_line (in_text k orig t b) ls = Some (in_text k' orig t (b\<lparr>seenby := seenby b @ ls\<rparr>))"
proof (induction ls arbitrary: b k)
  case Nil
  have "b\<lparr>seenby := seenby b @ []\<rparr> = b" by simp
  then show ?case by auto
next
  case (Cons l ls)
  then show ?case using Cons.IH [of "b\<lparr>seenby := seenby b @ [l]\<rparr>" True]
    by (simp add: parse_in_text parse_trailer)
qed

lemmas steps_trailer = steps_via steps_path steps_seenby

lemma steps_opt_tear:
  assumes "\<forall>s. tr = Some s \<longrightarrow> is_tearline s" "tear b = None"
  shows "\<exists>t'. steps parse_line (in_text k orig t b) (opt_line tr) = Some (in_text k orig t' (b\<lparr>tear := tr\<rparr>))"
proof (cases tr)
  case None
  then have "b\<lparr>tear := tr\<rparr> = b" using assms(2) by simp
  then show ?thesis using None by (auto simp: opt_line_def)
qed (use assms in \<open>auto simp: opt_line_def parse_in_text parse_tear\<close>)

lemma steps_opt_origin:
  assumes "\<forall>s. og = Some s \<longrightarrow> is_originline s" "origin b = None"
  shows "\<exists>o'. steps parse_line (in_text k orig t b) (opt_line og) = Some (in_text k o' t (b\<lparr>origin := og\<rparr>))"
proof (cases og)
  case None
  then have "b\<lparr>origin := og\<rparr> = b" using assms(2) by simp
  then show ?thesis using None by (auto simp: opt_line_def)
qed (use assms in \<open>auto simp: opt_line_def parse_in_text parse_origin\<close>)

lemma steps_head:
  assumes "case a of None \<Rightarrow> ks \<noteq> [] | Some s \<Rightarrow> starts_with s ''AREA:''" "\<forall>k \<in> set ks. peek k = ch_ctrl_a"
  shows "steps parse_line parse_start (opt_line a @ ks)
    = Some (in_head (msg_body_init\<lparr>b_area := a, kludge := ks\<rparr>))"
proof (cases a)
  case None
  then obtain k ks' where ks: "ks = k # ks'" using assms(1) by (cases ks) auto
  have "parse_line parse_start k = Some (in_head (msg_body_init\<lparr>kludge := [k]\<rparr>))"
    using assms(2) ks by (simp add: parse_line_def parse_start_def in_head_def msg_body_init_def)
  then show ?thesis
    using None ks assms(2) steps_kludges [of ks' "msg_body_init\<lparr>kludge := [k]\<rparr>"]
    by (simp add: opt_line_def msg_body_init_def)
next
  case (Some s)
  then have "starts_with s ''AREA:''" using assms(1) by simp
  moreover from this have "peek s \<noteq> ch_ctrl_a" by (cases s) (auto simp: starts_with_def)
  ultimately have "parse_line parse_start s = Some (in_head (msg_body_init\<lparr>b_area := Some s\<rparr>))"
    by (simp add: parse_line_def parse_start_def in_head_def msg_body_init_def)
  then show ?thesis
    using Some assms(2) steps_kludges [of ks "msg_body_init\<lparr>b_area := Some s\<rparr>"]
    by (simp add: opt_line_def msg_body_init_def)
qed

lemma steps_text:
  assumes "\<forall>h \<in> set hs. starts_text h \<and> headers_of h = 1" "starts_text l" "headers_of l = 0"
    and "\<forall>x \<in> set (l # ls). plain_text (b_area b \<noteq> None) x" "rfc b = []" "body b = []"
  shows "steps parse_line (in_head b) (hs @ l # ls)
    = Some (in_text False False False (b\<lparr>rfc := hs, body := l # ls\<rparr>))"
proof -
  define st where "st = (if hs = [] then in_head b else in_rfc (b\<lparr>rfc := hs\<rparr>))"
  have h: "steps parse_line (in_head b) hs = Some st"
    using steps_rfc [of hs b] assms(1,5) by (cases "hs = []") (simp_all add: st_def)
  have b0: "b\<lparr>rfc := []\<rparr> = b" using assms(5) by simp
  have "parse_line st l = Some (parse_body_line (in_text False False False (b\<lparr>rfc := hs\<rparr>)) l)"
    using parse_text_first [OF assms(2,3), of st "b\<lparr>rfc := hs\<rparr>"] b0 by (simp add: st_def)
  also have "parse_body_line (in_text False False False (b\<lparr>rfc := hs\<rparr>)) l
      = in_text False False False (b\<lparr>rfc := hs, body := [l]\<rparr>)"
    using parse_plain [of "b\<lparr>rfc := hs\<rparr>" l] assms(4,6) by simp
  finally show ?thesis
    using h steps_plain [of ls "b\<lparr>rfc := hs, body := [l]\<rparr>"] assms(4) by (simp add: steps_append)
qed

lemma steps_msgbody:
  assumes "body_ok b"
  shows "\<exists>st. steps parse_line parse_start (msgbody_lines b) = Some st \<and> ret_ok st \<and> p_body st = b"
proof -
  obtain l ls where body: "body b = l # ls" "starts_text l" "headers_of l = 0"
    using assms by (auto simp: body_ok_def)
  define b1 where "b1 = msg_body_init\<lparr>b_area := b_area b, kludge := kludge b\<rparr>"
  define b2 where "b2 = b1\<lparr>rfc := rfc b, body := body b\<rparr>"
  have 1: "steps parse_line parse_start (opt_line (b_area b) @ kludge b) = Some (in_head b1)"
    unfolding b1_def using assms by (intro steps_head) (auto simp: body_ok_def split: option.splits)
  have 2: "steps parse_line (in_head b1) (rfc b @ body b) = Some (in_text False False False b2)"
    unfolding body(1) b2_def using assms body
    by (intro steps_text) (auto simp: body_ok_def b1_def msg_body_init_def)
  have b2: "tear b2 = None" "origin b2 = None" "seenby b2 = []" "path b2 = []" "via b2 = []"
    "b_area b2 = b_area b" by (simp_all add: b2_def b1_def msg_body_init_def)
  obtain t' where 3: "steps parse_line (in_text False False False b2) (opt_line (tear b))
      = Some (in_text False False t' (b2\<lparr>tear := tear b\<rparr>))"
    using steps_opt_tear [of "tear b" b2] b2(1) assms by (fastforce simp: body_ok_def)
  obtain o' where 4: "steps parse_line (in_text False False t' (b2\<lparr>tear := tear b\<rparr>)) (opt_line (origin b))
      = Some (in_text False o' t' (b2\<lparr>tear := tear b, origin := origin b\<rparr>))"
    using steps_opt_origin [of "origin b" "b2\<lparr>tear := tear b\<rparr>"] b2(2) assms by (fastforce simp: body_ok_def)
  define b4 where "b4 = b2\<lparr>tear := tear b, origin := origin b\<rparr>"
  have "\<exists>k. steps parse_line (in_text False o' t' b4) (seenby b @ path b @ via b) = Some (in_text k o' t' b)"
  proof (cases "b_area b")
    case None
    then have n: "seenby b = []" "path b = []" "\<forall>l \<in> set (via b). is_via l"
      using assms by (auto simp: body_ok_def)
    have "b4\<lparr>via := via b\<rparr> = b" using None n by (simp add: b4_def b2_def b1_def msg_body_init_def)
    then show ?thesis
      using steps_trailer(1) [of b4 "via b" False o' t'] n None b2 by (simp add: b4_def)
  next
    case (Some a)
    then have n: "via b = []" "\<forall>l \<in> set (seenby b). is_seenby l" "\<forall>l \<in> set (path b). is_path l"
      using assms by (auto simp: body_ok_def)
    obtain k1 where s: "steps parse_line (in_text False o' t' b4) (seenby b)
        = Some (in_text k1 o' t' (b4\<lparr>seenby := seenby b\<rparr>))"
      using steps_trailer(3) [of b4 "seenby b" False o' t'] n Some b2 by (auto simp: b4_def)
    obtain k2 where p: "steps parse_line (in_text k1 o' t' (b4\<lparr>seenby := seenby b\<rparr>)) (path b)
        = Some (in_text k2 o' t' (b4\<lparr>seenby := seenby b, path := path b\<rparr>))"
      using steps_trailer(2) [of "b4\<lparr>seenby := seenby b\<rparr>" "path b" k1 o' t'] n Some b2 by (auto simp: b4_def)
    have "b4\<lparr>seenby := seenby b, path := path b\<rparr> = b"
      using n by (simp add: b4_def b2_def b1_def msg_body_init_def)
    then show ?thesis using s p n by (auto simp: steps_append)
  qed
  then obtain k where 5: "steps parse_line (in_text False o' t' b4) (seenby b @ path b @ via b) = Some (in_text k o' t' b)"
    by blast
  have "steps parse_line parse_start ((opt_line (b_area b) @ kludge b) @ (rfc b @ body b) @ opt_line (tear b) @
      opt_line (origin b) @ seenby b @ path b @ via b) = Some (in_text k o' t' b)"
    by (simp only: steps_append [of _ _ "opt_line (b_area b) @ kludge b"] 1 option.case
        steps_append [of _ _ "rfc b @ body b"] 2 steps_append [of _ _ "opt_line (tear b)"] 3
        steps_append [of _ _ "opt_line (origin b)"] 4 5 [unfolded b4_def])
  then show ?thesis by (simp add: msgbody_lines_def in_text_def)
qed

lemma hd_no_lf: "hd (ch_nul # r) \<noteq> ch_lf"
  by simp

text \<open>
  C1. A message body whose fields hold lines of their classes, written by msg_put_msgbody and
  followed by a message or packet end marker, is read back by pkt_get_body_parse field by field,
  and the reader stops exactly behind the marker.
\<close>

theorem msgbody_roundtrip:
  assumes "body_ok b" "t \<in> {MSG_TYPE, MSG_END}"
  shows "pkt_get_body_parse (msg_put_msgbody b @ pkt_put_int16 t @ fp) buf to_node = (True, Some b, fp)"
proof -
  obtain st where st: "steps parse_line parse_start (msgbody_lines b) = Some st" "ret_ok st" "p_body st = b"
    using steps_msgbody [OF assms(1)] by blast
  obtain buf' where "line_loop parse_line parse_start buf (concat (msgbody_lines b) @ ch_nul # pkt_put_int16 t @ fp)
      = line_loop parse_line st buf' (ch_nul # pkt_put_int16 t @ fp)"
    using line_loop_steps [OF st(1), of "ch_nul # pkt_put_int16 t @ fp" buf] assms(1)
    by (auto simp: body_ok_def)
  then have "line_loop parse_line parse_start buf (msg_put_msgbody b @ pkt_put_int16 t @ fp)
      = (Some st, t, overlay [ch_nul] buf', fp)"
    using line_loop_end [OF assms(2)] by (simp add: msg_put_msgbody_lines)
  moreover have "parse_finish to_node buf'' b = b" for buf''
    using assms(1) by (auto simp: parse_finish_def body_ok_def split: option.splits)
  ultimately show ?thesis by (simp add: pkt_get_body_parse_def st)
qed


definition cr :: "cstring \<Rightarrow> cstring" where
  "cr s = s @ [ch_cr]"

definition sample_body :: msgbody where
  "sample_body =
     \<lparr>b_area = Some (cr ''AREA:RU.TEST''), kludge = [cr (ch_ctrl_a # ''MSGID: 2:5/1 0'')], rfc = [],
      body = [cr ''0 1'', cr []], tear = Some (cr ''--- t''),
      origin = Some (cr '' * Origin: (2:5/1)''), seenby = [cr ''SEEN-BY: 5/1''],
      path = [cr (ch_ctrl_a # ''PATH: 5/1'')], via = []\<rparr>"

lemma no_header:
  assumes "\<forall>h \<in> set FTN_RFC_HEADERS. tolower (peek s) \<noteq> tolower (peek h)"
  shows "headers_of s = 0"
proof -
  have "strnicmp s h (length h) \<noteq> 0" if "h \<in> set FTN_RFC_HEADERS" for h
  proof -
    have "length h = Suc (length h - 1)" using that by (auto simp: FTN_RFC_HEADERS_def)
    then obtain n where n: "length h = Suc n" by blast
    show ?thesis using bspec [OF assms that] by (simp add: n)
  qed
  then show ?thesis by (simp add: headers_of_def is_rfc_header_def filter_empty_conv)
qed

lemma sample_headers: "headers_of (cr ''0 1'') = 0"
proof (rule no_header)
  have "\<forall>h \<in> set FTN_RFC_HEADERS. code (tolower (CHR ''0'')) \<noteq> code (tolower (peek h))"
    by (simp add: FTN_RFC_HEADERS_def code_tolower del: code_inject split del: if_split) (simp add: code_def)
  then show "\<forall>h \<in> set FTN_RFC_HEADERS. tolower (peek (cr ''0 1'')) \<noteq> tolower (peek h)"
    by (simp add: cr_def)
qed

lemma sample_body_ok: "body_ok sample_body"
  by (simp add: body_ok_def sample_body_def sample_headers msgbody_lines_def opt_line_def text_line_def
      cr_def starts_text_def plain_text_def is_tearline_def is_originline_def is_via_def is_path_def
      is_seenby_def starts_with_def BUFFERSIZE_def at_def is_blank_line_def is_space_def
      sample_headers [unfolded cr_def, simplified])

lemma msgbody_roundtrip_witness:
  "pkt_get_body_parse (msg_put_msgbody sample_body @ pkt_put_int16 MSG_END @ []) [] (mk_node 0 0 0 0) = (True, Some sample_body, [])"
  by (rule msgbody_roundtrip) (simp_all add: sample_body_ok)


text \<open>
  Once a control line (Via, PATH or SEEN-BY) has been met, an ordinary text line is dropped.
\<close>

lemma dropped_line:
  "plain_text (b_area b \<noteq> None) s \<Longrightarrow>
     parse_body_line (in_text True False False b) s = in_text True False False b"
  by (cases "b_area b")
     (simp_all add: parse_body_line_def in_text_def plain_text_def parse_netmail_line_def
      parse_echomail_line_def parse_text_line_def Let_def is_via_def is_path_def is_seenby_def)



subsection \<open>Text lines for the gateway\<close>

text \<open>
  The loop of \<open>msg_xlate_line\<close>: \<open>n\<close> is the room left, an \<open>int\<close> that is tested for zero before it
  is decremented.  The result is what is stored at \<open>p\<close>.
\<close>

fun xlate_loop :: "int \<Rightarrow> bool \<Rightarrow> cstring \<Rightarrow> cstring" where
  "xlate_loop n ignore_soft_cr [] = []"
| "xlate_loop n ignore_soft_cr (c # s) =
     (if c = ch_lf \<or> (ignore_soft_cr \<and> c = CHR 0x8D) then xlate_loop n ignore_soft_cr s
      else if c = ch_cr then
        (if n = 0 then [] else ch_lf # xlate_loop (n - 1) ignore_soft_cr s)
      else if code c < 32 \<and> c \<noteq> ch_tab \<and> c \<noteq> CHR 0x0C then
        (if n = 0 then []
         else if n - 1 = 0 then [CHR ''^'']
         else CHR ''^'' # byte_of (code c + 64) # xlate_loop (n - 2) ignore_soft_cr s)
      else if n = 0 then [] else c # xlate_loop (n - 1) ignore_soft_cr s)"

definition msg_xlate_line :: "cbuf \<Rightarrow> int \<Rightarrow> cstring \<Rightarrow> bool \<Rightarrow> cbuf option" where
  "msg_xlate_line buf n line ignore_soft_cr =
     buf_write buf 0 (xlate_loop (n - 1) ignore_soft_cr line @ [ch_nul])"

lemma xlate_loop_length: "0 \<le> n \<Longrightarrow> int (length (xlate_loop n i s)) \<le> n"
proof (induction n i s rule: xlate_loop.induct)
  case (2 n i c s)
  then show ?case by (simp split: if_splits) (use 2 in auto)
qed simp

lemma caret_code: "code c < 32 \<Longrightarrow> byte_of (code c + 64) \<noteq> ch_nul"
proof
  assume "code c < 32" "byte_of (code c + 64) = ch_nul"
  then have "(code c + 64) mod 256 = code ch_nul" by (metis code_byte_of)
  then show False using \<open>code c < 32\<close> code_range [of c] by simp
qed

lemma xlate_loop_no_nul: "no_nul s \<Longrightarrow> no_nul (xlate_loop n i s)"
  by (induction n i s rule: xlate_loop.induct) (auto simp: caret_code)

lemma xlate_loop_printable:
  assumes "c \<in> set (xlate_loop n i s)"
  shows "32 \<le> code c \<or> c = ch_lf \<or> c = ch_tab \<or> c = CHR 0x0C"
  using assms
proof (induction n i s rule: xlate_loop.induct)
  case (2 n i a s)
  have a: "32 \<le> (code a + 64) mod 256" if "code a < 32" using that code_range [of a] by simp
  have "32 \<le> code CHR ''^''" by (simp add: code_def)
  then show ?case using 2 a by (auto split: if_splits)
qed simp

text \<open>
  C17. msg_xlate_line stays inside its buffer and its result is terminated, at most n-1 bytes
  long and free of control characters other than LF, TAB and FF.
\<close>

theorem msg_xlate_line_bounded:
  assumes "0 < n" "n \<le> int (length buf)" "no_nul line"
  shows "\<exists>buf'. msg_xlate_line buf n line ign = Some buf' \<and> length buf' = length buf \<and>
     cstr buf' = xlate_loop (n - 1) ign line \<and> int (length (cstr buf')) < n \<and>
     (\<forall>c \<in> set (cstr buf'). 32 \<le> code c \<or> c = ch_lf \<or> c = ch_tab \<or> c = CHR 0x0C)"
proof -
  define out where "out = xlate_loop (n - 1) ign line"
  have len: "int (length out) < n" using xlate_loop_length [of "n - 1" ign line] assms(1) by (simp add: out_def)
  then have fit: "0 + length (out @ [ch_nul]) \<le> length buf" using assms(2) by simp
  have "msg_xlate_line buf n line ign = Some (out @ ch_nul # drop (length out + 1) buf)"
    using buf_write_eq [OF fit] by (simp add: msg_xlate_line_def out_def)
  moreover have "cstr (out @ ch_nul # drop (length out + 1) buf) = out"
    using xlate_loop_no_nul [OF assms(3), of "n - 1" ign] by (simp add: cstr_append out_def)
  moreover have "length (out @ ch_nul # drop (length out + 1) buf) = length buf" using fit by simp
  moreover have "\<forall>c \<in> set out. 32 \<le> code c \<or> c = ch_lf \<or> c = ch_tab \<or> c = CHR 0x0C"
    using xlate_loop_printable unfolding out_def by blast
  ultimately show ?thesis using len by (simp add: out_def)
qed

theorem msg_xlate_line_bounded_witness:
  "\<exists>buf'. msg_xlate_line [ch_nul, ch_nul] 2 [CHR 0x01] False = Some buf' \<and> length buf' = length [ch_nul, ch_nul] \<and>
     cstr buf' = xlate_loop (2 - 1) False [CHR 0x01] \<and> int (length (cstr buf')) < 2 \<and>
     (\<forall>c \<in> set (cstr buf'). 32 \<le> code c \<or> c = ch_lf \<or> c = ch_tab \<or> c = CHR 0x0C)"
  by (rule msg_xlate_line_bounded) simp_all

subsection \<open>Addresses in Origin and MSGID lines\<close>

text \<open>\<open>strrchr\<close>: the text before the last occurrence and the text after it.\<close>

definition strrchr :: "char \<Rightarrow> cstring \<Rightarrow> (cstring \<times> cstring) option" where
  "strrchr c s =
     (if c \<in> set s
      then Some (rev (tl (dropWhile (\<lambda>x. x \<noteq> c) (rev s))), rev (takeWhile (\<lambda>x. x \<noteq> c) (rev s)))
      else None)"

text \<open>
  The NUL stored at the last ')' cuts the text after the last '(' when it lies in that text.
\<close>

definition msg_parse_origin :: "int \<Rightarrow> cstring option \<Rightarrow> fnode \<Rightarrow> bool \<times> fnode" where
  "msg_parse_origin defzone buffer nd =
     (case buffer of
        None \<Rightarrow> (False, nd)
      | Some buf \<Rightarrow>
         (case strrchr CHR '')'' buf of
            None \<Rightarrow> (False, nd)
          | Some (before_right, _) \<Rightarrow>
             (case strrchr CHR ''('' buf of
                None \<Rightarrow> (False, nd)
              | Some (before_left, after_left) \<Rightarrow>
                  (let left = (if length before_right > length before_left
                               then take (length before_right - length before_left - 1) after_left
                               else after_left);
                       left = dropWhile (\<lambda>c. \<not> is_digit c) left;
                       (ok, nd) = asc_to_node defzone left nd False;
                       nd = (if ok then nd else node_invalid nd)
                   in (zone nd \<noteq> -1, nd)))))"

definition msg_parse_msgid :: "int \<Rightarrow> cstring option \<Rightarrow> fnode \<Rightarrow> bool \<times> fnode" where
  "msg_parse_msgid defzone str nd =
     (case str of
        None \<Rightarrow> (False, nd)
      | Some buf \<Rightarrow>
          if CHR '' '' \<notin> set buf then (False, nd)
          else
            (let (ok, nd) = asc_to_node defzone (takeWhile (\<lambda>c. c \<noteq> CHR '' '') buf) nd False
             in if ok then (True, nd) else (False, node_invalid nd)))"

end
