(* ===== verification/Kludge.thy ===== *)
theory Kludge
  imports Message
begin

text \<open>
  Addressing kludges: \<open>src/common/kludge.c\<close>.  The lookup \<open>kludge_get\<close> of a control line by its
  name and \<open>kludge_pt_intl\<close>, which moves the addresses of the INTL, FMPT and TOPT kludges into the
  message.  The kludge list of a body is the list of its lines; the Textline pointer that
  \<open>kludge_get\<close> returns is the position of the line in it.
\<close>

definition kludge_from_tline :: "cstring \<Rightarrow> cstring \<Rightarrow> cstring option" where
  "kludge_from_tline s kname =
     (let len = length kname in
      if peek s = ch_ctrl_a \<and> strnicmp (tl s) kname len = 0 \<and>
         (at s (len + 1) = CHR '' '' \<or> at s (len + 1) = CHR '':'')
      then
        (let s = drop (1 + len) s;
             s = (if peek s = CHR '':'' then tl s else s)
         in Some (dropWhile is_space s))
      else None)"

fun kludge_get :: "cstring list \<Rightarrow> cstring \<Rightarrow> (cstring \<times> nat) option" where
  "kludge_get [] name = None"
| "kludge_get (l # ls) name =
     (case kludge_from_tline l name of
        Some r \<Rightarrow> Some (r, 0)
      | None \<Rightarrow> (case kludge_get ls name of None \<Rightarrow> None | Some (r, k) \<Rightarrow> Some (r, Suc k)))"

text \<open>\<open>if (del) tl_delete (list, line)\<close>\<close>

definition del_line :: "bool \<Rightarrow> nat \<Rightarrow> msgbody \<Rightarrow> msgbody" where
  "del_line del k b = (if del then b\<lparr>kludge := take k (kludge b) @ drop (Suc k) (kludge b)\<rparr> else b)"

text \<open>
  The local \<open>node\<close> is copied to the message only when \<open>asc_to_node\<close> succeeds; its value before is
  the argument \<open>nd\<close>.
\<close>

definition kludge_intl :: "int \<Rightarrow> fnode \<Rightarrow> cstring \<Rightarrow> message \<Rightarrow> message" where
  "kludge_intl defzone nd p msg =
     (let (s, lasts) = strtok_r (Some p) DELIM_WS None;
          (msg, nd) =
            (case s of
               None \<Rightarrow> (msg, nd)
             | Some s \<Rightarrow> (let (ok, nd) = asc_to_node defzone s nd False
                         in (if ok then msg\<lparr>node_to := nd\<rparr> else msg, nd)));
          (s, lasts) = strtok_r None DELIM_WS lasts
      in case s of
           None \<Rightarrow> msg
         | Some s \<Rightarrow> (let (ok, nd) = asc_to_node defzone s nd False
                     in if ok then msg\<lparr>node_from := nd\<rparr> else msg))"

definition kludge_pt_intl ::
  "int \<Rightarrow> fnode \<Rightarrow> bool \<Rightarrow> msgbody \<Rightarrow> message \<Rightarrow> msgbody \<times> message" where
  "kludge_pt_intl defzone nd del b msg =
     (let (b, msg) = (case kludge_get (kludge b) ''INTL'' of
             None \<Rightarrow> (b, msg)
           | Some (p, k) \<Rightarrow> (del_line del k b, kludge_intl defzone nd p msg));
          (b, msg) = (case kludge_get (kludge b) ''FMPT'' of
             None \<Rightarrow> (b, msg)
           | Some (p, k) \<Rightarrow>
               (del_line del k b, msg\<lparr>node_from := (node_from msg)\<lparr>point := atoi p\<rparr>\<rparr>));
          (b, msg) = (case kludge_get (kludge b) ''TOPT'' of
             None \<Rightarrow> (b, msg)
           | Some (p, k) \<Rightarrow>
               (del_line del k b, msg\<lparr>node_to := (node_to msg)\<lparr>point := atoi p\<rparr>\<rparr>))
      in (b, msg))"

subsection \<open>The lookup\<close>

lemma kludge_get_append_None:
  "kludge_get (ls @ ls') name = (case kludge_get ls name of
      Some r \<Rightarrow> Some r
    | None \<Rightarrow> map_option (\<lambda>(r, k). (r, length ls + k)) (kludge_get ls' name))"
  by (induction ls) (auto simp: option.case_eq_if map_option_case split: option.splits)

lemma kludge_get_None:
  "kludge_get ls name = None \<longleftrightarrow> (\<forall>l \<in> set ls. kludge_from_tline l name = None)"
  by (induction ls) (auto split: option.splits)

lemma strnicmp_self: "strnicmp (name @ r) name (length name) = 0"
  by (induction name) simp_all

lemma at_append: "at (s @ c # r) (length s) = c"
  by (simp add: at_def)

lemma kludge_hit:
  "kludge_from_tline (ch_ctrl_a # name @ CHR '' '' # v) name = Some (dropWhile is_space v)"
  using at_append [of name "CHR '' ''" v]
  by (simp add: kludge_from_tline_def strnicmp_self is_space_def)

lemma kludge_miss:
  "tolower a \<noteq> tolower c \<Longrightarrow> kludge_from_tline (ch_ctrl_a # a # v) (c # name) = None"
  by (simp add: kludge_from_tline_def)

lemma letters_differ:
  "tolower CHR ''F'' \<noteq> tolower CHR ''I''" "tolower CHR ''T'' \<noteq> tolower CHR ''I''"
  "tolower CHR ''I'' \<noteq> tolower CHR ''F''" "tolower CHR ''T'' \<noteq> tolower CHR ''F''"
  "tolower CHR ''I'' \<noteq> tolower CHR ''T''" "tolower CHR ''F'' \<noteq> tolower CHR ''T''"
proof -
  have "code (tolower CHR ''F'') = 102" "code (tolower CHR ''I'') = 105" "code (tolower CHR ''T'') = 116"
    by (simp_all only: code_tolower) (simp_all add: code_def)
  then show "tolower CHR ''F'' \<noteq> tolower CHR ''I''" "tolower CHR ''T'' \<noteq> tolower CHR ''I''"
    "tolower CHR ''I'' \<noteq> tolower CHR ''F''" "tolower CHR ''T'' \<noteq> tolower CHR ''F''"
    "tolower CHR ''I'' \<noteq> tolower CHR ''T''" "tolower CHR ''F'' \<noteq> tolower CHR ''T''"
    by auto
qed

subsection \<open>The kludges of a written header read back\<close>

text \<open>The lines \<open>pkt_put_msg_hdr\<close> writes for a netmail message.\<close>

definition intl_line :: "message \<Rightarrow> cstring" where
  "intl_line m = ch_ctrl_a # ''INTL'' @ CHR '' '' # znf1 ((node_to m)\<lparr>point := 0, domain := []\<rparr>) @ CHR '' '' #
     znf1 ((node_from m)\<lparr>point := 0, domain := []\<rparr>) @ [ch_cr]"

definition pt_lines :: "cstring \<Rightarrow> int \<Rightarrow> cstring list" where
  "pt_lines name p = (if p > 0 then [ch_ctrl_a # name @ CHR '' '' # dec p @ [ch_cr]] else [])"

definition kludge_lines :: "message \<Rightarrow> cstring list" where
  "kludge_lines m = intl_line m # pt_lines ''FMPT'' (point (node_from m)) @ pt_lines ''TOPT'' (point (node_to m))"

lemma kludge_lines_written: "area m = None \<Longrightarrow> concat (kludge_lines m) = msg_kludges m"
  by (simp add: kludge_lines_def msg_kludges_def intl_line_def pt_lines_def)

definition no_addr_kludge :: "cstring \<Rightarrow> bool" where
  "no_addr_kludge l \<longleftrightarrow> (\<forall>name \<in> {''INTL'', ''FMPT'', ''TOPT''}. kludge_from_tline l name = None)"

lemma dec_nat_length: "n < 10 ^ k \<Longrightarrow> 0 < k \<Longrightarrow> length (dec_nat n) \<le> k"
proof (induction k arbitrary: n)
  case (Suc k)
  show ?case
  proof (cases "n < 10")
    case True
    then show ?thesis by (subst dec_nat.simps) simp
  next
    case False
    then have "n div 10 < 10 ^ k" "0 < k" using Suc.prems(1) by (cases k; simp add: less_mult_imp_div_less)+
    then show ?thesis using Suc.IH [of "n div 10"] False by (subst dec_nat.simps) simp
  qed
qed simp

lemma dec_length: "ftn_num v \<Longrightarrow> length (dec v) \<le> 10"
  using dec_nat_length [of "nat v" 10] by (auto simp: ftn_num_def dec_def)

lemma znf1_plain:
  assumes "valid_node n"
  shows "znf1 (n\<lparr>point := 0, domain := []\<rparr>) = dec (zone n) @ '':'' @ dec (net n) @ ''/'' @ dec (node n)"
    and "asc_to_node dz (znf1 (n\<lparr>point := 0, domain := []\<rparr>)) nd False = (True, mk_node (zone n) (net n) (node n) 0)"
proof -
  let ?n = "n\<lparr>point := 0, domain := []\<rparr>"
  have v: "valid_node ?n" using assms by (simp add: valid_node_def)
  have t: "znf_text ?n = dec (zone n) @ '':'' @ dec (net n) @ ''/'' @ dec (node n)"
    by (simp add: znf_text_def tail_text_def)
  have "length (znf_text ?n) \<le> 47"
    using dec_length [of "zone n"] dec_length [of "net n"] dec_length [of "node n"] assms
    by (simp add: t valid_node_def)
  then have z: "znf1 ?n = znf_text ?n"
    using str_znfp_print_valid [OF v] by (simp add: znf1_def LEN_ZNFP_def)
  show "znf1 ?n = dec (zone n) @ '':'' @ dec (net n) @ ''/'' @ dec (node n)" by (simp add: z t)
  show "asc_to_node dz (znf1 ?n) nd False = (True, mk_node (zone n) (net n) (node n) 0)"
    using asc_to_node_text [OF v] by (simp add: z mk_node_def)
qed

text \<open>Two words of a line, as \<open>strtok\<close> splits them.\<close>

definition word :: "cstring \<Rightarrow> bool" where
  "word w \<longleftrightarrow> w \<noteq> [] \<and> (\<forall>c \<in> set w. c \<notin> set DELIM_WS)"

lemma strtok_first:
  assumes "word a" "d \<in> set DELIM_WS" "r = [] \<or> hd r \<notin> set DELIM_WS"
  shows "strtok_r (Some (a @ d # r)) DELIM_WS lasts = (Some a, Some r)"
    and "strtok_r None DELIM_WS (Some (a @ d # r)) = (Some a, Some r)"
proof -
  let ?P = "\<lambda>c. c \<in> set DELIM_WS"
  obtain x xs where a: "a = x # xs" using assms(1) by (cases a) (auto simp: word_def)
  have 1: "dropWhile ?P (a @ d # r) = a @ d # r" using assms(1) by (simp add: a word_def)
  have 2: "takeWhile (\<lambda>c. c \<notin> set DELIM_WS) (a @ d # r) = a"
    by (rule takeWhile_append_stop) (use assms in \<open>auto simp: word_def\<close>)
  have 3: "dropWhile (\<lambda>c. c \<notin> set DELIM_WS) (a @ d # r) = d # r"
    by (rule dropWhile_append_stop) (use assms in \<open>auto simp: word_def\<close>)
  have 4: "dropWhile ?P r = r" using assms(3) by (cases r) auto
  show "strtok_r (Some (a @ d # r)) DELIM_WS lasts = (Some a, Some r)"
    "strtok_r None DELIM_WS (Some (a @ d # r)) = (Some a, Some r)"
    by (simp_all add: strtok_r_def strtok_r_ext_def 1 2 3 4 Let_def a [symmetric] del: dropWhile.simps takeWhile.simps)
qed

lemma digit_word: "is_digit c \<Longrightarrow> c \<notin> set DELIM_WS" "is_digit c \<Longrightarrow> \<not> is_space c"
  by (auto simp: DELIM_WS_def is_digit_def is_space_def code_def)

lemma znf1_word:
  assumes "valid_node n"
  shows "word (znf1 (n\<lparr>point := 0, domain := []\<rparr>))" "\<not> is_space (peek (znf1 (n\<lparr>point := 0, domain := []\<rparr>)))"
proof -
  note v = valid_node_parts(6-8) [OF assms]
  have d: "\<forall>c \<in> set (dec (zone n)) \<union> set (dec (net n)) \<union> set (dec (node n)). is_digit c"
    using v dec_digits_all by (auto simp: ftn_num_def)
  have s: "CHR '':'' \<notin> set DELIM_WS" "CHR ''/'' \<notin> set DELIM_WS" by (simp_all add: DELIM_WS_def)
  show "word (znf1 (n\<lparr>point := 0, domain := []\<rparr>))"
    using d s digit_word(1) by (auto simp: znf1_plain(1) [OF assms] word_def)
  have "is_digit (peek (dec (zone n) @ r))" for r using v by (simp add: peek_dec ftn_num_def)
  then show "\<not> is_space (peek (znf1 (n\<lparr>point := 0, domain := []\<rparr>)))"
    unfolding znf1_plain(1) [OF assms] by (rule digit_word(2))
qed

lemma kludge_intl_written:
  assumes "valid_node t" "valid_node f"
  shows "kludge_intl dz nd (znf1 (t\<lparr>point := 0, domain := []\<rparr>) @ CHR '' '' # znf1 (f\<lparr>point := 0, domain := []\<rparr>) @ [ch_cr]) m
    = m\<lparr>node_to := mk_node (zone t) (net t) (node t) 0, node_from := mk_node (zone f) (net f) (node f) 0\<rparr>"
proof -
  have f: "hd (znf1 (f\<lparr>point := 0, domain := []\<rparr>) @ [ch_cr]) \<notin> set DELIM_WS"
    using znf1_word(1) [OF assms(2)] by (auto simp: word_def)
  show ?thesis
    using strtok_first(1) [OF znf1_word(1) [OF assms(1)], of "CHR '' ''" "znf1 (f\<lparr>point := 0, domain := []\<rparr>) @ [ch_cr]" None] f
      strtok_first(2) [OF znf1_word(1) [OF assms(2)], of ch_cr "[]"]
    by (simp add: kludge_intl_def DELIM_WS_def znf1_plain(2) assms)
qed

lemma atoi_dec:
  assumes "ftn_num v" "ends_number r"
  shows "atoi (dec v @ r) = v"
proof -
  have v: "0 \<le> v" "v < 2147483648" using assms(1) by (auto simp: ftn_num_def)
  have p: "is_digit (peek (dec v @ r))" using v by (simp add: peek_dec)
  then obtain c s where cs: "dec v @ r = c # s" "is_digit c" by (cases "dec v @ r") auto
  note ns = digit_not_special [OF cs(2)]
  show ?thesis using dec_digits_dec [OF v(1) assms(2)] ns v by (simp add: atoi_def cs c_int_def)
qed

text \<open>Each of the three lookups finds the line written for it and no other.\<close>

lemma intl_from_written:
  assumes "valid_node (node_to m)"
  shows "kludge_from_tline (intl_line m) ''INTL'' =
    Some (znf1 ((node_to m)\<lparr>point := 0, domain := []\<rparr>) @ CHR '' '' #
      znf1 ((node_from m)\<lparr>point := 0, domain := []\<rparr>) @ [ch_cr])"
proof -
  obtain c s where z: "znf1 ((node_to m)\<lparr>point := 0, domain := []\<rparr>) = c # s" "\<not> is_space c"
    using znf1_word [OF assms] by (cases "znf1 ((node_to m)\<lparr>point := 0, domain := []\<rparr>)") (auto simp: word_def)
  then show ?thesis using kludge_hit [of "''INTL''"] by (simp add: intl_line_def)
qed

lemma intl_line_others:
  "kludge_from_tline (intl_line m) ''FMPT'' = None" "kludge_from_tline (intl_line m) ''TOPT'' = None"
  by (simp_all add: intl_line_def kludge_miss letters_differ)

lemma pt_line_hit:
  assumes "0 < p" "ftn_num p"
  shows "kludge_from_tline (ch_ctrl_a # name @ CHR '' '' # dec p @ [ch_cr]) name = Some (dec p @ [ch_cr])"
proof -
  have "is_digit (peek (dec p @ [ch_cr]))" using assms by (simp add: peek_dec)
  then have "\<not> is_space (peek (dec p @ [ch_cr]))" by (rule digit_word(2))
  then show ?thesis by (cases "dec p") (simp_all add: kludge_hit)
qed

lemma pt_lines_others:
  "l \<in> set (pt_lines ''TOPT'' p) \<Longrightarrow> kludge_from_tline l ''FMPT'' = None"
  by (auto simp: pt_lines_def kludge_miss letters_differ)

text \<open>Taking a point kludge off the head of the list.\<close>

lemma take_point:
  assumes "\<forall>l \<in> set rest. kludge_from_tline l name = None" "0 \<le> p" "ftn_num p"
  shows "kludge_get (pt_lines name p @ rest) name = (if p > 0 then Some (dec p @ [ch_cr], 0) else None)"
  using assms pt_line_hit [of p name] by (auto simp: pt_lines_def kludge_get_None)


definition sample_netmail :: message where
  "sample_netmail = \<lparr>node_from = mk_node 2 5020 1 7, node_to = mk_node 2 5020 545 0, node_orig = mk_node 0 0 0 0,
     attr = 0, cost = 0, date = 0, tz = None, name_to = [], name_from = [], subject = [], area = None\<rparr>"


end
