(* ===== verification/Wildmat.thy ===== *)
theory Wildmat
  imports Strtok "HOL-Library.Sublist"
begin

text \<open>
  Shell patterns: \<open>wildmatch\<close> of \<open>src/common/wildmat.c\<close>, its file and list users, and the proof
  that the iterative matcher, which remembers only the last star, decides the usual meaning of
  the patterns.
\<close>

subsection \<open>The matcher\<close>

definition upper_int :: "int \<Rightarrow> int" where
  "upper_int c = (if 97 \<le> c \<and> c \<le> 122 then c - 97 + 65 else c)"

definition char_eq :: "int \<Rightarrow> int \<Rightarrow> bool \<Rightarrow> bool" where
  "char_eq c1 c2 ic \<longleftrightarrow> (if ic then upper_int c1 = upper_int c2 else c1 = c2)"

definition char_range :: "int \<Rightarrow> int \<Rightarrow> int \<Rightarrow> bool \<Rightarrow> bool" where
  "char_range c c1 c2 ic \<longleftrightarrow>
     (if ic then upper_int c1 \<le> upper_int c \<and> upper_int c \<le> upper_int c2 else c1 \<le> c \<and> c \<le> c2)"

text \<open>
  The loop over a \<open>[...]\<close> class, from behind the bracket: whether a member matched and the pattern
  behind the closing bracket, \<open>None\<close> when the pattern ends first.  A \<open>-\<close> at the end of the pattern
  makes it read past the NUL: the outer \<open>None\<close>.
\<close>

fun class_loop :: "bool \<Rightarrow> int \<Rightarrow> int \<Rightarrow> bool \<Rightarrow> cstring \<Rightarrow> (bool \<times> cstring option) option" where
  "class_loop ic c prev matched [] = Some (matched, None)"
| "class_loop ic c prev matched (x # p) =
     (if x = CHR '']'' then Some (matched, Some p)
      else if x = CHR ''-'' then
        (case p of [] \<Rightarrow> None
         | y # p \<Rightarrow> class_loop ic c (schar y) (matched \<or> char_range c prev (schar y) ic) p)
      else class_loop ic c (schar x) (matched \<or> char_eq c (schar x) ic) p)"

text \<open>
  A pointer into the string is the rest of it, or \<open>None\<close> behind its NUL, where reading is
  undefined.  \<open>saved\<close> holds the string and pattern pointers of the last star.
\<close>

type_synonym sptr = "cstring option"

definition adv :: "cstring \<Rightarrow> sptr" where
  "adv s = (case s of [] \<Rightarrow> None | _ # t \<Rightarrow> Some t)"

fun saved_pat :: "(sptr \<times> cstring) option \<Rightarrow> nat" where
  "saved_pat None = 0"
| "saved_pat (Some (ss, sp)) = length sp"

fun saved_str :: "(sptr \<times> cstring) option \<Rightarrow> nat" where
  "saved_str (Some (Some ss, sp)) = length ss"
| "saved_str _ = 0"

definition back_track :: "(sptr \<times> cstring) option \<Rightarrow> (bool option, cstring \<times> cstring) sum" where
  "back_track saved =
     (case saved of None \<Rightarrow> Inl (Some False)
      | Some (None, sp) \<Rightarrow> Inl None
      | Some (Some ss, sp) \<Rightarrow>
          if ss = [] \<or> tl ss = [] then Inl (Some False) else Inr (tl ss, sp))"

text \<open>One round of the pattern loop: a result, a step of both pointers, a star, or a mismatch.\<close>

datatype wm_step = Result "bool option" | Continue sptr cstring | Star cstring | Mismatch

definition wm_one :: "bool \<Rightarrow> sptr \<Rightarrow> cstring \<Rightarrow> wm_step" where
  "wm_one ic s p =
     (case p of
        [] \<Rightarrow> (case s of None \<Rightarrow> Result None
               | Some s \<Rightarrow> if s = [] then Result (Some True) else Mismatch)
      | x # r \<Rightarrow>
          if x = CHR ''*'' then (if r = [] then Result (Some True) else Star r)
          else
            (case s of None \<Rightarrow> Result None
             | Some s \<Rightarrow>
                if x = CHR ''?'' then
                  (if s = [] then Result (Some False) else Continue (adv s) r)
                else if x = CHR ''['' then
                  (let reverse = (peek r = CHR ''^''); r = (if reverse then tl r else r) in
                   case class_loop ic (schar (peek s)) 256 False r of
                     None \<Rightarrow> Result None
                   | Some (matched, rest) \<Rightarrow>
                       if matched = reverse then Mismatch
                       else (case rest of None \<Rightarrow> Result None | Some r \<Rightarrow> Continue (adv s) r))
                else
                  (let lit = (if x = ch_bslash then r else p) in
                   if \<not> char_eq (schar (peek s)) (schar (peek lit)) ic then Mismatch
                   else if lit = [] then Result None
                   else Continue (adv s) (tl lit))))"

lemma class_loop_length:
  "class_loop ic c prev m p = Some (b, Some r) \<Longrightarrow> length r < length p"
  by (induction ic c prev m p rule: class_loop.induct)
     (auto split: if_splits list.splits intro: less_SucI)

lemma wm_one_shorter: "wm_one ic s p = Continue s' p' \<Longrightarrow> length p' < length p"
  by (cases p)
     (auto simp: wm_one_def Let_def split: if_splits option.splits prod.splits
       dest!: class_loop_length)

lemma wm_one_star: "wm_one ic s p = Star p' \<Longrightarrow> p = CHR ''*'' # p' \<and> p' \<noteq> []"
  by (auto simp: wm_one_def Let_def split: if_splits option.splits prod.splits list.splits)

lemma back_track_Inr: "back_track saved = Inr (s, p) \<Longrightarrow>
    \<exists>ss. saved = Some (Some ss, p) \<and> ss \<noteq> [] \<and> s = tl ss \<and> s \<noteq> []"
  by (auto simp: back_track_def split: option.splits if_splits prod.splits)

function wm_loop :: "bool \<Rightarrow> (sptr \<times> cstring) option \<Rightarrow> sptr \<Rightarrow> cstring \<Rightarrow> bool option" where
  "wm_loop ic saved s p =
     (case wm_one ic s p of
        Result r \<Rightarrow> r
      | Continue s' p' \<Rightarrow> wm_loop ic saved s' p'
      | Star p' \<Rightarrow> wm_loop ic (Some (s, p')) s p'
      | Mismatch \<Rightarrow>
          (case back_track saved of
             Inl r \<Rightarrow> r
           | Inr (s', p') \<Rightarrow> wm_loop ic (Some (Some s', p')) (Some s') p'))"
  by pat_completeness auto
termination
  by (relation "measures [\<lambda>(ic, saved, s, p). max (length p) (saved_pat saved),
      \<lambda>(ic, saved, s, p). saved_str saved, \<lambda>(ic, saved, s, p). length p]")
     (auto dest!: wm_one_shorter wm_one_star back_track_Inr)

declare wm_loop.simps [simp del]

text \<open>\<open>ic\<close> is FALSE, TRUE or \<open>TRUE + 1\<close>, which swaps the arguments.\<close>

definition wildmatch :: "cstring \<Rightarrow> cstring \<Rightarrow> int \<Rightarrow> bool option" where
  "wildmatch s p ic =
     (if ic = 2 then wm_loop True None (Some p) s else wm_loop (ic \<noteq> 0) None (Some s) p)"

definition wildmat :: "cstring \<Rightarrow> cstring \<Rightarrow> bool option" where
  "wildmat s pat = wildmatch s pat 0"

definition is_wildcard :: "cstring \<Rightarrow> bool" where
  "is_wildcard s \<longleftrightarrow> CHR ''*'' \<in> set s \<or> CHR ''?'' \<in> set s \<or> CHR ''['' \<in> set s"

text \<open>\<open>wildmatch_file\<close>: one pattern per line (a NULL file gives FALSE), cut at the first blank.\<close>

fun wildmatch_lines :: "cstring \<Rightarrow> int \<Rightarrow> cstring list \<Rightarrow> bool option" where
  "wildmatch_lines s ic [] = Some False"
| "wildmatch_lines s ic (buf # bufs) =
     (case wildmatch s (takeWhile (\<lambda>c. \<not> is_space c) buf) ic of
        None \<Rightarrow> None | Some True \<Rightarrow> Some True | Some False \<Rightarrow> wildmatch_lines s ic bufs)"

definition wildmatch_file :: "cstring \<Rightarrow> cstring list option \<Rightarrow> int \<Rightarrow> bool option" where
  "wildmatch_file s lines ic = (case lines of None \<Rightarrow> Some False | Some bufs \<Rightarrow> wildmatch_lines s ic bufs)"

text \<open>\<open>list_match\<close> of \<open>misc.c\<close>: later patterns override earlier ones, \<open>!pattern\<close> excludes.\<close>

fun match_pats :: "bool \<Rightarrow> cstring \<Rightarrow> cstring list \<Rightarrow> bool option" where
  "match_pats m g [] = Some m"
| "match_pats m g (p # ps) =
     (if peek p = CHR ''!'' then
        do { b \<leftarrow> wildmat g (tl p); match_pats (if b then False else m) g ps }
      else do { b \<leftarrow> wildmat g p; match_pats (if b then True else m) g ps })"

fun match_groups :: "bool \<Rightarrow> cstring list \<Rightarrow> cstring list \<Rightarrow> bool option" where
  "match_groups m pats [] = Some m"
| "match_groups m pats (g # gs) = do { m \<leftarrow> match_pats m g pats; match_groups m pats gs }"

definition list_match :: "cstring list option \<Rightarrow> cstring list option \<Rightarrow> bool option" where
  "list_match pats lst =
     (case (pats, lst) of
        (Some (p # ps), Some gs) \<Rightarrow> match_groups False (p # ps) gs
      | _ \<Rightarrow> Some False)"

subsection \<open>What a pattern means\<close>

datatype wtok = WLit char | WAny | WClass bool cstring | WStar

fun in_class :: "bool \<Rightarrow> int \<Rightarrow> int \<Rightarrow> cstring \<Rightarrow> bool" where
  "in_class ic c prev [] = False"
| "in_class ic c prev (x # b) =
     (if x = CHR ''-'' then
        (case b of [] \<Rightarrow> False
         | y # b \<Rightarrow> char_range c prev (schar y) ic \<or> in_class ic c (schar y) b)
      else char_eq c (schar x) ic \<or> in_class ic c (schar x) b)"

fun tok_ok :: "bool \<Rightarrow> wtok \<Rightarrow> char \<Rightarrow> bool" where
  "tok_ok ic (WLit d) c = char_eq (schar c) (schar d) ic"
| "tok_ok ic WAny c = True"
| "tok_ok ic (WClass reverse body) c = (in_class ic (schar c) 256 body \<noteq> reverse)"
| "tok_ok ic WStar c = True"

function matches :: "bool \<Rightarrow> wtok list \<Rightarrow> cstring \<Rightarrow> bool" where
  "matches ic [] s = (s = [])"
| "matches ic (t # ts) s =
     (if t = WStar then
        (if s = [] then matches ic ts s else matches ic ts s \<or> matches ic (t # ts) (tl s))
      else s \<noteq> [] \<and> tok_ok ic t (hd s) \<and> matches ic ts (tl s))"
  by pat_completeness auto
termination
  by (relation "measure (\<lambda>(ic, ts, s). length ts + length s)") auto

declare matches.simps [simp del]

text \<open>Splitting the pattern text into tokens; \<open>None\<close> for an open class or a trailing backslash.\<close>

fun class_body :: "cstring \<Rightarrow> (cstring \<times> cstring) option" where
  "class_body [] = None"
| "class_body (x # p) =
     (if x = CHR '']'' then Some ([], p)
      else if x = CHR ''-'' then
        (case p of [] \<Rightarrow> None
         | y # p \<Rightarrow> (case class_body p of None \<Rightarrow> None | Some (b, r) \<Rightarrow> Some (x # y # b, r)))
      else (case class_body p of None \<Rightarrow> None | Some (b, r) \<Rightarrow> Some (x # b, r)))"

lemma class_body_length: "class_body p = Some (b, r) \<Longrightarrow> length r < length p"
  by (induction p arbitrary: b rule: class_body.induct)
     (auto split: if_splits list.splits option.splits intro: less_SucI)

definition first_tok :: "cstring \<Rightarrow> (wtok \<times> cstring) option" where
  "first_tok p =
     (case p of [] \<Rightarrow> None
      | x # r \<Rightarrow>
          if x = CHR ''*'' then Some (WStar, r)
          else if x = CHR ''?'' then Some (WAny, r)
          else if x = CHR ''['' then
            (let reverse = (peek r = CHR ''^'') in
             case class_body (if reverse then tl r else r) of
               None \<Rightarrow> None | Some (b, r) \<Rightarrow> Some (WClass reverse b, r))
          else
            (let lit = (if x = ch_bslash then r else p) in
             if lit = [] then None else Some (WLit (hd lit), tl lit)))"

lemma first_tok_length: "first_tok p = Some (t, r) \<Longrightarrow> length r < length p"
  by (cases p)
     (auto simp: first_tok_def Let_def split: if_splits option.splits dest!: class_body_length)

function parse_pat :: "cstring \<Rightarrow> wtok list option" where
  "parse_pat p =
     (if p = [] then Some []
      else case first_tok p of None \<Rightarrow> None
           | Some (t, r) \<Rightarrow> (case parse_pat r of None \<Rightarrow> None | Some ts \<Rightarrow> Some (t # ts)))"
  by auto
termination by (relation "measure length") (auto dest: first_tok_length)

declare parse_pat.simps [simp del]

text \<open>No token but \<open>?\<close> and \<open>*\<close> accepts the NUL at the end of the string.\<close>

definition safe_pat :: "bool \<Rightarrow> wtok list \<Rightarrow> bool" where
  "safe_pat ic ts \<longleftrightarrow> (\<forall>t \<in> set ts. t \<noteq> WStar \<and> t \<noteq> WAny \<longrightarrow> \<not> tok_ok ic t ch_nul)"

subsection \<open>One round, on tokens\<close>

lemma class_loop_body:
  "class_body p = Some (b, r) \<Longrightarrow>
     class_loop ic c prev m p = Some (m \<or> in_class ic c prev b, Some r)"
  by (induction p arbitrary: prev m b rule: class_body.induct)
     (auto split: if_splits list.splits option.splits)

lemma parse_pat_Nil: "parse_pat p = Some [] \<longleftrightarrow> p = []"
  by (subst parse_pat.simps) (auto split: option.splits)

lemma parse_pat_Cons:
  assumes "parse_pat p = Some (t # ts)"
  obtains r where "first_tok p = Some (t, r)" "parse_pat r = Some ts"
  using assms by (subst (asm) parse_pat.simps) (auto split: if_splits option.splits)

lemma wm_one_Nil: "wm_one ic (Some s) [] = (if s = [] then Result (Some True) else Mismatch)"
  by (simp add: wm_one_def)

lemma wm_one_WStar:
  assumes "first_tok p = Some (WStar, r)"
  shows "wm_one ic (Some s) p = (if r = [] then Result (Some True) else Star r)"
proof -
  obtain x q where p: "p = x # q" using assms by (cases p) (auto simp: first_tok_def)
  then have "x = CHR ''*''" "q = r"
    using assms by (auto simp: first_tok_def Let_def split: if_splits option.splits)
  then show ?thesis using p by (simp add: wm_one_def)
qed

lemma wm_one_tok:
  assumes "first_tok p = Some (t, r)" "t \<noteq> WStar"
  shows "wm_one ic (Some s) p =
    (if t = WAny then (if s = [] then Result (Some False) else Continue (adv s) r)
     else if tok_ok ic t (peek s) then Continue (adv s) r else Mismatch)"
proof -
  obtain x q where p: "p = x # q" using assms by (cases p) (auto simp: first_tok_def)
  have ns: "x \<noteq> CHR ''*''" using assms p by (auto simp: first_tok_def)
  consider "x = CHR ''?''" | "x = CHR ''[''" | "x \<noteq> CHR ''?''" "x \<noteq> CHR ''[''" by blast
  then show ?thesis
  proof cases
    case 1
    then show ?thesis using assms p by (auto simp: first_tok_def wm_one_def)
  next
    case 2
    define q' where "q' = (if peek q = CHR ''^'' then tl q else q)"
    obtain b where b: "class_body q' = Some (b, r)" "t = WClass (peek q = CHR ''^'') b"
      using assms p 2 by (auto simp: first_tok_def q'_def Let_def split: option.splits)
    show ?thesis
      using class_loop_body [OF b(1), of ic "schar (peek s)" 256 False] b(2) p 2
      by (cases "peek q = CHR ''^''") (auto simp: q'_def wm_one_def Let_def)
  next
    case 3
    define lit where "lit = (if x = ch_bslash then q else p)"
    have "lit \<noteq> []" "t = WLit (hd lit)" "r = tl lit"
      using assms p 3 ns by (auto simp: first_tok_def lit_def Let_def split: if_splits)
    then show ?thesis
      using p 3 ns unfolding wm_one_def lit_def by (cases lit) (auto simp: Let_def lit_def)
  qed
qed

subsection \<open>Correctness\<close>

lemma matches_tok: "t \<noteq> WStar \<Longrightarrow>
    matches ic (t # ts) s \<longleftrightarrow> s \<noteq> [] \<and> tok_ok ic t (hd s) \<and> matches ic ts (tl s)"
  by (simp add: matches.simps)

lemma matches_star: "matches ic (WStar # ts) s \<longleftrightarrow> (\<exists>t. suffix t s \<and> matches ic ts t)"
proof (induction s)
  case Nil
  then show ?case by (subst matches.simps) simp
next
  case (Cons a s)
  then show ?case by (subst matches.simps) (auto simp: suffix_Cons)
qed

lemma matches_prefix:
  "WStar \<notin> set w \<Longrightarrow>
     matches ic (w @ ts) s \<longleftrightarrow> (\<exists>a b. s = a @ b \<and> list_all2 (tok_ok ic) w a \<and> matches ic ts b)"
proof (induction w arbitrary: s)
  case (Cons t w)
  then have "t \<noteq> WStar" "WStar \<notin> set w" by auto
  then show ?case using Cons.IH
    by (cases s) (auto simp: matches_tok list_all2_Cons1 Cons_eq_append_conv)
qed simp

definition alternatives :: "bool \<Rightarrow> (sptr \<times> cstring) option \<Rightarrow> bool" where
  "alternatives ic saved =
     (case saved of
        Some (Some ss, sp) \<Rightarrow> (\<exists>t. strict_suffix t ss \<and> matches ic (the (parse_pat sp)) t)
      | _ \<Rightarrow> False)"

text \<open>The pattern behind the last star has been consumed up to here, token by token.\<close>

definition wm_inv :: "bool \<Rightarrow> (sptr \<times> cstring) option \<Rightarrow> cstring \<Rightarrow> wtok list \<Rightarrow> bool" where
  "wm_inv ic saved s ts \<longleftrightarrow> safe_pat ic ts \<and>
     (case saved of
        None \<Rightarrow> True
      | Some (None, sp) \<Rightarrow> False
      | Some (Some ss, sp) \<Rightarrow>
          (\<exists>w u. parse_pat sp = Some (w @ ts) \<and> w @ ts \<noteq> [] \<and> WStar \<notin> set w \<and> safe_pat ic w \<and>
             ss = u @ s \<and> length u = length w))"

lemma wm_inv_continue:
  assumes "wm_inv ic saved (c # s) (t # ts)" "t \<noteq> WStar"
  shows "wm_inv ic saved s ts"
proof (cases saved)
  case None
  then show ?thesis using assms by (simp add: wm_inv_def safe_pat_def)
next
  case (Some ssp)
  then obtain ss sp w u where sv: "saved = Some (Some ss, sp)" and
    i: "parse_pat sp = Some (w @ t # ts)" "WStar \<notin> set w" "safe_pat ic w" "safe_pat ic (t # ts)"
    "ss = u @ c # s" "length u = length w"
    using assms(1) by (cases ssp; cases "fst ssp") (auto simp: wm_inv_def)
  show ?thesis unfolding wm_inv_def sv using i assms(2)
    by (auto simp: safe_pat_def intro!: exI [of _ "w @ [t]"] exI [of _ "u @ [c]"])
qed

lemma strict_suffix_less: "strict_suffix q ss \<Longrightarrow> length q < length ss"
  by (auto simp: strict_suffix_def suffix_def)

lemma alternatives_length:
  assumes "wm_inv ic saved [] (t # ts)" "t \<noteq> WStar"
  shows "\<not> alternatives ic saved"
proof
  assume "alternatives ic saved"
  then obtain ss sp q where sv: "saved = Some (Some ss, sp)" "strict_suffix q ss"
    "matches ic (the (parse_pat sp)) q"
    by (auto simp: alternatives_def split: option.splits prod.splits)
  then obtain w where w: "parse_pat sp = Some (w @ t # ts)" "WStar \<notin> set w" "length ss = length w"
    using assms by (auto simp: wm_inv_def)
  then obtain a b where q: "q = a @ b" "length w = length a" "matches ic (t # ts) b"
    using sv matches_prefix [OF w(2)] by (auto dest: list_all2_lengthD)
  then have "b \<noteq> []" using assms(2) by (auto simp: matches_tok)
  moreover have "length q < length ss" using sv(2) by (rule strict_suffix_less)
  ultimately show False using q w by simp
qed

lemma alternatives_star:
  assumes "wm_inv ic saved s (WStar # ts)" "alternatives ic saved"
  shows "matches ic (WStar # ts) s"
proof -
  obtain ss sp q where sv: "saved = Some (Some ss, sp)" "strict_suffix q ss"
    "matches ic (the (parse_pat sp)) q"
    using assms(2) by (auto simp: alternatives_def split: option.splits prod.splits)
  then obtain w u where w: "parse_pat sp = Some (w @ WStar # ts)" "WStar \<notin> set w" "ss = u @ s"
      "length u = length w"
    using assms(1) by (auto simp: wm_inv_def)
  then obtain a b where q: "q = a @ b" "length w = length a" "matches ic (WStar # ts) b"
    using sv matches_prefix [OF w(2)] by (auto dest: list_all2_lengthD)
  then obtain c where c: "suffix c b" "matches ic ts c" by (auto simp: matches_star)
  have "suffix b s"
  proof -
    obtain r where "ss = r @ q" using sv(2) by (auto simp: strict_suffix_def suffix_def)
    then have "suffix b (u @ s)" using q w(3) by (simp add: suffix_def)
    moreover have "length b \<le> length s"
      using strict_suffix_less [OF sv(2)] w q by simp
    ultimately show ?thesis using suffix_length_suffix [of b "u @ s" s] by (simp add: suffix_def)
  qed
  then show ?thesis using c by (auto simp: matches_star intro: suffix_order.trans)
qed

text \<open>After a mismatch the matcher continues one character behind the last star, or gives up.\<close>

lemma mismatch_back_track:
  assumes "wm_inv ic saved s ts" "ts = [] \<and> s \<noteq> [] \<or> (\<exists>t ts'. ts = t # ts' \<and> t \<noteq> WStar)"
  shows "case back_track saved of
      Inl r \<Rightarrow> r = Some False \<and> \<not> alternatives ic saved
    | Inr (s', p') \<Rightarrow>
        (\<exists>ts'. parse_pat p' = Some ts' \<and> wm_inv ic (Some (Some s', p')) s' ts' \<and>
          (alternatives ic saved \<longleftrightarrow> matches ic ts' s' \<or> alternatives ic (Some (Some s', p'))))"
proof (cases saved)
  case None
  then show ?thesis by (simp add: back_track_def alternatives_def)
next
  case (Some ssp)
  then obtain ss sp w u where sv: "saved = Some (Some ss, sp)" and
    i: "parse_pat sp = Some (w @ ts)" "w @ ts \<noteq> []" "WStar \<notin> set w" "safe_pat ic w" "safe_pat ic ts"
    "ss = u @ s" "length u = length w"
    using assms(1) by (cases ssp; cases "fst ssp") (auto simp: wm_inv_def)
  have nn: "\<not> matches ic (w @ ts) []"
    using i assms(2) by (cases w) (auto simp: matches_tok)
  show ?thesis
  proof (cases "ss = [] \<or> tl ss = []")
    case True
    then have "q = []" if "strict_suffix q ss" for q
      using that by (cases ss) (auto simp: strict_suffix_def suffix_Cons)
    then show ?thesis
      using True nn by (auto simp: sv back_track_def alternatives_def i(1))
  next
    case False
    then obtain c s' where ss: "ss = c # s'" "s' \<noteq> []" by (cases ss) auto
    have "strict_suffix q ss \<longleftrightarrow> q = s' \<or> strict_suffix q s'" for q
      unfolding ss strict_suffix_def suffix_Cons by (auto dest: suffix_length_le)
    then have "alternatives ic saved \<longleftrightarrow> matches ic (w @ ts) s' \<or> alternatives ic (Some (Some s', sp))"
      by (auto simp: alternatives_def sv i(1))
    moreover have "wm_inv ic (Some (Some s', sp)) s' (w @ ts)"
      using i by (auto simp: wm_inv_def safe_pat_def)
    ultimately show ?thesis
      using ss i(1) by (auto simp: sv back_track_def)
  qed
qed

lemma wm_loop_correct:
  assumes "parse_pat p = Some ts" "wm_inv ic saved s ts"
  shows "wm_loop ic saved (Some s) p = Some (matches ic ts s \<or> alternatives ic saved)"
  using assms
proof (induction ic saved "Some s" p arbitrary: s ts rule: wm_loop.induct)
  case (1 ic saved p s ts)
  have mm: ?case if m: "wm_one ic (Some s) p = Mismatch" and
    t: "ts = [] \<and> s \<noteq> [] \<or> (\<exists>t ts'. ts = t # ts' \<and> t \<noteq> WStar)" and nm: "\<not> matches ic ts s"
  proof (cases "back_track saved")
    case (Inl r)
    then show ?thesis
      using mismatch_back_track [OF 1(5) t] m nm by (simp add: wm_loop.simps [of ic saved "Some s" p])
  next
    case (Inr sp')
    obtain s' p' where sp': "sp' = (s', p')" by (cases sp')
    obtain ts' where b: "parse_pat p' = Some ts'" "wm_inv ic (Some (Some s', p')) s' ts'"
      "alternatives ic saved \<longleftrightarrow> matches ic ts' s' \<or> alternatives ic (Some (Some s', p'))"
      using mismatch_back_track [OF 1(5) t] Inr sp' by auto
    show ?thesis
      using 1(3) [OF m Inr sp' [symmetric]] b m nm Inr sp'
      by (simp add: wm_loop.simps [of ic saved "Some s" p])
  qed
  show ?case
  proof (cases ts)
    case Nil
    then have p: "p = []" using 1(4) parse_pat_Nil by simp
    show ?thesis
    proof (cases "s = []")
      case True
      then show ?thesis
        using p Nil by (simp add: wm_loop.simps [of ic saved "Some []" "[]"] wm_one_Nil matches.simps(1))
    next
      case False
      show ?thesis
        by (rule mm) (use False Nil p in \<open>simp_all add: wm_one_Nil matches.simps(1)\<close>)
    qed
  next
    case (Cons t ts')
    obtain r where r: "first_tok p = Some (t, r)" "parse_pat r = Some ts'"
      using parse_pat_Cons 1(4) Cons by metis
    show ?thesis
    proof (cases "t = WStar")
      case True
      note w = wm_one_WStar [OF r(1) [unfolded True], of ic s]
      show ?thesis
      proof (cases "r = []")
        case r0: True
        then have "ts' = []" using r(2) by (simp add: parse_pat.simps)
        then have "matches ic ts s" using Cons True by (auto simp: matches_star matches.simps(1))
        then show ?thesis using w r0 by (simp add: wm_loop.simps [of ic saved "Some s" p])
      next
        case False
        have i: "wm_inv ic (Some (Some s, r)) s ts'"
          using 1(5) r(2) Cons False parse_pat_Nil [of r] by (auto simp: wm_inv_def safe_pat_def)
        have "wm_loop ic (Some (Some s, r)) (Some s) r
            = Some (matches ic ts' s \<or> alternatives ic (Some (Some s, r)))"
          by (rule 1(2)) (use w False r(2) i in auto)
        moreover have "matches ic ts' s \<or> alternatives ic (Some (Some s, r)) \<longleftrightarrow> matches ic ts s"
          using Cons True r(2)
          by (auto simp: alternatives_def matches_star strict_suffix_def)
        moreover have "alternatives ic saved \<longrightarrow> matches ic ts s"
          using alternatives_star 1(5) Cons True by blast
        ultimately show ?thesis
          using w False by (auto simp: wm_loop.simps [of ic saved "Some s" p])
      qed
    next
      case ns: False
      note w = wm_one_tok [OF r(1) ns, of ic s]
      have safe: "t \<noteq> WAny \<Longrightarrow> \<not> tok_ok ic t ch_nul"
        using 1(5) Cons ns by (auto simp: wm_inv_def safe_pat_def)
      show ?thesis
      proof (cases s)
        case Nil
        show ?thesis
        proof (cases "t = WAny")
          case True
          then have "\<not> alternatives ic saved"
            using alternatives_length [of ic saved t ts'] 1(5) Cons Nil ns by simp
          then show ?thesis
            using w True Nil Cons by (simp add: wm_loop.simps [of ic saved "Some []" p] matches_tok)
        next
          case False
          show ?thesis
            by (rule mm) (use False Nil Cons w ns safe in \<open>auto simp: matches_tok\<close>)
        qed
      next
        case (Cons c s')
        show ?thesis
        proof (cases "tok_ok ic t c")
          case True
          then have c: "wm_one ic (Some s) p = Continue (Some s') r"
            using w Cons by (auto simp: adv_def)
          have "wm_loop ic saved (Some s') r = Some (matches ic ts' s' \<or> alternatives ic saved)"
            using 1(1) [OF c r(2)] wm_inv_continue 1(5) Cons \<open>ts = t # ts'\<close> ns by blast
          then show ?thesis
            using c True ns Cons \<open>ts = t # ts'\<close>
            by (simp add: wm_loop.simps [of ic saved "Some (c # s')" p] matches_tok)
        next
          case False
          show ?thesis
            by (rule mm) (use False Cons \<open>ts = t # ts'\<close> w ns in \<open>auto simp: matches_tok\<close>)
        qed
      qed
    qed
  qed
qed



text \<open>
  The condition on the classes is needed: \<open>[^...]\<close> accepts the NUL, so the matcher walks past the
  end of the string.
\<close>

lemma negated_class_overruns: "wildmatch ''a'' ''a[^x]'' 0 = None"
  by (simp add: wildmatch_def wm_loop.simps wm_one_def adv_def char_eq_def schar_def code_def)

end
