(* ===== verification/Crc.thy ===== *)
theory Crc
  imports Fido_Prelude
begin

text \<open>
  The checksums of \<open>src/common/crc16.c\<close> and \<open>src/common/crc32.c\<close>: the three lookup tables as
  they stand in the source, the byte-wise updates, and the proof that each computes the
  bit-serial CRC of its polynomial.  A register of type \<open>unsigned int\<close> is a 32-bit word, one of
  type \<open>unsigned long\<close> a 64-bit word.
\<close>

definition crc16tab :: "32 word list" where
  "crc16tab = [
    0x0000, 0xC0C1, 0xC181, 0x0140, 0xC301, 0x03C0, 0x0280, 0xC241,
    0xC601, 0x06C0, 0x0780, 0xC741, 0x0500, 0xC5C1, 0xC481, 0x0440,
    0xCC01, 0x0CC0, 0x0D80, 0xCD41, 0x0F00, 0xCFC1, 0xCE81, 0x0E40,
    0x0A00, 0xCAC1, 0xCB81, 0x0B40, 0xC901, 0x09C0, 0x0880, 0xC841,
    0xD801, 0x18C0, 0x1980, 0xD941, 0x1B00, 0xDBC1, 0xDA81, 0x1A40,
    0x1E00, 0xDEC1, 0xDF81, 0x1F40, 0xDD01, 0x1DC0, 0x1C80, 0xDC41,
    0x1400, 0xD4C1, 0xD581, 0x1540, 0xD701, 0x17C0, 0x1680, 0xD641,
    0xD201, 0x12C0, 0x1380, 0xD341, 0x1100, 0xD1C1, 0xD081, 0x1040,
    0xF001, 0x30C0, 0x3180, 0xF141, 0x3300, 0xF3C1, 0xF281, 0x3240,
    0x3600, 0xF6C1, 0xF781, 0x3740, 0xF501, 0x35C0, 0x3480, 0xF441,
    0x3C00, 0xFCC1, 0xFD81, 0x3D40, 0xFF01, 0x3FC0, 0x3E80, 0xFE41,
    0xFA01, 0x3AC0, 0x3B80, 0xFB41, 0x3900, 0xF9C1, 0xF881, 0x3840,
    0x2800, 0xE8C1, 0xE981, 0x2940, 0xEB01, 0x2BC0, 0x2A80, 0xEA41,
    0xEE01, 0x2EC0, 0x2F80, 0xEF41, 0x2D00, 0xEDC1, 0xEC81, 0x2C40,
    0xE401, 0x24C0, 0x2580, 0xE541, 0x2700, 0xE7C1, 0xE681, 0x2640,
    0x2200, 0xE2C1, 0xE381, 0x2340, 0xE101, 0x21C0, 0x2080, 0xE041,
    0xA001, 0x60C0, 0x6180, 0xA141, 0x6300, 0xA3C1, 0xA281, 0x6240,
    0x6600, 0xA6C1, 0xA781, 0x6740, 0xA501, 0x65C0, 0x6480, 0xA441,
    0x6C00, 0xACC1, 0xAD81, 0x6D40, 0xAF01, 0x6FC0, 0x6E80, 0xAE41,
    0xAA01, 0x6AC0, 0x6B80, 0xAB41, 0x6900, 0xA9C1, 0xA881, 0x6840,
    0x7800, 0xB8C1, 0xB981, 0x7940, 0xBB01, 0x7BC0, 0x7A80, 0xBA41,
    0xBE01, 0x7EC0, 0x7F80, 0xBF41, 0x7D00, 0xBDC1, 0xBC81, 0x7C40,
    0xB401, 0x74C0, 0x7580, 0xB541, 0x7700, 0xB7C1, 0xB681, 0x7640,
    0x7200, 0xB2C1, 0xB381, 0x7340, 0xB101, 0x71C0, 0x7080, 0xB041,
    0x5000, 0x90C1, 0x9181, 0x5140, 0x9301, 0x53C0, 0x5280, 0x9241,
    0x9601, 0x56C0, 0x5780, 0x9741, 0x5500, 0x95C1, 0x9481, 0x5440,
    0x9C01, 0x5CC0, 0x5D80, 0x9D41, 0x5F00, 0x9FC1, 0x9E81, 0x5E40,
    0x5A00, 0x9AC1, 0x9B81, 0x5B40, 0x9901, 0x59C0, 0x5880, 0x9841,
    0x8801, 0x48C0, 0x4980, 0x8941, 0x4B00, 0x8BC1, 0x8A81, 0x4A40,
    0x4E00, 0x8EC1, 0x8F81, 0x4F40, 0x8D01, 0x4DC0, 0x4C80, 0x8C41,
    0x4400, 0x84C1, 0x8581, 0x4540, 0x8701, 0x47C0, 0x4680, 0x8641,
    0x8201, 0x42C0, 0x4380, 0x8341, 0x4100, 0x81C1, 0x8081, 0x4040]"

definition crctttab :: "32 word list" where
  "crctttab = [
    0x0000, 0x1021, 0x2042, 0x3063, 0x4084, 0x50A5, 0x60C6, 0x70E7,
    0x8108, 0x9129, 0xA14A, 0xB16B, 0xC18C, 0xD1AD, 0xE1CE, 0xF1EF,
    0x1231, 0x0210, 0x3273, 0x2252, 0x52B5, 0x4294, 0x72F7, 0x62D6,
    0x9339, 0x8318, 0xB37B, 0xA35A, 0xD3BD, 0xC39C, 0xF3FF, 0xE3DE,
    0x2462, 0x3443, 0x0420, 0x1401, 0x64E6, 0x74C7, 0x44A4, 0x5485,
    0xA56A, 0xB54B, 0x8528, 0x9509, 0xE5EE, 0xF5CF, 0xC5AC, 0xD58D,
    0x3653, 0x2672, 0x1611, 0x0630, 0x76D7, 0x66F6, 0x5695, 0x46B4,
    0xB75B, 0xA77A, 0x9719, 0x8738, 0xF7DF, 0xE7FE, 0xD79D, 0xC7BC,
    0x48C4, 0x58E5, 0x6886, 0x78A7, 0x0840, 0x1861, 0x2802, 0x3823,
    0xC9CC, 0xD9ED, 0xE98E, 0xF9AF, 0x8948, 0x9969, 0xA90A, 0xB92B,
    0x5AF5, 0x4AD4, 0x7AB7, 0x6A96, 0x1A71, 0x0A50, 0x3A33, 0x2A12,
    0xDBFD, 0xCBDC, 0xFBBF, 0xEB9E, 0x9B79, 0x8B58, 0xBB3B, 0xAB1A,
    0x6CA6, 0x7C87, 0x4CE4, 0x5CC5, 0x2C22, 0x3C03, 0x0C60, 0x1C41,
    0xEDAE, 0xFD8F, 0xCDEC, 0xDDCD, 0xAD2A, 0xBD0B, 0x8D68, 0x9D49,
    0x7E97, 0x6EB6, 0x5ED5, 0x4EF4, 0x3E13, 0x2E32, 0x1E51, 0x0E70,
    0xFF9F, 0xEFBE, 0xDFDD, 0xCFFC, 0xBF1B, 0xAF3A, 0x9F59, 0x8F78,
    0x9188, 0x81A9, 0xB1CA, 0xA1EB, 0xD10C, 0xC12D, 0xF14E, 0xE16F,
    0x1080, 0x00A1, 0x30C2, 0x20E3, 0x5004, 0x4025, 0x7046, 0x6067,
    0x83B9, 0x9398, 0xA3FB, 0xB3DA, 0xC33D, 0xD31C, 0xE37F, 0xF35E,
    0x02B1, 0x1290, 0x22F3, 0x32D2, 0x4235, 0x5214, 0x6277, 0x7256,
    0xB5EA, 0xA5CB, 0x95A8, 0x8589, 0xF56E, 0xE54F, 0xD52C, 0xC50D,
    0x34E2, 0x24C3, 0x14A0, 0x0481, 0x7466, 0x6447, 0x5424, 0x4405,
    0xA7DB, 0xB7FA, 0x8799, 0x97B8, 0xE75F, 0xF77E, 0xC71D, 0xD73C,
    0x26D3, 0x36F2, 0x0691, 0x16B0, 0x6657, 0x7676, 0x4615, 0x5634,
    0xD94C, 0xC96D, 0xF90E, 0xE92F, 0x99C8, 0x89E9, 0xB98A, 0xA9AB,
    0x5844, 0x4865, 0x7806, 0x6827, 0x18C0, 0x08E1, 0x3882, 0x28A3,
    0xCB7D, 0xDB5C, 0xEB3F, 0xFB1E, 0x8BF9, 0x9BD8, 0xABBB, 0xBB9A,
    0x4A75, 0x5A54, 0x6A37, 0x7A16, 0x0AF1, 0x1AD0, 0x2AB3, 0x3A92,
    0xFD2E, 0xED0F, 0xDD6C, 0xCD4D, 0xBDAA, 0xAD8B, 0x9DE8, 0x8DC9,
    0x7C26, 0x6C07, 0x5C64, 0x4C45, 0x3CA2, 0x2C83, 0x1CE0, 0x0CC1,
    0xEF1F, 0xFF3E, 0xCF5D, 0xDF7C, 0xAF9B, 0xBFBA, 0x8FD9, 0x9FF8,
    0x6E17, 0x7E36, 0x4E55, 0x5E74, 0x2E93, 0x3EB2, 0x0ED1, 0x1EF0]"

definition crc_32_tab :: "64 word list" where
  "crc_32_tab = [
    0x00000000, 0x77073096, 0xee0e612c, 0x990951ba, 0x076dc419, 0x706af48f, 0xe963a535, 0x9e6495a3,
    0x0edb8832, 0x79dcb8a4, 0xe0d5e91e, 0x97d2d988, 0x09b64c2b, 0x7eb17cbd, 0xe7b82d07, 0x90bf1d91,
    0x1db71064, 0x6ab020f2, 0xf3b97148, 0x84be41de, 0x1adad47d, 0x6ddde4eb, 0xf4d4b551, 0x83d385c7,
    0x136c9856, 0x646ba8c0, 0xfd62f97a, 0x8a65c9ec, 0x14015c4f, 0x63066cd9, 0xfa0f3d63, 0x8d080df5,
    0x3b6e20c8, 0x4c69105e, 0xd56041e4, 0xa2677172, 0x3c03e4d1, 0x4b04d447, 0xd20d85fd, 0xa50ab56b,
    0x35b5a8fa, 0x42b2986c, 0xdbbbc9d6, 0xacbcf940, 0x32d86ce3, 0x45df5c75, 0xdcd60dcf, 0xabd13d59,
    0x26d930ac, 0x51de003a, 0xc8d75180, 0xbfd06116, 0x21b4f4b5, 0x56b3c423, 0xcfba9599, 0xb8bda50f,
    0x2802b89e, 0x5f058808, 0xc60cd9b2, 0xb10be924, 0x2f6f7c87, 0x58684c11, 0xc1611dab, 0xb6662d3d,
    0x76dc4190, 0x01db7106, 0x98d220bc, 0xefd5102a, 0x71b18589, 0x06b6b51f, 0x9fbfe4a5, 0xe8b8d433,
    0x7807c9a2, 0x0f00f934, 0x9609a88e, 0xe10e9818, 0x7f6a0dbb, 0x086d3d2d, 0x91646c97, 0xe6635c01,
    0x6b6b51f4, 0x1c6c6162, 0x856530d8, 0xf262004e, 0x6c0695ed, 0x1b01a57b, 0x8208f4c1, 0xf50fc457,
    0x65b0d9c6, 0x12b7e950, 0x8bbeb8ea, 0xfcb9887c, 0x62dd1ddf, 0x15da2d49, 0x8cd37cf3, 0xfbd44c65,
    0x4db26158, 0x3ab551ce, 0xa3bc0074, 0xd4bb30e2, 0x4adfa541, 0x3dd895d7, 0xa4d1c46d, 0xd3d6f4fb,
    0x4369e96a, 0x346ed9fc, 0xad678846, 0xda60b8d0, 0x44042d73, 0x33031de5, 0xaa0a4c5f, 0xdd0d7cc9,
    0x5005713c, 0x270241aa, 0xbe0b1010, 0xc90c2086, 0x5768b525, 0x206f85b3, 0xb966d409, 0xce61e49f,
    0x5edef90e, 0x29d9c998, 0xb0d09822, 0xc7d7a8b4, 0x59b33d17, 0x2eb40d81, 0xb7bd5c3b, 0xc0ba6cad,
    0xedb88320, 0x9abfb3b6, 0x03b6e20c, 0x74b1d29a, 0xead54739, 0x9dd277af, 0x04db2615, 0x73dc1683,
    0xe3630b12, 0x94643b84, 0x0d6d6a3e, 0x7a6a5aa8, 0xe40ecf0b, 0x9309ff9d, 0x0a00ae27, 0x7d079eb1,
    0xf00f9344, 0x8708a3d2, 0x1e01f268, 0x6906c2fe, 0xf762575d, 0x806567cb, 0x196c3671, 0x6e6b06e7,
    0xfed41b76, 0x89d32be0, 0x10da7a5a, 0x67dd4acc, 0xf9b9df6f, 0x8ebeeff9, 0x17b7be43, 0x60b08ed5,
    0xd6d6a3e8, 0xa1d1937e, 0x38d8c2c4, 0x4fdff252, 0xd1bb67f1, 0xa6bc5767, 0x3fb506dd, 0x48b2364b,
    0xd80d2bda, 0xaf0a1b4c, 0x36034af6, 0x41047a60, 0xdf60efc3, 0xa867df55, 0x316e8eef, 0x4669be79,
    0xcb61b38c, 0xbc66831a, 0x256fd2a0, 0x5268e236, 0xcc0c7795, 0xbb0b4703, 0x220216b9, 0x5505262f,
    0xc5ba3bbe, 0xb2bd0b28, 0x2bb45a92, 0x5cb36a04, 0xc2d7ffa7, 0xb5d0cf31, 0x2cd99e8b, 0x5bdeae1d,
    0x9b64c2b0, 0xec63f226, 0x756aa39c, 0x026d930a, 0x9c0906a9, 0xeb0e363f, 0x72076785, 0x05005713,
    0x95bf4a82, 0xe2b87a14, 0x7bb12bae, 0x0cb61b38, 0x92d28e9b, 0xe5d5be0d, 0x7cdcefb7, 0x0bdbdf21,
    0x86d3d2d4, 0xf1d4e242, 0x68ddb3f8, 0x1fda836e, 0x81be16cd, 0xf6b9265b, 0x6fb077e1, 0x18b74777,
    0x88085ae6, 0xff0f6a70, 0x66063bca, 0x11010b5c, 0x8f659eff, 0xf862ae69, 0x616bffd3, 0x166ccf45,
    0xa00ae278, 0xd70dd2ee, 0x4e048354, 0x3903b3c2, 0xa7672661, 0xd06016f7, 0x4969474d, 0x3e6e77db,
    0xaed16a4a, 0xd9d65adc, 0x40df0b66, 0x37d83bf0, 0xa9bcae53, 0xdebb9ec5, 0x47b2cf7f, 0x30b5ffe9,
    0xbdbdf21c, 0xcabac28a, 0x53b39330, 0x24b4a3a6, 0xbad03605, 0xcdd70693, 0x54de5729, 0x23d967bf,
    0xb3667a2e, 0xc4614ab8, 0x5d681b02, 0x2a6f2b94, 0xb40bbe37, 0xc30c8ea1, 0x5a05df1b, 0x2d02ef8d]"

subsection \<open>The source's updates\<close>

record crc16_state =
  crc16 :: "32 word"
  crctt :: "32 word"

definition crc16_init :: "crc16_state \<Rightarrow> crc16_state" where
  "crc16_init st = st\<lparr>crc16 := 0, crctt := 0\<rparr>"

definition crc16_update_ccitt :: "32 word \<Rightarrow> crc16_state \<Rightarrow> crc16_state" where
  "crc16_update_ccitt c st =
     (let tmp = (drop_bit 8 (crctt st) XOR c) AND 0xff
      in st\<lparr>crctt := (push_bit 8 (crctt st) XOR crctttab ! unat tmp) AND 0xffff\<rparr>)"

definition crc16_update :: "32 word \<Rightarrow> crc16_state \<Rightarrow> crc16_state" where
  "crc16_update c st =
     (let tmp = (crc16 st XOR c) AND 0xff
      in st\<lparr>crc16 := (drop_bit 8 (crc16 st) XOR crc16tab ! unat tmp) AND 0xffff\<rparr>)"

definition crc32_init :: "64 word" where
  "crc32_init = 0xffffffff"

definition crc32_update :: "64 word \<Rightarrow> 64 word \<Rightarrow> 64 word" where
  "crc32_update c crcval =
     crc_32_tab ! unat (((crcval AND 0xff) XOR c) AND 0xff) XOR drop_bit 8 crcval"

primrec crc32_compute :: "char list \<Rightarrow> 64 word \<Rightarrow> 64 word" where
  "crc32_compute [] crcval = crcval"
| "crc32_compute (b # s) crcval =
     crc32_compute s (crc_32_tab ! unat (((crcval AND 0xff) XOR of_char b) AND 0xff)
                      XOR drop_bit 8 crcval)"

definition crc32_value :: "64 word \<Rightarrow> 64 word" where
  "crc32_value crcval = NOT crcval AND 0xffffffff"

definition compute_crc32 :: "char list \<Rightarrow> 64 word" where
  "compute_crc32 s = NOT (crc32_compute s 0xffffffff) AND 0xffffffff"

text \<open>\<open>crc32_file\<close> on the bytes of a file that could be opened; \<open>None\<close> is a file that could not.\<close>

definition crc32_file :: "bytes option \<Rightarrow> 64 word" where
  "crc32_file f = (case f of None \<Rightarrow> 0
     | Some bs \<Rightarrow> crc32_value (fold (\<lambda>b. crc32_update (of_char b)) bs crc32_init))"

subsection \<open>The bit-serial registers\<close>

text \<open>
  One shift of a register that takes bits from least to most significant (\<open>crc-16\<close>, CRC-32):
  the bit shifted out decides whether the m is added.
\<close>

definition lsb_shift :: "'a::len word \<Rightarrow> 'a word \<Rightarrow> 'a word" where
  "lsb_shift m w = (if bit w 0 then drop_bit 1 w XOR m else drop_bit 1 w)"

definition lsb_byte :: "'a::len word \<Rightarrow> 'a word \<Rightarrow> 'a word \<Rightarrow> 'a word" where
  "lsb_byte m b w = (lsb_shift m ^^ 8) (w XOR b)"

text \<open>
  One shift of a 16-bit register that takes bits from most to least significant (CCITT).
\<close>

definition msb_shift :: "32 word \<Rightarrow> 32 word \<Rightarrow> 32 word" where
  "msb_shift m w = (if bit w 15 then push_bit 1 w XOR m else push_bit 1 w) AND 0xffff"

definition msb_byte :: "32 word \<Rightarrow> 32 word \<Rightarrow> 32 word \<Rightarrow> 32 word" where
  "msb_byte m b w = (msb_shift m ^^ 8) (w XOR push_bit 8 b)"

lemma lsb_shift_xor: "lsb_shift m (x XOR y) = lsb_shift m x XOR lsb_shift m y"
  by (rule bit_word_eqI) (auto simp: lsb_shift_def bit_simps)

lemma lsb_shift_pow_xor:
  "(lsb_shift m ^^ n) (x XOR y) = (lsb_shift m ^^ n) x XOR (lsb_shift m ^^ n) y"
  by (induction n) (simp_all add: lsb_shift_xor)

lemma lsb_shift_clear: "\<not> bit w 0 \<Longrightarrow> lsb_shift m w = drop_bit 1 w"
  by (simp add: lsb_shift_def)

lemma lsb_shift_pow_clear:
  "(\<forall>i < n. \<not> bit w i) \<Longrightarrow> (lsb_shift m ^^ n) w = drop_bit n w"
proof (induction n)
  case (Suc n)
  then have "(lsb_shift m ^^ n) w = drop_bit n w" by simp
  moreover from Suc.prems have "\<not> bit (drop_bit n w) 0" by (simp add: bit_simps)
  ultimately show ?case by (simp add: lsb_shift_clear)
qed simp

lemma msb_shift_xor: "msb_shift m (x XOR y) = msb_shift m x XOR msb_shift m y"
  by (rule bit_word_eqI) (auto simp: msb_shift_def bit_simps)

lemma msb_shift_pow_xor:
  "(msb_shift m ^^ n) (x XOR y) = (msb_shift m ^^ n) x XOR (msb_shift m ^^ n) y"
  by (induction n) (simp_all add: msb_shift_xor)

subsection \<open>Tables against shifts\<close>

text \<open>
  A table whose entry \<open>i\<close> is a linear function of the bits of \<open>i\<close> is built by doubling: the
  upper half of \<open>2 ^ Suc k\<close> entries is the lower half with one constant added.
\<close>

lemma nat_add_eq_xor: "i < 2 ^ k \<Longrightarrow> (i + 2 ^ k :: nat) = 2 ^ k XOR i"
proof -
  assume "i < 2 ^ k"
  then have "\<not> bit i k" by (simp add: bit_iff_odd)
  then have "2 ^ k AND i = 0"
    by (intro bit_eqI) (auto simp: bit_simps)
  then show ?thesis
    by (subst add.commute) (rule disjunctive_add_eq_xor)
qed

lemma word_of_nat_xor: "word_of_nat (i XOR j) = (word_of_nat i XOR word_of_nat j :: 'a::len word)"
  by (rule bit_word_eqI) (simp add: bit_simps)

definition table_of :: "('a::len word \<Rightarrow> 'a word) \<Rightarrow> nat \<Rightarrow> 'a word list" where
  "table_of g n = map (\<lambda>i. g (word_of_nat i)) [0..<n]"

lemma table_of_double:
  assumes lin: "\<And>x y. g (x XOR y) = g x XOR g y"
  shows "table_of g (2 ^ Suc k) = table_of g (2 ^ k) @ map ((XOR) (g (word_of_nat (2 ^ k)))) (table_of g (2 ^ k))"
proof -
  have up: "[0..<2 ^ Suc k] = [0..<2 ^ k] @ map (\<lambda>i. i + 2 ^ k) [0..<2 ^ k]"
    using upt_add_eq_append [of 0 "2 ^ k" "2 ^ k"] by (simp only: map_add_upt power_Suc mult_2 le0 simp_thms)
  have "map (\<lambda>i. g (word_of_nat (i + 2 ^ k))) [0..<2 ^ k]
        = map (\<lambda>i. g (word_of_nat (2 ^ k)) XOR g (word_of_nat i)) [0..<2 ^ k]"
    by (rule map_cong [OF refl]) (simp add: nat_add_eq_xor word_of_nat_xor lin del: of_nat_add)
  then show ?thesis
    by (simp only: table_of_def up map_append map_map comp_def)
qed

lemma table_of_256:
  assumes lin: "\<And>x y. g (x XOR y) = g x XOR g y"
  shows "table_of g 256 =
    foldl (\<lambda>t d. t @ map ((XOR) d) t) [g 0] [g 1, g 2, g 4, g 8, g 16, g 32, g 64, g 128]"
proof -
  have "table_of g (2 ^ n) = foldl (\<lambda>t d. t @ map ((XOR) d) t) [g 0] (map (\<lambda>k. g (2 ^ k)) [0..<n])" for n
  proof (induction n)
    case (Suc n)
    then show ?case by (simp add: table_of_double [OF lin] del: power_Suc)
  qed (simp add: table_of_def)
  from this [of 8] show ?thesis by (simp add: upt_rec)
qed

lemma nth_table_of: "i < n \<Longrightarrow> table_of g n ! i = g (word_of_nat i)"
  by (simp add: table_of_def)

lemma funpow_8: "(f ^^ 8) x = f (f (f (f (f (f (f (f x)))))))"
  by (simp add: numeral_eq_Suc)

lemma crc16tab_table: "crc16tab = table_of (lsb_shift 0xA001 ^^ 8) 256"
  by (subst table_of_256) (simp_all only: lsb_shift_pow_xor, simp add: funpow_8 lsb_shift_def crc16tab_def)

lemma crc_32_tab_table: "crc_32_tab = table_of (lsb_shift 0xEDB88320 ^^ 8) 256"
  by (subst table_of_256) (simp_all only: lsb_shift_pow_xor, simp add: funpow_8 lsb_shift_def crc_32_tab_def)

lemma crctttab_table: "crctttab = table_of (\<lambda>i. (msb_shift 0x1021 ^^ 8) (push_bit 8 i)) 256"
  by (subst table_of_256) (simp_all only: msb_shift_pow_xor push_bit_xor, simp add: funpow_8 msb_shift_def crctttab_def)

subsection \<open>A table-driven register is the bit-serial one\<close>

locale lsb_crc =
  fixes m :: "'a::len word" and tab :: "'a word list"
  assumes tab: "tab = table_of (lsb_shift m ^^ 8) 256"
    and wide: "8 < LENGTH('a)"
begin

lemma split_low: "(v :: 'a word) = (v AND 0xff) XOR (v AND NOT 0xff)"
  by (rule bit_word_eqI) (auto simp: bit_simps)

lemma ff_mask: "(0xff :: 'a word) = mask 8"
  by (simp add: mask_eq_exp_minus_1)

lemma low_byte: "v AND 0xff = take_bit 8 (v :: 'a word)"
  by (simp only: ff_mask take_bit_eq_mask)

lemma low_index: "unat (v AND 0xff :: 'a word) < 256"
proof -
  have "unat (v AND 0xff) = take_bit 8 (unat v)"
    by (simp only: low_byte unsigned_take_bit_eq)
  also have "\<dots> < 2 ^ 8" by (rule take_bit_nat_less_exp)
  finally show ?thesis by simp
qed

lemma table_shift: "tab ! unat (v AND 0xff) XOR drop_bit 8 v = (lsb_shift m ^^ 8) v"
proof -
  have "(lsb_shift m ^^ 8) v
        = (lsb_shift m ^^ 8) (v AND 0xff) XOR (lsb_shift m ^^ 8) (v AND NOT 0xff)"
    by (subst split_low) (simp only: lsb_shift_pow_xor)
  also have "(lsb_shift m ^^ 8) (v AND NOT 0xff) = drop_bit 8 (v AND NOT 0xff)"
    by (rule lsb_shift_pow_clear) (simp only: ff_mask, simp add: bit_simps)
  also have "drop_bit 8 (v AND NOT 0xff) = drop_bit 8 v"
    by (rule bit_word_eqI) (simp only: ff_mask, auto simp: bit_simps dest: bit_imp_le_length)
  also have "(lsb_shift m ^^ 8) (v AND 0xff) = tab ! unat (v AND 0xff)"
    using low_index [of v] by (simp add: tab nth_table_of)
  finally show ?thesis by simp
qed

lemma table_byte:
  assumes "\<forall>i \<ge> 8. \<not> bit b i"
  shows "tab ! unat (((w AND 0xff) XOR b) AND 0xff) XOR drop_bit 8 w = lsb_byte m b w"
proof -
  have "((w AND 0xff) XOR b) AND 0xff = (w XOR b) AND 0xff"
    by (rule bit_word_eqI) (auto simp: bit_simps)
  moreover have "drop_bit 8 w = drop_bit 8 (w XOR b)"
    using assms by (intro bit_word_eqI) (auto simp: bit_simps)
  ultimately show ?thesis
    by (simp only: table_shift lsb_byte_def)
qed

lemma table_byte_masked:
  assumes "\<forall>i \<ge> 8. \<not> bit b i"
  shows "drop_bit 8 w XOR tab ! unat ((w XOR b) AND 0xff) = lsb_byte m b w"
proof -
  have "drop_bit 8 w = drop_bit 8 (w XOR b)"
    using assms by (intro bit_word_eqI) (auto simp: bit_simps)
  then show ?thesis
    by (simp only: table_shift [symmetric] lsb_byte_def xor.commute)
qed

end

interpretation c16: lsb_crc "0xA001 :: 32 word" crc16tab
  by unfold_locales (simp_all add: crc16tab_table)

interpretation c32: lsb_crc "0xEDB88320 :: 64 word" crc_32_tab
  by unfold_locales (simp_all add: crc_32_tab_table)

subsection \<open>Whole buffers\<close>

lemma char_bits: "\<forall>i \<ge> 8. \<not> bit (of_char b :: 'a::len word) i"
proof (intro allI impI)
  fix i :: nat assume "8 \<le> i"
  have "take_bit 8 (of_char b :: nat) = of_char b"
    by (simp add: take_bit_nat_eq_self_iff nat_of_char_less_256)
  then have "\<not> bit (of_char b :: nat) i"
    using \<open>8 \<le> i\<close> by (metis bit_take_bit_iff not_less)
  then have "\<not> bit (word_of_nat (of_char b) :: 'a word) i"
    by (simp add: bit_simps del: of_nat_of_char)
  then show "\<not> bit (of_char b :: 'a word) i" by (simp add: of_nat_of_char)
qed

lemma crc32_compute_serial:
  "crc32_compute s w = foldl (\<lambda>w b. lsb_byte 0xEDB88320 (of_char b) w) w s"
  by (induction s arbitrary: w) (simp_all only: crc32_compute.simps foldl.simps c32.table_byte [OF char_bits])

lemma crc32_update_serial:
  "crc32_update (of_char b) w = lsb_byte 0xEDB88320 (of_char b) w"
  by (simp only: crc32_update_def c32.table_byte [OF char_bits])

lemma crc32_compute_append: "crc32_compute (s @ t) w = crc32_compute t (crc32_compute s w)"
  by (simp add: crc32_compute_serial)

lemma crc32_compute_fold: "crc32_compute s w = fold (\<lambda>b. crc32_update (of_char b)) s w"
  by (induction s arbitrary: w) (simp_all add: crc32_update_def)

subsection \<open>The CCITT register\<close>

lemma take_push:
  fixes w :: "'a::len word"
  shows "n \<le> k \<Longrightarrow> (\<forall>i. k - n \<le> i \<longrightarrow> \<not> bit w i) \<Longrightarrow> take_bit k (push_bit n w) = push_bit n w"
  by (intro bit_word_eqI) (auto simp: bit_take_bit_iff bit_push_bit_iff, meson diff_le_mono not_le)

lemma msb_shift_pow_clear:
  "n \<le> 16 \<Longrightarrow> (\<forall>i. 16 - n \<le> i \<longrightarrow> \<not> bit w i) \<Longrightarrow> (msb_shift m ^^ n) w = push_bit n w"
proof (induction n)
  case (Suc n)
  then have "(msb_shift m ^^ n) w = push_bit n w" by simp
  moreover have "\<not> bit (push_bit n w) 15" using Suc.prems by (simp add: bit_simps)
  moreover have "push_bit 1 (push_bit n w) AND 0xffff = push_bit (Suc n) w"
  proof -
    have m16: "(0xffff :: 32 word) = mask 16" by (simp add: mask_eq_exp_minus_1)
    have "take_bit 16 (push_bit (1 + n) w) = push_bit (1 + n) w"
      using Suc.prems by (intro take_push) auto
    then show ?thesis by (simp only: m16 push_bit_push_bit take_bit_eq_mask [symmetric] plus_1_eq_Suc)
  qed
  ultimately show ?case by (simp add: msb_shift_def [of m "push_bit n w"] del: push_bit_of_1)
qed simp


lemma msb_pow_below: "0 < n \<Longrightarrow> (msb_shift m ^^ n) w AND 0xffff = (msb_shift m ^^ n) w"
  by (cases n) (simp_all add: msb_shift_def and.assoc)

lemma ccitt_table_byte:
  fixes w :: "32 word"
  assumes w: "\<forall>i \<ge> 16. \<not> bit w i" and c: "\<forall>i \<ge> 8. \<not> bit c i"
  shows "(push_bit 8 w XOR crctttab ! unat ((drop_bit 8 w XOR c) AND 0xff)) AND 0xffff
    = msb_byte 0x1021 c w"
proof -
  let ?v = "w XOR push_bit 8 c" and ?s = "msb_shift 0x1021 ^^ 8"
  have m16: "(0xffff :: 32 word) = mask 16" by (simp add: mask_eq_exp_minus_1)
  have w16: "i < 16" if "bit w i" for i using w that by (meson not_le)
  have c8: "i < 8" if "bit c i" for i using c that by (meson not_le)
  have ix: "drop_bit 8 w XOR c = drop_bit 8 ?v"
    using c by (intro bit_word_eqI) (auto simp: bit_simps)
  have top: "drop_bit 8 ?v AND 0xff = drop_bit 8 ?v"
    by (rule bit_word_eqI) (simp only: c16.ff_mask, auto simp: bit_simps dest: w16 c8)
  have split: "?v = (?v AND 0xff) XOR push_bit 8 (drop_bit 8 ?v)"
    by (rule bit_word_eqI) (simp only: c16.ff_mask, auto simp: bit_simps)
  have low: "?s (?v AND 0xff) = push_bit 8 (?v AND 0xff)"
    by (rule msb_shift_pow_clear) (simp_all only: c16.ff_mask, auto simp: bit_simps)
  have lowpush: "push_bit 8 (?v AND 0xff) = push_bit 8 w AND 0xffff"
    unfolding m16 by (rule bit_word_eqI) (simp only: c16.ff_mask, auto simp: bit_simps)
  have tab: "crctttab ! unat (drop_bit 8 ?v) = ?s (push_bit 8 (drop_bit 8 ?v))"
    using c16.low_index [of "drop_bit 8 ?v"] by (simp only: top crctttab_table nth_table_of of_nat_unat ucast_id)
  have "msb_byte 0x1021 c w = ?s (?v AND 0xff) XOR ?s (push_bit 8 (drop_bit 8 ?v))"
    unfolding msb_byte_def by (subst split) (rule msb_shift_pow_xor)
  also have "\<dots> = (push_bit 8 w AND 0xffff) XOR (?s (push_bit 8 (drop_bit 8 ?v)) AND 0xffff)"
    by (simp only: low lowpush msb_pow_below zero_less_numeral)
  also have "\<dots> = (push_bit 8 w XOR ?s (push_bit 8 (drop_bit 8 ?v))) AND 0xffff"
    by (simp only: bit.conj_xor_distrib2)
  finally show ?thesis by (simp only: ix top tab)
qed

subsection \<open>A changed byte changes the checksum\<close>

text \<open>The register uses its lowest \<open>n\<close> bits only.\<close>

definition narrow :: "nat \<Rightarrow> 'a::len word \<Rightarrow> bool" where
  "narrow n w \<longleftrightarrow> (\<forall>i \<ge> n. \<not> bit w i)"

lemma narrow_xor [intro]: "narrow n x \<Longrightarrow> narrow n y \<Longrightarrow> narrow n (x XOR y)"
  by (auto simp: narrow_def bit_simps)

lemma narrow_char [intro]: "8 \<le> n \<Longrightarrow> narrow n (of_char b)"
  unfolding narrow_def using char_bits by (blast intro: le_trans)

lemma narrow_lsb_shift [intro]: "narrow n m \<Longrightarrow> narrow n w \<Longrightarrow> narrow n (lsb_shift m w)"
  by (auto simp: narrow_def lsb_shift_def bit_simps)

lemma narrow_lsb_pow: "narrow n m \<Longrightarrow> narrow n w \<Longrightarrow> narrow n ((lsb_shift m ^^ k) w)"
  by (induction k) auto

lemma narrow_take_bit: "take_bit n w = w \<Longrightarrow> narrow n w"
proof -
  assume w: "take_bit n w = w"
  have "\<not> bit (take_bit n w) i" if "n \<le> i" for i
    using that by (simp add: bit_take_bit_iff)
  then show ?thesis by (simp add: narrow_def w)
qed

lemma lsb_shift_inj:
  fixes m :: "'a::len word"
  assumes n: "Suc n \<le> LENGTH('a)" and m: "bit m n"
    and x: "narrow (Suc n) x" and y: "narrow (Suc n) y"
    and eq: "lsb_shift m x = lsb_shift m y"
  shows "x = y"
proof -
  have top: "bit (lsb_shift m w) n = bit w 0" if "narrow (Suc n) w" for w
    using that m by (auto simp: narrow_def lsb_shift_def bit_simps)
  have b0: "bit x 0 = bit y 0" using top [OF x] top [OF y] eq by simp
  have "drop_bit 1 x = drop_bit 1 y"
  proof (cases "bit x 0")
    case True
    with eq b0 have "(drop_bit 1 x XOR m) XOR m = (drop_bit 1 y XOR m) XOR m"
      by (simp add: lsb_shift_def)
    then show ?thesis by (simp only: xor.assoc xor_self_eq xor.right_neutral)
  qed (use eq b0 in \<open>simp add: lsb_shift_def\<close>)
  then have "bit x (Suc i) = bit y (Suc i)" for i
    by (metis bit_drop_bit_eq comp_apply plus_1_eq_Suc)
  with b0 show ?thesis
    by (intro bit_word_eqI) (metis not0_implies_Suc)
qed

locale lsb_crc_inj = lsb_crc m tab
  for m :: "'a::len word" and tab :: "'a word list" +
  fixes n :: nat
  assumes n: "8 \<le> n" "Suc n \<le> LENGTH('a)" and top: "bit m n" and narrow_m: "narrow (Suc n) m"
begin

lemma pow_inj:
  "narrow (Suc n) x \<Longrightarrow> narrow (Suc n) y \<Longrightarrow>
    (lsb_shift m ^^ k) x = (lsb_shift m ^^ k) y \<Longrightarrow> x = y"
proof (induction k arbitrary: x y)
  case (Suc k)
  have "lsb_shift m x = lsb_shift m y"
  proof (rule Suc.IH)
    show "(lsb_shift m ^^ k) (lsb_shift m x) = (lsb_shift m ^^ k) (lsb_shift m y)"
      using Suc.prems(3) by (simp add: funpow_swap1)
  qed (auto intro: narrow_m Suc.prems)
  then show ?case using lsb_shift_inj [OF n(2) top] Suc.prems(1,2) by blast
qed simp

lemma narrow_byte: "narrow (Suc n) w \<Longrightarrow> narrow (Suc n) (lsb_byte m (of_char b) w)"
  unfolding lsb_byte_def using n(1) by (intro narrow_lsb_pow narrow_m narrow_xor narrow_char) simp_all

lemma byte_inj:
  assumes "narrow (Suc n) v" "narrow (Suc n) w"
    and "lsb_byte m (of_char b) v = lsb_byte m (of_char c) w"
  shows "v XOR of_char b = w XOR of_char c"
proof (rule pow_inj)
  show "(lsb_shift m ^^ 8) (v XOR of_char b) = (lsb_shift m ^^ 8) (w XOR of_char c)"
    using assms(3) by (simp only: lsb_byte_def)
  have "narrow (Suc n) (of_char x :: 'a word)" for x :: char
    using n(1) by (intro narrow_char) simp
  then show "narrow (Suc n) (v XOR of_char b)" "narrow (Suc n) (w XOR of_char c)"
    using assms(1,2) by (simp_all add: narrow_xor)
qed

lemma byte_change:
  assumes "narrow (Suc n) v" and "lsb_byte m (of_char b) v = lsb_byte m (of_char c) v"
  shows "(of_char b :: 'a word) = of_char c"
proof -
  have "v XOR (v XOR of_char b) = v XOR (v XOR of_char c)"
    by (simp only: byte_inj [OF assms(1,1,2)])
  then show ?thesis by (simp only: xor.assoc [symmetric] xor_self_eq xor.left_neutral)
qed

lemma serial_inj:
  "narrow (Suc n) v \<Longrightarrow> narrow (Suc n) w \<Longrightarrow>
   foldl (\<lambda>w b. lsb_byte m (of_char b) w) v s = foldl (\<lambda>w b. lsb_byte m (of_char b) w) w s \<Longrightarrow> v = w"
proof (induction s arbitrary: v w)
  case (Cons b s)
  have "lsb_byte m (of_char b) v = lsb_byte m (of_char b) w"
    by (rule Cons.IH) (use Cons.prems in \<open>auto intro: narrow_byte\<close>)
  from byte_inj [OF Cons.prems(1,2) this] show ?case
    by (metis xor.assoc xor.right_neutral xor_self_eq)
qed simp

lemma narrow_serial: "narrow (Suc n) w \<Longrightarrow> narrow (Suc n) (foldl (\<lambda>w b. lsb_byte m (of_char b) w) w s)"
  by (induction s arbitrary: w) (auto intro: narrow_byte)

end

lemma narrow_crc32_mask: "narrow 32 (0xEDB88320 :: 64 word)"
  by (rule narrow_take_bit) simp

interpretation c32i: lsb_crc_inj "0xEDB88320 :: 64 word" crc_32_tab 31
  using narrow_crc32_mask by unfold_locales simp_all

lemma narrow_c16_mask: "narrow 16 (0xA001 :: 32 word)"
  by (rule narrow_take_bit) simp

interpretation c16i: lsb_crc_inj "0xA001 :: 32 word" crc16tab 15
  using narrow_c16_mask by unfold_locales simp_all

lemma of_char_inject64 [dest]: "(of_char b :: 64 word) = of_char c \<Longrightarrow> b = c"
proof -
  assume eq: "(of_char b :: 64 word) = of_char c"
  have "unat (of_char x :: 64 word) = of_char x" for x :: char
  proof -
    have "(of_char x :: nat) < 2 ^ 64"
      by (rule less_trans [OF nat_of_char_less_256]) simp
    moreover have "unat (word_of_nat (of_char x) :: 64 word) = take_bit 64 (of_char x)"
      by (simp add: unsigned_of_nat)
    ultimately show ?thesis by (simp add: of_nat_of_char take_bit_nat_eq_self)
  qed
  with eq have "(of_char b :: nat) = of_char c" by metis
  then show ?thesis by simp
qed

lemma crc32_value_narrow_inj:
  assumes "narrow 32 v" "narrow 32 w" and eq: "crc32_value v = crc32_value w"
  shows "v = w"
proof (rule bit_word_eqI)
  fix i assume "i < LENGTH(64)"
  have ff: "(0xffffffff :: 64 word) = mask 32" by (simp add: mask_eq_exp_minus_1)
  from eq have "bit (NOT v AND mask 32) i = bit (NOT w AND mask 32) i"
    by (simp only: crc32_value_def ff)
  then show "bit v i = bit w i"
    using assms(1,2) \<open>i < LENGTH(64)\<close> by (cases "i < 32") (auto simp: narrow_def bit_simps)
qed

lemma crc32_init_narrow: "narrow 32 crc32_init"
  by (rule narrow_take_bit) (simp add: crc32_init_def)

lemma compute_crc32_value: "compute_crc32 s = crc32_value (crc32_compute s crc32_init)"
  by (simp add: compute_crc32_def crc32_value_def crc32_init_def)

lemma narrow_16_mask: "narrow 16 (w :: 32 word) \<Longrightarrow> w AND 0xffff = w"
proof -
  assume w: "narrow 16 w"
  have m16: "(0xffff :: 32 word) = mask 16" by (simp add: mask_eq_exp_minus_1)
  show ?thesis using w unfolding m16
    by (intro bit_word_eqI) (auto simp: narrow_def bit_simps, meson not_le)
qed

lemma crc16_register:
  "narrow 16 (crc16 st) \<Longrightarrow> crc16 (fold (\<lambda>b. crc16_update (of_char b)) s st)
    = foldl (\<lambda>w b. lsb_byte 0xA001 (of_char b) w) (crc16 st) s"
proof (induction s arbitrary: st)
  case (Cons b s)
  have "narrow 16 (lsb_byte 0xA001 (of_char b) (crc16 st))"
    using c16i.narrow_byte Cons.prems by simp
  then show ?case
    using Cons.IH [of "crc16_update (of_char b) st"]
    by (simp add: crc16_update_def Let_def c16.table_byte_masked [OF char_bits] narrow_16_mask)
qed simp

lemma narrow_msb_byte: "narrow 16 (msb_byte m c w)"
proof -
  have m16: "(0xffff :: 32 word) = mask 16" by (simp add: mask_eq_exp_minus_1)
  have "msb_byte m c w = msb_byte m c w AND mask 16"
    unfolding msb_byte_def m16 [symmetric] by (simp add: msb_pow_below)
  then have "take_bit 16 (msb_byte m c w) = msb_byte m c w"
    by (simp only: take_bit_eq_mask)
  then show ?thesis by (rule narrow_take_bit)
qed

lemma crctt_register:
  "narrow 16 (crctt st) \<Longrightarrow> crctt (fold (\<lambda>b. crc16_update_ccitt (of_char b)) s st)
    = foldl (\<lambda>w b. msb_byte 0x1021 (of_char b) w) (crctt st) s"
proof (induction s arbitrary: st)
  case (Cons b s)
  have "crctt (crc16_update_ccitt (of_char b) st) = msb_byte 0x1021 (of_char b) (crctt st)"
    using Cons.prems ccitt_table_byte [OF _ char_bits, of "crctt st" b]
    by (simp add: crc16_update_ccitt_def Let_def narrow_def)
  then show ?case
    using Cons.IH [of "crc16_update_ccitt (of_char b) st"] by (simp add: narrow_msb_byte)
qed simp

subsection \<open>Properties\<close>

text \<open>
  C14. The table driven CRC-32 of a buffer is the bit serial CRC with the polynomial EDB88320.
\<close>

theorem crc32_bit_serial:
  "compute_crc32 (s @ t)
     = NOT (foldl (\<lambda>w b. lsb_byte 0xEDB88320 (of_char b) w) 0xffffffff (s @ t)) AND 0xffffffff
   \<and> crc32_value (crc32_compute t (crc32_compute s crc32_init)) = compute_crc32 (s @ t)
   \<and> crc32_file (Some (s @ t)) = compute_crc32 (s @ t) \<and> crc32_file None = 0"
  by (simp add: compute_crc32_def crc32_compute_serial crc32_file_def
      crc32_value_def crc32_init_def flip: crc32_compute_fold)

text \<open>
  C15. Two buffers that differ in exactly one byte of the same position have different CRC-32
  values.
\<close>

theorem crc32_detects_byte:
  assumes "a \<noteq> b"
  shows "compute_crc32 (s @ a # t) \<noteq> compute_crc32 (s @ b # t)"
proof
  assume "compute_crc32 (s @ a # t) = compute_crc32 (s @ b # t)"
  moreover have nar: "narrow 32 (crc32_compute u crc32_init)" for u
    using c32i.narrow_serial crc32_init_narrow by (simp add: crc32_compute_serial)
  ultimately have "crc32_compute (s @ a # t) crc32_init = crc32_compute (s @ b # t) crc32_init"
    by (simp add: compute_crc32_value crc32_value_narrow_inj)
  then have "crc32_compute (s @ [a]) crc32_init = crc32_compute (s @ [b]) crc32_init"
    using c32i.serial_inj [of _ _ t] nar [of "s @ [a]"] nar [of "s @ [b]"]
    by (simp add: crc32_compute_serial)
  then have "lsb_byte 0xEDB88320 (of_char a) (crc32_compute s crc32_init)
      = lsb_byte 0xEDB88320 (of_char b) (crc32_compute s crc32_init)"
    by (simp add: crc32_compute_serial)
  moreover have "narrow (Suc 31) (crc32_compute s crc32_init)" using nar [of s] by simp
  ultimately have "(of_char a :: 64 word) = of_char b" by (rule c32i.byte_change [rotated])
  with assms show False by auto
qed

theorem crc32_detects_byte_witness:
  "compute_crc32 (''AREA'' @ CHR ''a'' # ''x'') \<noteq> compute_crc32 (''AREA'' @ CHR ''b'' # ''x'')"
  by (rule crc32_detects_byte) simp

text \<open>
  The table driven updates of both 16 bit checksums are eight steps of the bit serial
  registers with the polynomials A001 and 1021.
\<close>

theorem crc16_bit_serial:
  "crc16 (fold (\<lambda>b. crc16_update (of_char b)) s (crc16_init st))
     = foldl (\<lambda>w b. lsb_byte 0xA001 (of_char b) w) 0 s
   \<and> crctt (fold (\<lambda>b. crc16_update_ccitt (of_char b)) s (crc16_init st))
     = foldl (\<lambda>w b. msb_byte 0x1021 (of_char b) w) 0 s"
  by (simp add: crc16_register crctt_register crc16_init_def narrow_def)

end
