(* ===== verification/Toss.thy ===== *)
theory Toss
  imports Seenby Areas Routing Kludge Wildmat Crc
begin

text \<open>
  The tosser \<open>src/toss/ftntoss.c\<close>: what is done with one echomail message and with one netmail message.
  \<open>tossenv\<close> holds the options and what comes from outside of the modelled code; \<open>tstate\<close> the state that a
  message changes.  A result \<open>None\<close> is undefined behaviour or the end of the program.  The fields
  \<open>b_security\<close>, \<open>b_insecure_not_db\<close>, \<open>b_fts_via\<close> and \<open>b_spyes\<close> are the options SECURITY,
  INSECURE_DONT_PUT_INTO_DUPE_DB, FTS_VIA and SPYES of \<open>configure\<close>, which are on unless they are disabled.
\<close>

subsection \<open>Environment and state\<close>

record tossenv =
  te_out :: outenv
  te_date_tz :: "int \<Rightarrow> cstring option \<Rightarrow> cstring"
  te_id_date :: "int \<Rightarrow> cstring"
  te_via_date :: cstring
  te_buffer :: cbuf
  te_strict :: bool
  te_parsedate :: "cstring \<Rightarrow> int"
  te_maxmsg :: int
  x_flag :: bool
  te_now :: int
  te_exp_sec :: int
  te_create :: "fnode \<Rightarrow> cstring \<Rightarrow> areas \<Rightarrow> areas option"
  te_hist_ok :: bool
  te_ping :: "config \<Rightarrow> message \<Rightarrow> msgbody \<Rightarrow> outstate \<Rightarrow> outstate"
  te_routes :: routes
  te_addto :: "(cstring \<times> lon) list"
  te_deleteseenby :: "lon list"
  te_deletepath :: "lon list"
  g_flag :: char
  t_flag :: bool
  n_flag :: bool
  s_flag :: bool
  p_flag :: bool
  kill_empty :: bool
  kill_unknown :: bool
  kill_routed :: bool
  kill_insecure :: bool
  kill_circular :: bool
  check_path :: bool
  dupe_check :: bool
  kill_dupe :: bool
  kill_nomsgid :: bool
  kill_old :: bool
  echomail4d :: bool
  no_empty_path :: bool
  add_other_aka :: bool
  support_ping :: bool
  b_security :: bool
  b_insecure_not_db :: bool
  b_fts_via :: bool
  b_spyes :: bool
  te_spies :: "(fnode \<times> fnode) list"

record tstate =
  ts_cf :: config
  ts_areas :: areas
  ts_out :: outstate
  ts_prev :: int
  ts_hist :: bytes
  ts_keys :: "cstring list"
  ts_zonegate :: "zonegate list"
  ts_severe :: bool
  ts_must_exit :: bool
  ts_msg_count :: int
  msgs_in :: int
  msgs_netmail :: int
  msgs_echomail :: int
  msgs_routed :: int
  msgs_insecure :: int
  msgs_unknown :: int
  msgs_empty :: int
  msgs_path :: int
  msgs_dupe :: int

abbreviation upd_area :: "nat \<Rightarrow> (areasbbs \<Rightarrow> areasbbs) \<Rightarrow> tstate \<Rightarrow> tstate" where
  "upd_area i f st \<equiv>
     st\<lparr>ts_areas := (ts_areas st)\<lparr>ab_list := (ab_list (ts_areas st))[i := f (ab_list (ts_areas st) ! i)]\<rparr>\<rparr>"

subsection \<open>Writing messages\<close>

text \<open>
  \<open>outpkt_open\<close>, \<open>pkt_put_msg_hdr\<close> and \<open>msg_put_msgbody\<close>: success, the message as the header writer
  leaves it and the state.
\<close>

definition put_message :: "tossenv \<Rightarrow> fnode \<Rightarrow> fnode \<Rightarrow> char \<Rightarrow> char \<Rightarrow> char \<Rightarrow> bool \<Rightarrow> bool \<Rightarrow> message \<Rightarrow> msgbody \<Rightarrow> tstate
    \<Rightarrow> bool \<times> message \<times> tstate" where
  "put_message te from_node to_node grade type flav bad kludges msg b st =
     (case outpkt_open (te_out te) from_node to_node grade type flav bad (ts_out st) of
        (None, out) \<Rightarrow> (False, msg, st\<lparr>ts_out := out, ts_severe := True\<rparr>)
      | (Some i, out) \<Rightarrow>
          (let (h, msg, prev) = pkt_put_msg_hdr (te_date_tz te) (te_now te) (ts_prev st) msg kludges
           in (True, msg, st\<lparr>ts_out := outpkt_write i (h @ msg_put_msgbody b) out, ts_prev := prev\<rparr>)))"

definition do_bad_msg :: "tossenv \<Rightarrow> message \<Rightarrow> msgbody \<Rightarrow> tstate \<Rightarrow> bool \<times> message \<times> tstate" where
  "do_bad_msg te msg b st =
     put_message te (node_from msg) (node_to msg) CHR ''b'' CHR ''a'' CHR ''d'' True False msg b st"

text \<open>The ending \<open>if (!kill) return do_bad_msg (msg, body); return OK;\<close>.\<close>

definition kill_or_bad :: "bool \<Rightarrow> tossenv \<Rightarrow> message \<Rightarrow> msgbody \<Rightarrow> tstate \<Rightarrow> bool \<times> message \<times> tstate" where
  "kill_or_bad kill te msg b st = (if kill then (True, msg, st) else do_bad_msg te msg b st)"

definition do_unknown_area :: "tossenv \<Rightarrow> message \<Rightarrow> msgbody \<Rightarrow> tstate \<Rightarrow> bool \<times> message \<times> tstate" where
  "do_unknown_area te msg b st =
     kill_or_bad (kill_unknown te) te msg b (st\<lparr>msgs_unknown := msgs_unknown st + 1\<rparr>)"

text \<open>The SEEN-BY lines for one downlink: a zone gate gets its own list.\<close>

definition zonegate_lines :: "tossenv \<Rightarrow> fnode \<Rightarrow> msgbody \<Rightarrow> tstate \<Rightarrow> msgbody \<times> tstate" where
  "zonegate_lines te p b st =
     (case find_index (\<lambda>z. node_eq p (zg_node z)) (ts_zonegate st) of
        None \<Rightarrow> (b, st)
      | Some i \<Rightarrow>
          (let zg = ts_zonegate st ! i;
               (ls, l) = lon_to_kludge_sorted (echomail4d te) (cf_zone (ts_cf st)) [] ''SEEN-BY:'' (zg_seenby zg)
           in (b\<lparr>seenby := ls\<rparr>, st\<lparr>ts_zonegate := (ts_zonegate st)[i := zg\<lparr>zg_seenby := l\<rparr>]\<rparr>)))"

fun toss_echomail :: "tossenv \<Rightarrow> lon \<Rightarrow> fnode list \<Rightarrow> message \<Rightarrow> msgbody \<Rightarrow> tstate \<Rightarrow> bool \<times> message \<times> tstate" where
  "toss_echomail te passive [] msg b st = (True, msg, st)"
| "toss_echomail te passive (p # ps) msg b st =
     (if lon_search passive p then toss_echomail te passive ps msg b st
      else
        (let (b1, st) = zonegate_lines te p b st;
             msg = msg\<lparr>node_to := p, node_from := cf_addr (ts_cf st)\<rparr>
         in case put_message te (cf_addr (ts_cf st)) p (g_flag te) CHR ''e'' CHR ''n'' False False msg b1 st of
              (False, msg, st) \<Rightarrow> (False, msg, st)
            | (True, msg, st) \<Rightarrow> toss_echomail te passive ps msg b (st\<lparr>msgs_echomail := msgs_echomail st + 1\<rparr>)))"

subsection \<open>The key of the duplicate check\<close>

datatype dupe_result = Dupe_key cstring | Dupe_kill | Dupe_overflow

text \<open>\<open>%08lx\<close> of a value of 32 bits.\<close>

definition hex8 :: "int \<Rightarrow> cstring" where
  "hex8 v = map (\<lambda>k. hex_lower (v div 16 ^ k mod 16)) [7, 6, 5, 4, 3, 2, 1, 0]"

text \<open>
  \<open>BUF_COPY3\<close> into the global buffer, then the characters that the data base does not take are replaced.
  The second component is the message with the address that \<open>msg_parse_origin\<close> found.
\<close>

definition dupe_key :: "tossenv \<Rightarrow> config \<Rightarrow> areasbbs \<Rightarrow> message \<Rightarrow> msgbody \<Rightarrow> dupe_result \<times> message" where
  "dupe_key te cf a msg b =
     (case kludge_get (kludge b) ''MSGID'' of
        Some (_, k) \<Rightarrow>
          (let p = kludge b ! k;
               p = (if peek p = ch_ctrl_a then tl p else p)
           in case str_copy3 (replicate BUFFERSIZE ch_nul) BUFFERSIZE (ab_area a) '' '' p of
                None \<Rightarrow> (Dupe_overflow, msg)
              | Some buf \<Rightarrow>
                  (Dupe_key (map (\<lambda>c. if c = ch_tab \<or> c = ch_cr \<or> c = ch_lf then CHR ''_'' else c) (chomp (cstr buf))), msg))
      | None \<Rightarrow>
          (if kill_nomsgid te then (Dupe_kill, msg)
           else
             (case msg_parse_origin (cf_defzone cf) (origin b) (node_orig msg) of
                (False, nd) \<Rightarrow> (Dupe_kill, msg\<lparr>node_orig := nd\<rparr>)
              | (True, nd) \<Rightarrow>
                  (let crc = crc32_compute (cstr (subject msg)) (crc32_compute (cstr (name_to msg))
                               (crc32_compute (cstr (name_from msg)) crc32_init))
                   in (Dupe_key (take (BUFFERSIZE - 1) (ab_area a @ '' NOMSGID: '' @ znfp1 nd @ '' '' @ te_id_date te (date msg) @
                         '' '' @ hex8 (uint (crc32_value crc)))), msg\<lparr>node_orig := nd\<rparr>)))))"

text \<open>\<open>hi_write\<close> adds a line to the text file and the key to the data base; \<open>hi_test\<close> looks the key up.\<close>

definition hi_test :: "cstring \<Rightarrow> tstate \<Rightarrow> bool" where
  "hi_test msgid st \<longleftrightarrow> msgid \<in> set (ts_keys st)"

definition hi_write :: "tossenv \<Rightarrow> cstring \<Rightarrow> tstate \<Rightarrow> tstate option" where
  "hi_write te msgid st =
     (if te_hist_ok te
      then Some (st\<lparr>ts_hist := ts_hist st @ msgid @ ch_tab # dec (te_now te) @ [ch_lf], ts_keys := msgid # ts_keys st\<rparr>)
      else None)"

text \<open>
  The duplicate check: \<open>Inl\<close> the result of the whole function, \<open>Inr\<close> the message and the state to go on with.
\<close>

definition dupe_stage :: "tossenv \<Rightarrow> nat \<Rightarrow> message \<Rightarrow> msgbody \<Rightarrow> tstate \<Rightarrow> ((bool \<times> message \<times> tstate) + (message \<times> tstate)) option" where
  "dupe_stage te i msg b st =
     (if \<not> dupe_check te then Some (Inr (msg, st))
      else
        (let dupe = (\<lambda>msg st. Some (Inl (kill_or_bad (kill_dupe te) te msg b
                       (upd_area i (\<lambda>a. a\<lparr>ab_msgs_dupe := ab_msgs_dupe a + 1\<rparr>) (st\<lparr>msgs_dupe := msgs_dupe st + 1\<rparr>)))))
         in case dupe_key te (ts_cf st) (ab_list (ts_areas st) ! i) msg b of
              (Dupe_overflow, _) \<Rightarrow> None
            | (Dupe_kill, msg) \<Rightarrow> dupe msg st
            | (Dupe_key msgid, msg) \<Rightarrow>
                (if kill_old te \<and> date msg < te_exp_sec te then dupe msg st
                 else if hi_test msgid st then dupe msg st
                 else if b_insecure_not_db te \<and> \<not> node_eq (cf_addr (ts_cf st)) (node_from msg) \<and>
                         \<not> lon_search (ab_nodes (ab_list (ts_areas st) ! i)) (node_from msg)
                 then Some (Inr (msg, st))
                 else
                   (case hi_write te msgid st of
                      None \<Rightarrow> Some (Inl (False, msg, st))
                    | Some st \<Rightarrow> Some (Inr (msg, st))))))"

text \<open>The first entry of the AddToSeenBy table for the area.\<close>

fun find_addto :: "cstring \<Rightarrow> (cstring \<times> lon) list \<Rightarrow> lon option option" where
  "find_addto tag [] = Some None"
| "find_addto tag ((pat, add) # as) =
     (case wildmatch tag pat 1 of
        None \<Rightarrow> None
      | Some m \<Rightarrow> if m then Some (Some add) else find_addto tag as)"

subsection \<open>SEEN-BY and PATH of one message\<close>

definition ensure_echo :: "fnode \<Rightarrow> lon \<Rightarrow> lon" where
  "ensure_echo n l = (if lon_search_echo l n then l else lon_add l n)"

text \<open>With SECURITY the PATH has to end with the system that the packet is from.\<close>

definition path_sender :: "fnode \<Rightarrow> lon \<Rightarrow> lon" where
  "path_sender n pth = (if lnodes pth = [] \<or> \<not> node_eq_echo (last (lnodes pth)) n then lon_add pth n else pth)"

text \<open>The lists from the kludge lines, with sender, recipient and our own address in the SEEN-BY.\<close>

definition lists_in :: "tossenv \<Rightarrow> config \<Rightarrow> packet \<Rightarrow> message \<Rightarrow> msgbody \<Rightarrow> lon \<times> lon" where
  "lists_in te cf pkt msg b =
     (let (sb, pth) = do_4dpoint cf (kludge_to_lon (cf_zone cf) (seenby b) lon_init)
                        (kludge_to_lon (cf_zone cf) (path b) lon_init) (node_from msg)
      in (ensure_echo (node_to msg) (ensure_echo (node_from msg) sb), if b_security te then path_sender (pkt_from pkt) pth else pth))"

text \<open>What is put into the SEEN-BY, or taken out of it, without being sent the message.\<close>

definition more_seenby :: "tossenv \<Rightarrow> config \<Rightarrow> lon option \<Rightarrow> fnode \<Rightarrow> lon \<Rightarrow> lon" where
  "more_seenby te cf addto from_node sb =
     (let sb = (case addto of None \<Rightarrow> sb | Some add \<Rightarrow> fst (do_seenby sb add None None 0 from_node));
          sb = (if add_other_aka te
                then fold (\<lambda>n sb. if zone n = c_short (cf_zone cf) then ensure_echo n sb else sb) (own_addrs cf) sb
                else sb)
      in if te_deleteseenby te \<noteq> [] then the (do_deleteseenby (te_deleteseenby te) sb) else sb)"

text \<open>Our own address is a recipient, unless the area is only passed through.\<close>

definition add_own :: "tossenv \<Rightarrow> config \<Rightarrow> areasbbs \<Rightarrow> fnode \<Rightarrow> lon \<Rightarrow> lon" where
  "add_own te cf a from_node new =
     (if \<not> p_flag te \<and> ab_flags a AND AREASBBS_PASSTHRU = 0 \<and> \<not> node_eq from_node (cf_addr cf)
      then lon_add new (cf_addr cf)
      else if \<not> p_flag te \<and> \<not> node_eq from_node (cf_addr cf) \<and> lon_search (ab_nodes a) (cf_addr cf)
      then lon_add new (cf_addr cf) else new)"

text \<open>
  From \<open>kludge_to_lon\<close> to \<open>do_path\<close> and \<open>do_deletepath\<close>: the lists \<open>seenby\<close>, \<open>path\<close> and \<open>new\<close>.  The
  configuration has the zone and the address of the area.  \<open>None\<close>: with a \<open>DeletePath\<close> line but no
  \<open>DeleteSeenBy\<close> line a null pointer is followed.
\<close>

definition echo_lists :: "tossenv \<Rightarrow> config \<Rightarrow> areasbbs \<Rightarrow> lon option \<Rightarrow> packet \<Rightarrow> message \<Rightarrow> msgbody \<Rightarrow> (lon \<times> lon \<times> lon) option" where
  "echo_lists te cf a addto pkt msg b =
     (let (sb, pth) = lists_in te cf pkt msg b;
          (sb, new) = do_seenby sb (ab_nodes a) (Some lon_init) (Some (ab_passive a)) (ab_uplinks a) (node_from msg);
          sb = more_seenby te cf addto (node_from msg) sb;
          new = add_own te cf a (node_from msg) (the new);
          pth = do_path cf pth
      in if te_deletepath te \<noteq> [] then map_option (\<lambda>pth. (sb, pth, new)) (do_deletepath (te_deleteseenby te) pth)
         else Some (sb, pth, new))"

subsection \<open>Echomail\<close>

text \<open>The tag in the AREA line, in an array of \<open>BUFSIZ\<close> bytes.\<close>

definition area_name :: "msgbody \<Rightarrow> cstring" where
  "area_name b = chomp (buf_copy BUFSIZ (drop 5 (case b_area b of None \<Rightarrow> [] | Some l \<Rightarrow> l)))"

text \<open>
  The area, perhaps created now: \<open>te_create\<close> stands for the functions of \<open>areafix.c\<close> that decide whether
  the sender may create it and create it.
\<close>

definition find_area :: "tossenv \<Rightarrow> message \<Rightarrow> cstring \<Rightarrow> tstate \<Rightarrow> nat option \<times> tstate" where
  "find_area te msg name st =
     (case areasbbs_lookup (Some name) (ts_areas st) of
        Some i \<Rightarrow> (Some i, st)
      | None \<Rightarrow>
          (case te_create te (node_from msg) name (ts_areas st) of
             None \<Rightarrow> (None, st)
           | Some areas \<Rightarrow> (areasbbs_lookup (Some name) areas, st\<lparr>ts_areas := areas\<rparr>)))"

definition set_area_zone :: "areasbbs \<Rightarrow> config \<Rightarrow> config option" where
  "set_area_zone a cf = do {
     cf \<leftarrow> (if ab_zone a \<noteq> -1 then cf_set_zone (ab_zone a) cf else Some cf);
     if zone (ab_addr a) \<noteq> -1 then cf_set_curr (ab_addr a) cf else Some cf }"

text \<open>The last part: the area is marked as active, the kludges are written anew and the message goes out.\<close>

definition send_echomail :: "tossenv \<Rightarrow> nat \<Rightarrow> message \<Rightarrow> msgbody \<Rightarrow> lon \<Rightarrow> lon \<Rightarrow> lon \<Rightarrow> tstate \<Rightarrow> bool \<times> message \<times> tstate" where
  "send_echomail te i msg b sb pth new st =
     (let st = upd_area i (\<lambda>a. a\<lparr>ab_time := te_now te\<rparr>) st;
          st = st\<lparr>ts_areas := (ts_areas st)\<lparr>ab_changed := True\<rparr>\<rparr>;
          z = cf_zone (ts_cf st);
          sl = fst (lon_to_kludge_sorted (echomail4d te) z [] ''SEEN-BY:'' sb);
          (pl, n, _) = lon_to_kludge (echomail4d te) z [] (ch_ctrl_a # ''PATH:'') pth;
          b = b\<lparr>seenby := sl, path := (if no_empty_path te \<and> \<not> n then [] else pl)\<rparr>;
          (ok, msg, st) = toss_echomail te (ab_passive (ab_list (ts_areas st) ! i)) (lnodes new) msg b st
      in (ok, msg, upd_area i (\<lambda>a. a\<lparr>ab_msgs_out := ab_msgs_out a + 1, ab_msgs_size := ab_msgs_size a + 80\<rparr>) st))"

text \<open>Between the checks and the writing: the states of the area.\<close>

definition state_stage ::
  "tossenv \<Rightarrow> nat \<Rightarrow> message \<Rightarrow> msgbody \<Rightarrow> lon \<Rightarrow> lon \<Rightarrow> lon \<Rightarrow> tstate \<Rightarrow> (bool \<times> message \<times> tstate) option" where
  "state_stage te i msg b sb pth new st =
     (let a = ab_list (ts_areas st) ! i in
      if \<not> lon_is_uplink (ab_nodes a) (ab_uplinks a) (node_from msg) \<and> areasbbs_isstate (ab_state a) CHR ''W''
      then Some (kill_or_bad (kill_circular te) te msg b st)
      else if areasbbs_isstate (ab_state a) CHR ''U'' \<or> areasbbs_isstate (ab_state a) CHR ''W'' \<or>
              areasbbs_isstate (ab_state a) CHR ''F''
      then do {
        (_, s) \<leftarrow> areasbbs_chstate (ab_state a) (Some ''UWF'') CHR ''S'';
        Some (send_echomail te i msg b sb pth new (upd_area i (\<lambda>a. a\<lparr>ab_state := s\<rparr>) st)) }
      else if areasbbs_isstate (ab_state a) CHR ''P'' then Some (do_bad_msg te msg b st)
      else Some (send_echomail te i msg b sb pth new st))"

text \<open>The checks after the duplicate check.\<close>

definition checked_stage :: "tossenv \<Rightarrow> packet \<Rightarrow> nat \<Rightarrow> message \<Rightarrow> msgbody \<Rightarrow> tstate \<Rightarrow> (bool \<times> message \<times> tstate) option" where
  "checked_stage te pkt i msg b st =
     (let cf = ts_cf st; a = ab_list (ts_areas st) ! i in do {
      addto \<leftarrow> find_addto (ab_area a) (te_addto te);
      if \<not> n_flag te \<and> \<not> node_eq (node_to msg) (cf_addr cf) \<and> \<not> is_local_addr cf (node_to msg) False
      then Some (kill_or_bad (kill_routed te) te msg b
             (upd_area i (\<lambda>a. a\<lparr>ab_msgs_routed := ab_msgs_routed a + 1\<rparr>) (st\<lparr>msgs_routed := msgs_routed st + 1\<rparr>)))
      else if \<not> t_flag te \<and> \<not> node_eq (cf_addr cf) (node_from msg) \<and> \<not> lon_search (ab_nodes a) (node_from msg)
      then Some (kill_or_bad (kill_insecure te) te msg b
             (upd_area i (\<lambda>a. a\<lparr>ab_msgs_insecure := ab_msgs_insecure a + 1\<rparr>) (st\<lparr>msgs_insecure := msgs_insecure st + 1\<rparr>)))
      else do {
        (sb, pth, new) \<leftarrow> echo_lists te cf a addto pkt msg b;
        if check_path te \<and> \<not> do_check_path cf (lnodes pth)
        then Some (kill_or_bad (kill_circular te) te msg b
               (upd_area i (\<lambda>a. a\<lparr>ab_msgs_path := ab_msgs_path a + 1\<rparr>) (st\<lparr>msgs_path := msgs_path st + 1\<rparr>)))
        else state_stage te i msg b sb pth new st } })"

text \<open>
  The checks in front of the area lookup, each with the same ending: without a sender address (SECURITY),
  with a foreign one from a point (SECURITY; the configuration never sets \<open>check_point_origin_addr\<close>), and
  with a wrong packet password.
\<close>

definition check_point_origin_addr :: bool where "check_point_origin_addr = False"

definition insecure_packet :: "tossenv \<Rightarrow> packet \<Rightarrow> message \<Rightarrow> bool" where
  "insecure_packet te pkt msg \<longleftrightarrow>
     (b_security te \<and> (node_eq (node_invalid (mk_node 0 0 0 0)) (node_orig msg) \<or>
        check_point_origin_addr \<and> point (pkt_from pkt) \<noteq> 0 \<and> \<not> node_eq (node_orig msg) (pkt_from pkt))) \<or>
     (case pkt_pw (te_out te) (node_from msg) of None \<Rightarrow> False | Some pw \<Rightarrow> stricmp (cstr (pkt_passwd pkt)) pw \<noteq> 0)"

definition do_echomail :: "tossenv \<Rightarrow> packet \<Rightarrow> message \<Rightarrow> msgbody \<Rightarrow> tstate \<Rightarrow> (bool \<times> message \<times> tstate) option" where
  "do_echomail te pkt msg b st =
     (if insecure_packet te pkt msg
      then Some (kill_or_bad (kill_insecure te) te msg b (st\<lparr>msgs_insecure := msgs_insecure st + 1\<rparr>))
      else
        (case find_area te msg (area_name b) st of
           (None, st) \<Rightarrow> (let (_, msg, st) = do_unknown_area te msg b st in Some (True, msg, st))
         | (Some i, st) \<Rightarrow> do {
             cf \<leftarrow> set_area_zone (ab_list (ts_areas st) ! i) (ts_cf st);
             let st = upd_area i (\<lambda>a. a\<lparr>ab_msgs_in := ab_msgs_in a + 1\<rparr>) (st\<lparr>ts_cf := cf\<rparr>);
             r \<leftarrow> dupe_stage te i msg b st;
             (case r of
                Inl done \<Rightarrow> Some done
              | Inr (msg, st) \<Rightarrow> checked_stage te pkt i msg b st) }))"

subsection \<open>Netmail\<close>

abbreviation (input) MSG_CRASH :: int where "MSG_CRASH \<equiv> 2"
abbreviation (input) MSG_HOLD :: int where "MSG_HOLD \<equiv> 512"

definition change_addr :: "fnode \<Rightarrow> fnode \<Rightarrow> fnode" where
  "change_addr n newpat =
     (let n = (if zone newpat \<noteq> -1 then n\<lparr>zone := zone newpat\<rparr> else n);
          n = (if net newpat \<noteq> -1 then n\<lparr>net := net newpat\<rparr> else n);
          n = (if node newpat \<noteq> -1 then n\<lparr>node := node newpat\<rparr> else n)
      in if point newpat \<noteq> -1 then n\<lparr>point := point newpat\<rparr> else n)"

definition rewrite_hit :: "char \<Rightarrow> fnode \<Rightarrow> cstring \<Rightarrow> rewrite \<Rightarrow> bool option" where
  "rewrite_hit cmd nd name r =
     (if node_match nd (rw_from r) then
        (if rw_type r = CMD_REWRITE then Some True
         else if rw_type r = cmd then wildmatch name (rw_name r) 1 else Some False)
      else Some False)"

text \<open>Both branches change \<open>node_from\<close>.\<close>

fun do_rewrite :: "rewrite list \<Rightarrow> message \<Rightarrow> message option" where
  "do_rewrite [] msg = Some msg"
| "do_rewrite (r # rs) msg = do {
     from_hit \<leftarrow> rewrite_hit CMD_REWRITE_FROM (node_from msg) (cstr (name_from msg)) r;
     if from_hit then Some (msg\<lparr>node_from := change_addr (node_from msg) (rw_to r)\<rparr>)
     else do {
       to_hit \<leftarrow> rewrite_hit CMD_REWRITE_TO (node_to msg) (cstr (name_to msg)) r;
       if to_hit then Some (msg\<lparr>node_from := change_addr (node_from msg) (rw_to r)\<rparr>)
       else do_rewrite rs msg } }"

definition remap_hit :: "message \<Rightarrow> remap \<Rightarrow> bool option" where
  "remap_hit msg r = do {
     to_hit \<leftarrow> (if rm_type r = CMD_REMAP_TO \<and> node_match (node_to msg) (rm_from r)
                then wildmatch (cstr (name_to msg)) (rm_name r) 1 else Some False);
     if to_hit then Some True
     else if rm_type r = CMD_REMAP_FROM \<and> node_match (node_from msg) (rm_from r)
     then wildmatch (cstr (name_from msg)) (rm_name r) 1 else Some False }"

text \<open>The flag is \<open>kill\<close>.\<close>

fun do_remap :: "remap list \<Rightarrow> message \<Rightarrow> (bool \<times> message) option" where
  "do_remap [] msg = Some (False, msg)"
| "do_remap (r # rs) msg = do {
     hit \<leftarrow> remap_hit msg r;
     if hit then
       (let n = change_addr (node_to msg) (rm_to r)
        in Some (zone n = 0 \<and> net n = 0 \<and> node n = 0 \<and> point n = 0, msg\<lparr>node_to := n\<rparr>))
     else do_remap rs msg }"

definition check_empty :: "msgbody \<Rightarrow> bool" where
  "check_empty b =
     (if rfc b \<noteq> [] then False
      else if tear b \<noteq> None \<or> origin b \<noteq> None then False
      else if seenby b \<noteq> [] then False
      else list_all (\<lambda>l. peek l = ch_nul \<or> peek l = ch_cr) (body b))"

definition add_via :: "tossenv \<Rightarrow> fnode \<Rightarrow> cstring list \<Rightarrow> cstring list" where
  "add_via te gate vs =
     vs @ [if b_fts_via te
           then ch_ctrl_a # ''Via '' @ znf1 gate @ '' @'' @ te_via_date te @ '' FIDOGATE/'' @ ''ftntoss'' @ [ch_cr]
           else ch_ctrl_a # ''Via FIDOGATE/'' @ ''ftntoss'' @ znf1 gate @ te_via_date te @ [ch_cr]]"

text \<open>\<open>te_ping\<close> is \<open>ping_generate_reply\<close>.  Message and body are changed for the caller too.\<close>

definition do_netmail :: "tossenv \<Rightarrow> message \<Rightarrow> msgbody \<Rightarrow> tstate \<Rightarrow> (bool \<times> message \<times> msgbody \<times> tstate) option" where
  "do_netmail te msg b st =
     (let is_ping = strieq (cstr (name_to msg)) ''ping'';
          st = (if is_ping \<and> support_ping te then st\<lparr>ts_out := te_ping te (ts_cf st) msg b (ts_out st)\<rparr> else st)
      in if \<not> is_ping \<and> kill_empty te \<and> check_empty b \<and> is_local_addr (ts_cf st) (node_to msg) False
         then Some (True, msg, b, st\<lparr>msgs_empty := msgs_empty st + 1\<rparr>)
         else do {
           msg \<leftarrow> do_rewrite (rt_rewrite (te_routes te)) msg;
           (kill, msg) \<leftarrow> do_remap (rt_remap (te_routes te)) msg;
           if kill then Some (True, msg, b, st)
           else do {
             cf \<leftarrow> cf_set_best (zone (node_to msg)) (net (node_to msg)) (node (node_to msg)) (ts_cf st);
             let st = st\<lparr>ts_cf := cf\<rparr>;
             let flav = (if s_flag te then CHR ''n''
                         else if attr msg AND MSG_CRASH \<noteq> 0 then CHR ''c''
                         else if attr msg AND MSG_HOLD \<noteq> 0 then CHR ''h'' else CHR ''n'');
             let b1 = b\<lparr>via := add_via te (cf_addr cf) (via b)\<rparr>;
             (case put_message te (cf_addr cf) (node_to msg) (g_flag te) CHR ''n'' flav False True msg b1 st of
                (False, msg, st) \<Rightarrow> Some (False, msg, b, st)
              | (True, msg, st) \<Rightarrow> Some (True, msg, b1, st\<lparr>msgs_netmail := msgs_netmail st + 1\<rparr>)) } })"

subsection \<open>A packet\<close>

text \<open>The first entry of the SPYES table for an address.\<close>

definition spyes_lookup :: "(fnode \<times> fnode) list \<Rightarrow> fnode \<Rightarrow> fnode option" where
  "spyes_lookup spies nd = map_option snd (List.find (\<lambda>s. wild_compare_node nd (fst s)) spies)"

text \<open>The subject of the copy that is forwarded: \<open>str_printf\<close> of at most \<open>MSG_MAXSUBJ\<close> bytes into the array.\<close>

definition spy_subject :: "message \<Rightarrow> cbuf" where
  "spy_subject msg =
     (let t = take (MSG_MAXSUBJ - 1) (''[FWD] from '' @ znfp1 (node_from msg) @ '' to '' @ znfp1 (node_to msg) @ '': '' @
                buf_copy MSG_MAXSUBJ (cstr (subject msg)))
      in (t @ ch_nul # drop (Suc (length t)) (subject msg))[MSG_MAXSUBJ - 1 := ch_nul])"

definition toss_netmail :: "tossenv \<Rightarrow> message \<Rightarrow> msgbody \<Rightarrow> tstate \<Rightarrow> (bool \<times> message \<times> tstate) option" where
  "toss_netmail te msg b st =
     (let spy = (if b_spyes te
                 then (case spyes_lookup (te_spies te) (node_from msg) of
                         None \<Rightarrow> spyes_lookup (te_spies te) (node_to msg) | r \<Rightarrow> r)
                 else None)
      in case do_netmail te msg b st of
           None \<Rightarrow> None
         | Some (ok, msg, b, st) \<Rightarrow>
             (case spy of
                None \<Rightarrow> Some (ok, msg, st)
              | Some fwd \<Rightarrow>
                  if \<not> ok then Some (False, msg, st)
                  else map_option (\<lambda>(ok, msg, _, st). (ok, msg, st))
                         (do_netmail te (msg\<lparr>subject := spy_subject msg, node_to := fwd\<rparr>) b st)))"

text \<open>One message with its header read.\<close>

definition toss_message :: "tossenv \<Rightarrow> packet \<Rightarrow> message \<Rightarrow> msgbody \<Rightarrow> tstate \<Rightarrow> (bool \<times> message \<times> tstate) option" where
  "toss_message te pkt msg b st =
     (if b_area b = None then
        (let msg = msg\<lparr>node_from := (node_from msg)\<lparr>point := 0\<rparr>, node_to := (node_to msg)\<lparr>point := 0\<rparr>\<rparr>;
             (b, msg) = kludge_pt_intl (cf_defzone (ts_cf st)) (mk_node 0 0 0 0) True b msg
         in toss_netmail te (msg\<lparr>node_orig := node_from msg\<rparr>) b st)
      else
        (let msg = msg\<lparr>node_from := pkt_from pkt, node_to := pkt_to pkt\<rparr>;
             z = cf_defzone (ts_cf st);
             (ok, orig) = msg_parse_origin z (origin b) (node_orig msg);
             orig = (if ok then orig
                     else (case msg_parse_msgid z (map_option fst (kludge_get (kludge b) ''MSGID'')) orig of
                             (True, n) \<Rightarrow> n | (False, n) \<Rightarrow> node_invalid n))
         in do_echomail te pkt (msg\<lparr>node_orig := orig\<rparr>) b st))"

text \<open>The counting of messages: at the limit the packets are closed, or the program is to end.\<close>

definition count_message :: "tossenv \<Rightarrow> tstate \<Rightarrow> tstate option" where
  "count_message te st =
     (if te_maxmsg te \<noteq> 0 \<and> ts_msg_count st \<ge> te_maxmsg te then
        (if x_flag te then Some (st\<lparr>ts_must_exit := True, ts_msg_count := 0\<rparr>)
         else map_option (\<lambda>out. st\<lparr>ts_out := out, ts_msg_count := 0\<rparr>) (outpkt_close (te_out te) (ts_out st)))
      else Some st)"

lemma pkt_get_int16_le: "length (snd (pkt_get_int16 fp)) \<le> length fp - 2"
  by (auto simp: pkt_get_int16_def split: list.splits)

lemma get_string_loop_le: "get_string_loop n i buf fp = Some (b, k, e, r) \<Longrightarrow> length r \<le> length fp"
  by (induction n i buf fp arbitrary: b k e r rule: get_string_loop.induct)
     (auto split: if_splits bind_splits simp: bind_eq_Some_conv intro: le_SucI)

lemma read_msg_field_le: "read_msg_field fp buf n strict = Some (b, r) \<Longrightarrow> length r \<le> length fp"
  by (auto simp: read_msg_field_def pkt_get_string_def bind_eq_Some_conv split: if_splits dest: get_string_loop_le)

lemma pkt_get_date_le: "length (snd (pkt_get_date pd fp)) \<le> length fp"
  by (simp add: pkt_get_date_def)

lemma pkt_get_msg_hdr_shorter:
  assumes "pkt_get_msg_hdr pd fp msg strict = Some (m, r)" "fp \<noteq> []"
  shows "length r < length fp"
proof -
  define f1 where "f1 = snd (pkt_get_int16 fp)"
  define f2 where "f2 = snd (pkt_get_int16 f1)"
  define f3 where "f3 = snd (pkt_get_int16 f2)"
  define f4 where "f4 = snd (pkt_get_int16 f3)"
  define f5 where "f5 = snd (pkt_get_int16 f4)"
  define f6 where "f6 = snd (pkt_get_int16 f5)"
  define f7 where "f7 = snd (pkt_get_date pd f6)"
  note defs = f1_def f2_def f3_def f4_def f5_def f6_def f7_def
  have "length f1 \<le> length fp - 2" "length f2 \<le> length f1" "length f3 \<le> length f2" "length f4 \<le> length f3"
    "length f5 \<le> length f4" "length f6 \<le> length f5" "length f7 \<le> length f6"
    using pkt_get_int16_le [of fp] pkt_get_int16_le [of f1] pkt_get_int16_le [of f2] pkt_get_int16_le [of f3]
      pkt_get_int16_le [of f4] pkt_get_int16_le [of f5] pkt_get_date_le [of pd f6]
    by (simp_all only: defs)
  moreover have "\<exists>x b1 g1 y b2 g2 w b3. read_msg_field f7 x MSG_MAXNAME strict = Some (b1, g1) \<and>
      read_msg_field g1 y MSG_MAXNAME strict = Some (b2, g2) \<and> read_msg_field g2 w MSG_MAXSUBJ strict = Some (b3, r)"
    using assms(1)
    by (auto simp: pkt_get_msg_hdr_def Let_def split_beta bind_eq_Some_conv defs) blast
  then have "length r \<le> length f7" by (auto dest!: read_msg_field_le)
  ultimately show ?thesis using assms(2) by (cases fp) auto
qed

lemma line_loop_le: "length (snd (snd (snd (line_loop step st buf fp)))) \<le> length fp"
proof (induction step st buf fp rule: line_loop.induct)
  case (1 step st buf fp)
  obtain type buf' fp' where g: "pkt_get_line fp buf = (type, buf', fp')" by (metis prod_cases3)
  then have le: "length fp' \<le> length fp"
    using get_line_loop_le [of fp "length fp" BUFFERSIZE False "[]"] by (auto simp: pkt_get_line_def split: prod.splits)
  show ?case
  proof (cases "type = 1")
    case True
    then show ?thesis
      using 1 [OF g [symmetric] refl True] le
      by (subst line_loop.simps) (auto simp: g split: option.splits intro: le_trans)
  next
    case False
    then show ?thesis using le by (subst line_loop.simps) (simp add: g)
  qed
qed

lemma pkt_get_body_parse_le: "pkt_get_body_parse fp buf n = (ok, b, r) \<Longrightarrow> length r \<le> length fp"
  using line_loop_le [of parse_line parse_start buf fp]
  by (auto simp: pkt_get_body_parse_def split: prod.splits option.splits)

lemma unpack_shorter:
  "pkt_get_msg_hdr pd fp msg strict = Some (m, fp1) \<Longrightarrow> (ok, Some b, fp2) = pkt_get_body_parse fp1 buf n \<Longrightarrow>
     fp \<noteq> [] \<Longrightarrow> length fp2 < length fp"
  using pkt_get_msg_hdr_shorter pkt_get_body_parse_le by (metis le_less_trans)

text \<open>
  The loop of \<open>unpack\<close>.  The body reader does not return the type it stopped at, so the loop goes on until
  the file ends.
\<close>

function unpack_loop :: "tossenv \<Rightarrow> packet \<Rightarrow> message \<Rightarrow> bytes \<Rightarrow> tstate \<Rightarrow> (bool \<times> tstate) option" where
  "unpack_loop te pkt msg fp st =
     (if fp = [] then Some (True, st)
      else
        (let msg = msg\<lparr>node_from := pkt_from pkt, node_to := pkt_to pkt\<rparr>
         in case pkt_get_msg_hdr (te_parsedate te) fp msg (te_strict te) of
              None \<Rightarrow> Some (False, st)
            | Some (msg, fp1) \<Rightarrow>
                (case pkt_get_body_parse fp1 (te_buffer te) (node_to msg) of
                   (ok, b, fp2) \<Rightarrow>
                     (case b of
                        None \<Rightarrow> Some (False, st)
                      | Some b \<Rightarrow>
                          if \<not> ok then Some (False, st)
                          else
                            (case toss_message te pkt msg b
                                    (st\<lparr>msgs_in := msgs_in st + 1, ts_msg_count := ts_msg_count st + 1\<rparr>) of
                               None \<Rightarrow> None
                             | Some (False, _, st) \<Rightarrow> Some (False, st)
                             | Some (True, msg, st) \<Rightarrow>
                                 (case count_message te st of
                                    None \<Rightarrow> None
                                  | Some st \<Rightarrow> unpack_loop te pkt msg fp2 st))))))"
  by pat_completeness auto
termination
  by (relation "measure (length o fst o snd o snd o snd)") (auto dest: unpack_shorter)

definition msg_zero :: message where
  "msg_zero = \<lparr>node_from = mk_node 0 0 0 0, node_to = mk_node 0 0 0 0, node_orig = mk_node 0 0 0 0, attr = 0, cost = 0,
     date = 0, tz = None, name_to = replicate NAMEBUFSIZE ch_nul, name_from = replicate NAMEBUFSIZE ch_nul,
     subject = replicate SUBJBUFSIZE ch_nul, area = None\<rparr>"

text \<open>A type that cannot be read is an end of file, which is no error.\<close>

definition unpack :: "tossenv \<Rightarrow> packet \<Rightarrow> bytes \<Rightarrow> tstate \<Rightarrow> (bool \<times> tstate) option" where
  "unpack te pkt fp st =
     (case pkt_get_int16 fp of
        (type, fp) \<Rightarrow> if type = MSG_TYPE then unpack_loop te pkt msg_zero fp st else Some (True, st))"

text \<open>
  \<open>unpack_file\<close> on the bytes of the file (\<open>None\<close> if it cannot be opened): the result code, whether the
  packet is deleted (else it is renamed to a bad one), and the state.
\<close>

definition unpack_file :: "tossenv \<Rightarrow> int \<Rightarrow> (tm \<Rightarrow> int) \<Rightarrow> bytes option \<Rightarrow> tstate \<Rightarrow> (bool \<times> bool \<times> tstate) option" where
  "unpack_file te mday mktm f st =
     (case f of
        None \<Rightarrow> Some (True, False, st)
      | Some fp \<Rightarrow>
          (case pkt_get_hdr (cf_defzone (ts_cf st)) mday mktm fp of
             Some (True, pkt, fp) \<Rightarrow>
               (case unpack te pkt fp st of
                  None \<Rightarrow> None
                | Some (True, st) \<Rightarrow> Some (True, True, st)
                | Some (False, st) \<Rightarrow> Some (\<not> ts_severe st, False, st))
           | _ \<Rightarrow> Some (True, False, st)))"

subsection \<open>Who gets an echomail message\<close>

abbreviation echo_set :: "lon \<Rightarrow> (int \<times> int \<times> int) set" where
  "echo_set l \<equiv> echo ` set (lnodes l)"

lemma ensure_echo_eqs:
  "echo_set (ensure_echo n l) = insert (echo n) (echo_set l)"
  "set (lnodes (ensure_echo n l)) \<subseteq> insert n (set (lnodes l))"
  "lon_counts l \<Longrightarrow> lon_counts (ensure_echo n l)"
  by (auto simp: ensure_echo_def lon_search_echo_iff lon_counts_add)

lemma point_first_eqs:
  assumes "point f = 0"
  shows "echo_set (point_first f l) = echo_set l" "set (lnodes (point_first f l)) \<subseteq> insert f (set (lnodes l))"
    "lon_counts l \<Longrightarrow> lon_counts (point_first f l)"
proof -
  show "echo_set (point_first f l) = echo_set l"
    using assms by (cases "lnodes l") (auto simp: point_first_def set_first_def node_eq_echo_pa_def)
  show "set (lnodes (point_first f l)) \<subseteq> insert f (set (lnodes l))"
    by (cases "lnodes l") (auto simp: point_first_def set_first_def)
  show "lon_counts l \<Longrightarrow> lon_counts (point_first f l)"
    by (cases "lnodes l") (auto simp: point_first_def set_first_def lon_counts_def)
qed

lemma fold_ensure:
  fixes P :: "fnode \<Rightarrow> bool"
  defines "g \<equiv> fold (\<lambda>n sb. if P n then ensure_echo n sb else sb)"
  shows "echo_set l \<subseteq> echo_set (g ns l)" "set (lnodes (g ns l)) \<subseteq> set ns \<union> set (lnodes l)"
    "lon_counts l \<Longrightarrow> lon_counts (g ns l)"
proof -
  show "echo_set l \<subseteq> echo_set (g ns l)"
    unfolding g_def
  proof (induction ns arbitrary: l)
    case (Cons n ns)
    have "echo_set l \<subseteq> echo_set (if P n then ensure_echo n l else l)" using ensure_echo_eqs(1) [of n l] by auto
    then show ?case using Cons [of "if P n then ensure_echo n l else l"] by (simp only: fold.simps o_apply)
  qed simp
  show "set (lnodes (g ns l)) \<subseteq> set ns \<union> set (lnodes l)"
    unfolding g_def
  proof (induction ns arbitrary: l)
    case (Cons n ns)
    then show ?case using ensure_echo_eqs(2) [of n l] Cons [of "if P n then ensure_echo n l else l"]
      by (auto split: if_splits)
  qed simp
  show "lon_counts l \<Longrightarrow> lon_counts (g ns l)"
    unfolding g_def by (induction ns arbitrary: l) (auto simp: ensure_echo_eqs)
qed

lemma do_seenby_null: "do_seenby sb nodes new None cup f = (sb, new)"
proof -
  have "seenby_loop cup j f None ps sb new = (sb, new)" for j ps by (induction ps arbitrary: j) auto
  then show ?thesis by (simp add: do_seenby_def)
qed

text \<open>The SEEN-BY that came with the message, as it is read in the area.\<close>

abbreviation came_with :: "config \<Rightarrow> msgbody \<Rightarrow> lon" where
  "came_with cf b \<equiv> kludge_to_lon (cf_zone cf) (seenby b) lon_init"

lemma lists_in_sets:
  assumes pt: "point (node_from msg) = 0"
  shows "echo_set (fst (lists_in te cf pkt msg b)) =
      insert (echo (node_to msg)) (insert (echo (node_from msg)) (insert (echo (cf_addr cf)) (echo_set (came_with cf b))))"
    "set (lnodes (fst (lists_in te cf pkt msg b))) \<subseteq> set (lnodes (came_with cf b)) \<union> {cf_addr cf, node_from msg, node_to msg}"
    "lon_counts (fst (lists_in te cf pkt msg b))"
proof -
  define s1 where "s1 = point_first (node_from msg) (came_with cf b)"
  define s2 where "s2 = ensure_echo (cf_addr cf) s1"
  have l: "fst (lists_in te cf pkt msg b) = ensure_echo (node_to msg) (ensure_echo (node_from msg) s2)"
    by (simp add: lists_in_def do_4dpoint_def Let_def s1_def s2_def ensure_echo_def)
  show "echo_set (fst (lists_in te cf pkt msg b)) =
      insert (echo (node_to msg)) (insert (echo (node_from msg)) (insert (echo (cf_addr cf)) (echo_set (came_with cf b))))"
    unfolding l s2_def s1_def ensure_echo_eqs(1) point_first_eqs(1) [OF pt] ..
  show "set (lnodes (fst (lists_in te cf pkt msg b))) \<subseteq> set (lnodes (came_with cf b)) \<union> {cf_addr cf, node_from msg, node_to msg}"
    using ensure_echo_eqs(2) [of "node_to msg" "ensure_echo (node_from msg) s2"] ensure_echo_eqs(2) [of "node_from msg" s2]
      ensure_echo_eqs(2) [of "cf_addr cf" s1] point_first_eqs(2) [of "node_from msg" "came_with cf b"] pt
    unfolding l s2_def s1_def by blast
  show "lon_counts (fst (lists_in te cf pkt msg b))"
    unfolding l s2_def s1_def
    by (intro ensure_echo_eqs(3) point_first_eqs(3) pt kludge_to_lon_counts lon_counts_init)
qed

lemma more_seenby_sets:
  assumes "te_deleteseenby te = []"
  shows "echo_set sb \<subseteq> echo_set (more_seenby te cf addto f sb)"
    "set (lnodes (more_seenby te cf addto f sb)) \<subseteq> set (own_addrs cf) \<union> set (lnodes sb)"
    "lon_counts sb \<Longrightarrow> lon_counts (more_seenby te cf addto f sb)"
proof -
  have m: "more_seenby te cf addto f sb = (if add_other_aka te
     then fold (\<lambda>n sb. if zone n = c_short (cf_zone cf) then ensure_echo n sb else sb) (own_addrs cf) sb else sb)"
    using assms by (simp add: more_seenby_def do_seenby_null Let_def split: option.split)
  note f = fold_ensure [where P = "\<lambda>n. zone n = c_short (cf_zone cf)" and l = sb and ns = "own_addrs cf"]
  show "echo_set sb \<subseteq> echo_set (more_seenby te cf addto f sb)" using f(1) by (simp add: m)
  show "set (lnodes (more_seenby te cf addto f sb)) \<subseteq> set (own_addrs cf) \<union> set (lnodes sb)" using f(2) by (simp add: m)
  show "lon_counts sb \<Longrightarrow> lon_counts (more_seenby te cf addto f sb)" using f(3) by (simp add: m)
qed

lemma add_own_set: "set (lnodes (add_own te cf a f new)) \<subseteq> insert (cf_addr cf) (set (lnodes new))"
  by (auto simp: add_own_def)

lemma echo_lists_links:
  assumes e: "echo_lists te cf a addto pkt msg b = Some (sb, pth, new)" and d: "te_deleteseenby te = []"
    and pt: "point (node_from msg) = 0"
  obtains added where
    "set (lnodes new) \<subseteq> insert (cf_addr cf) (set added)" "set added \<subseteq> set (lnodes (ab_nodes a))"
    "\<forall>n \<in> set added. \<not> node_eq (node_from msg) n \<and> \<not> lon_search (ab_passive a) n \<and>
       echo n \<notin> insert (echo (node_to msg)) (insert (echo (node_from msg)) (insert (echo (cf_addr cf)) (echo_set (came_with cf b))))"
    "distinct (map echo added)"
    "echo_set (came_with cf b) \<union> echo ` set added \<union> {echo (cf_addr cf), echo (node_from msg), echo (node_to msg)} \<subseteq> echo_set sb"
    "set (lnodes sb) \<subseteq> set (lnodes (came_with cf b)) \<union> {cf_addr cf, node_from msg, node_to msg} \<union>
       set (lnodes (ab_nodes a)) \<union> set (own_addrs cf)"
    "lon_counts sb"
proof -
  define s3 where "s3 = fst (lists_in te cf pkt msg b)"
  obtain added where ad: "do_seenby s3 (ab_nodes a) (Some lon_init) (Some (ab_passive a)) (ab_uplinks a) (node_from msg) =
      (foldl lon_add s3 added, Some (foldl lon_add lon_init added))"
    "set added \<subseteq> set (lnodes (ab_nodes a))"
    "\<forall>n \<in> set added. \<not> lon_search_echo s3 n \<and> \<not> node_eq (node_from msg) n \<and> \<not> lon_search (ab_passive a) n"
    "distinct (map echo added)"
    unfolding do_seenby_def by (rule seenby_loop_spec)
  define s4 where "s4 = foldl lon_add s3 added"
  note s3 = lists_in_sets [OF pt, of te cf pkt b, folded s3_def]
  have s4: "lnodes s4 = lnodes s3 @ added" "lon_counts s4" using s3(3) by (simp_all add: s4_def lnodes_adds lon_counts_adds)
  have "sb = more_seenby te cf addto (node_from msg) s4 \<and> new = add_own te cf a (node_from msg) (foldl lon_add lon_init added)"
    using e ad(1) by (auto simp: echo_lists_def s3_def s4_def Let_def split_beta split: if_splits)
  then have sb: "sb = more_seenby te cf addto (node_from msg) s4" and new: "new = add_own te cf a (node_from msg) (foldl lon_add lon_init added)"
    by simp_all
  note m = more_seenby_sets [OF d, where sb = s4 and cf = cf and addto = addto and f = "node_from msg", folded sb]
  show thesis
  proof (rule that [of added])
    show "set (lnodes new) \<subseteq> insert (cf_addr cf) (set added)"
      using add_own_set [of te cf a "node_from msg" "foldl lon_add lon_init added"] by (simp add: new lnodes_adds)
    show "\<forall>n \<in> set added. \<not> node_eq (node_from msg) n \<and> \<not> lon_search (ab_passive a) n \<and>
       echo n \<notin> insert (echo (node_to msg)) (insert (echo (node_from msg)) (insert (echo (cf_addr cf)) (echo_set (came_with cf b))))"
      using ad(3) unfolding lon_search_echo_iff s3(1) by blast
    have "echo_set s4 = echo_set s3 \<union> echo ` set added" by (simp only: s4(1) set_append image_Un)
    then show "echo_set (came_with cf b) \<union> echo ` set added \<union> {echo (cf_addr cf), echo (node_from msg), echo (node_to msg)} \<subseteq> echo_set sb"
      using m(1) unfolding s3(1) by blast
    show "set (lnodes sb) \<subseteq> set (lnodes (came_with cf b)) \<union> {cf_addr cf, node_from msg, node_to msg} \<union>
       set (lnodes (ab_nodes a)) \<union> set (own_addrs cf)"
      using m(2) s3(2) ad(2) unfolding s4(1) set_append by blast
    show "lon_counts sb" by (rule m(3) [OF s4(2)])
  qed (fact ad)+
qed


text \<open>
  The way of one message from system to system.  Every hop may have its own configuration, area table and
  options; the list holds the systems the message was sent to, the last one first.
\<close>

definition fts_node :: "fnode \<Rightarrow> bool" where
  "fts_node n \<longleftrightarrow> (point n = 0 \<longrightarrow> ftn_num (net n) \<and> ftn_num (node n))"

inductive travels :: "fnode list \<Rightarrow> cstring list \<Rightarrow> bool" where
  travels_start: "travels [] []"
| travels_hop: "travels vs (seenby b) \<Longrightarrow> echo_lists te cf a addto pkt msg b = Some (sb, pth, new) \<Longrightarrow>
    te_deleteseenby te = [] \<Longrightarrow> \<not> echomail4d te \<Longrightarrow> ftn_num (cf_zone cf) \<Longrightarrow>
    point (node_from msg) = 0 \<Longrightarrow> list_all fts_node ([cf_addr cf, node_from msg, node_to msg] @ lnodes (ab_nodes a) @ own_addrs cf) \<Longrightarrow>
    length (lnodes sb) < 2147483648 \<Longrightarrow> n \<in> set (lnodes new) \<Longrightarrow> \<not> node_eq n (cf_addr cf) \<Longrightarrow> point n = 0 \<Longrightarrow>
    travels (n # vs) (fst (lon_to_kludge_sorted (echomail4d te) (cf_zone cf) [] ''SEEN-BY:'' sb))"

lemma distinct_map_Cons: "distinct (map f (x # xs)) \<longleftrightarrow> f x \<notin> f ` set xs \<and> distinct (map f xs)"
  by simp

lemma echo_point0: "k \<in> echo_set l \<Longrightarrow> snd (snd k) = 0 \<Longrightarrow> k \<in> echo ` set (filter (\<lambda>n. point n = 0) (lnodes l))"
  by auto

inductive_cases travels_ConsE: "travels (n # vs) ls"

lemma travels_inv:
  "travels vs ls \<Longrightarrow> distinct (map echo vs) \<and>
     (\<forall>z. ftn_num z \<longrightarrow> echo ` set vs \<subseteq> echo_set (kludge_to_lon z ls lon_init) \<and>
        (\<forall>n \<in> set (lnodes (kludge_to_lon z ls lon_init)). plain3 n))"
proof (induction rule: travels.induct)
  case travels_start
  then show ?case by (simp add: kludge_to_lon_def)
next
  case (travels_hop vs b te cf a addto pkt msg sb pth new n)
  have ih: "echo ` set vs \<subseteq> echo_set (came_with cf b)" "\<forall>n \<in> set (lnodes (came_with cf b)). plain3 n"
    and dv: "distinct (map echo vs)"
    using travels_hop by blast+
  obtain added where ad: "set (lnodes new) \<subseteq> insert (cf_addr cf) (set added)"
    "\<forall>n \<in> set added. \<not> node_eq (node_from msg) n \<and> \<not> lon_search (ab_passive a) n \<and>
       echo n \<notin> insert (echo (node_to msg)) (insert (echo (node_from msg)) (insert (echo (cf_addr cf)) (echo_set (came_with cf b))))"
    "echo_set (came_with cf b) \<union> echo ` set added \<union> {echo (cf_addr cf), echo (node_from msg), echo (node_to msg)} \<subseteq> echo_set sb"
    "set (lnodes sb) \<subseteq> set (lnodes (came_with cf b)) \<union> {cf_addr cf, node_from msg, node_to msg} \<union>
       set (lnodes (ab_nodes a)) \<union> set (own_addrs cf)"
    "lon_counts sb"
    by (rule echo_lists_links [OF travels_hop.hyps(2,3,6)])
  have "n \<noteq> cf_addr cf" using travels_hop.hyps(10) by (auto simp: node_eq_def)
  then have n: "n \<in> set added" using ad(1) travels_hop.hyps(9) by blast
  have d: "distinct (map echo (n # vs))"
  proof -
    have "echo n \<notin> echo_set (came_with cf b)" using bspec [OF ad(2) n] by blast
    then have "echo n \<notin> echo ` set vs" using ih(1) by (rule contra_subsetD [rotated])
    then show ?thesis unfolding distinct_map_Cons using dv by (rule conjI)
  qed
  have ok: "lon_ok sb" by (rule lon_counts_ok [OF ad(5) travels_hop.hyps(8)])
  have rng: "\<forall>m \<in> set (lnodes sb). point m = 0 \<longrightarrow> ftn_num (net m) \<and> ftn_num (node m)"
  proof
    fix m assume "m \<in> set (lnodes sb)"
    then have "m \<in> set (lnodes (came_with cf b)) \<or>
        m \<in> set ([cf_addr cf, node_from msg, node_to msg] @ lnodes (ab_nodes a) @ own_addrs cf)"
      using ad(4) by auto
    then have "plain3 m \<or> fts_node m" using ih(2) travels_hop.hyps(7) unfolding list_all_iff by blast
    then show "point m = 0 \<longrightarrow> ftn_num (net m) \<and> ftn_num (node m)" by (auto simp: fts_node_def)
  qed
  have sb: "echo n \<in> echo_set sb" "echo_set (came_with cf b) \<subseteq> echo_set sb"
    using ad(3) imageI [OF n, of echo] by blast+
  have zs: "echo ` set (n # vs) \<subseteq> echo ` set (filter (\<lambda>n. point n = 0) (lnodes sb))"
  proof (unfold list.set image_insert, rule insert_subsetI)
    show "echo n \<in> echo ` set (filter (\<lambda>n. point n = 0) (lnodes sb))"
      by (rule echo_point0 [OF sb(1)]) (simp add: travels_hop.hyps(11))
    show "echo ` set vs \<subseteq> echo ` set (filter (\<lambda>n. point n = 0) (lnodes sb))"
    proof
      fix k assume "k \<in> echo ` set vs"
      then have k: "k \<in> echo_set (came_with cf b)" using ih(1) by (rule subsetD [rotated])
      then obtain m where m: "m \<in> set (lnodes (came_with cf b))" "k = echo m" by (rule imageE)
      show "k \<in> echo ` set (filter (\<lambda>n. point n = 0) (lnodes sb))"
        by (rule echo_point0 [OF subsetD [OF sb(2) k]]) (use bspec [OF ih(2) m(1)] m(2) in simp)
    qed
  qed
  have four: "echomail4d te = False" using travels_hop.hyps(4) by simp
  show ?case
    unfolding four
  proof (rule conjI [OF d], intro allI impI)
    fix z :: int assume z: "ftn_num z"
    note r = kludge_lines_read [OF ok rng z, of "cf_zone cf"]
    show "echo ` set (n # vs) \<subseteq> echo_set (kludge_to_lon z (fst (lon_to_kludge_sorted False (cf_zone cf) [] ''SEEN-BY:'' sb)) lon_init) \<and>
        (\<forall>n \<in> set (lnodes (kludge_to_lon z (fst (lon_to_kludge_sorted False (cf_zone cf) [] ''SEEN-BY:'' sb)) lon_init)). plain3 n)"
      unfolding conjunct1 [OF r] by (rule conjI [OF zs conjunct1 [OF conjunct2 [OF r]]])
  qed
qed


text \<open>A system with one address that links two others in the area \<open>T\<close>.\<close>

definition toss_cf :: config where
  "toss_cf = scf_start\<lparr>scf_naddr := 1, scf_zone := 2, scf_c_addr := mk_node 2 5020 1 0, scf_c_uplink := mk_node 2 5020 0 0,
     scf_index := 0,
     scf_addr := [\<lparr>ca_zone = 2, ca_addr = mk_node 2 5020 1 0, ca_uplink = mk_node 2 5020 0 0, ca_gate = mk_node 0 0 0 0\<rparr>]\<rparr>"

definition toss_te :: tossenv where
  "toss_te = \<lparr>te_out = sample_env, te_date_tz = (\<lambda>t z. []), te_id_date = (\<lambda>t. []), te_via_date = [],
     te_buffer = replicate BUFFERSIZE ch_nul, te_strict = False, te_parsedate = (\<lambda>s. 0), te_maxmsg = 0, x_flag = False,
     te_now = 7, te_exp_sec = 0, te_create = (\<lambda>n a as. None), te_hist_ok = True, te_ping = (\<lambda>cf m b out. out),
     te_routes = \<lparr>rt_routing = [], rt_remap = [], rt_rewrite = [], rt_mkroute = [], rt_type = CHR ''n''\<rparr>,
     te_addto = [], te_deleteseenby = [],
     te_deletepath = [], g_flag = CHR ''n'', t_flag = False, n_flag = False, s_flag = False, p_flag = False,
     kill_empty = True, kill_unknown = True, kill_routed = True, kill_insecure = True, kill_circular = True,
     check_path = False, dupe_check = True, kill_dupe = True, kill_nomsgid = True, kill_old = False, echomail4d = False,
     no_empty_path = False, add_other_aka = False, support_ping = False,
     b_security = True, b_insecure_not_db = True, b_fts_via = True, b_spyes = True, te_spies = []\<rparr>"

definition toss_area :: areasbbs where
  "toss_area = sample_area\<lparr>ab_state := None, ab_uplinks := 1,
     ab_nodes := \<lparr>lsize = 2, lnodes = [mk_node 2 5020 2 0, mk_node 2 5020 3 0]\<rparr>\<rparr>"

definition toss_msg :: message where
  "toss_msg = msg_zero\<lparr>node_from := mk_node 2 5020 3 0, node_to := mk_node 2 5020 1 0\<rparr>"

definition toss_body :: msgbody where
  "toss_body = msg_body_init\<lparr>b_area := Some ''AREA:T'', kludge := [ch_ctrl_a # ''MSGID: 2:5020/3 1'' @ [ch_cr]]\<rparr>"

definition toss_pkt :: packet where
  "toss_pkt = \<lparr>pkt_from = mk_node 2 5020 3 0, pkt_to = mk_node 2 5020 1 0, pkt_time = 0, pkt_baud = 0, pkt_version = 2,
     pkt_product_l = 0, pkt_product_h = 0, pkt_rev_min = 0, pkt_rev_maj = 0, pkt_passwd = [], pkt_capword = 0, pkt_psd = []\<rparr>"

lemma toss_lists:
  obtains pth where "echo_lists toss_te toss_cf toss_area None toss_pkt toss_msg toss_body =
     Some (\<lparr>lsize = 3, lnodes = [mk_node 2 5020 1 0, mk_node 2 5020 3 0, mk_node 2 5020 2 0]\<rparr>, pth,
           \<lparr>lsize = 2, lnodes = [mk_node 2 5020 2 0, mk_node 2 5020 1 0]\<rparr>)"
  by (simp add: echo_lists_def lists_in_def do_4dpoint_def point_first_def ensure_echo_def lon_search_echo_def node_eq_echo_def
      more_seenby_def add_own_def do_seenby_def lon_search_def node_eq_def cf_addr_def kludge_to_lon_def lon_add_def lon_init_def
      is_c_int_def toss_te_def toss_cf_def toss_area_def toss_msg_def toss_body_def sample_area_def areasbbs_new_def
      msg_body_init_def and_one_eq split_beta)



subsection \<open>Duplicates\<close>

text \<open>What no message changes: names, zones and addresses of the areas, our addresses; keys are only added.\<close>

definition area_id :: "areasbbs \<Rightarrow> cstring \<times> int \<times> fnode" where
  "area_id a = (ab_area a, ab_zone a, ab_addr a)"

definition keeps :: "tstate \<Rightarrow> tstate \<Rightarrow> bool" where
  "keeps st st' \<longleftrightarrow> map area_id (ab_list (ts_areas st')) = map area_id (ab_list (ts_areas st)) \<and>
     scf_addr (ts_cf st') = scf_addr (ts_cf st) \<and> scf_naddr (ts_cf st') = scf_naddr (ts_cf st) \<and>
     set (ts_keys st) \<subseteq> set (ts_keys st')"

lemma keeps_refl [simp]: "keeps st st"
  by (simp add: keeps_def)

lemma keeps_trans: "keeps a b \<Longrightarrow> keeps b c \<Longrightarrow> keeps a c"
  by (auto simp: keeps_def)

lemma keeps_upd_area:
  assumes "\<And>a. area_id (f a) = area_id a"
  shows "keeps st (upd_area i f st)"
proof -
  have "map area_id (xs[i := f (xs ! i)]) = map area_id xs" for xs :: "areasbbs list"
    using assms by (cases "i < length xs") (auto simp: map_update list_update_same_conv list_update_beyond)
  then show ?thesis by (simp add: keeps_def)
qed

lemma put_message_keeps: "put_message te f t g ty fl bad k msg b st = (ok, m', st') \<Longrightarrow> keeps st st'"
  by (auto simp: put_message_def keeps_def split: prod.splits option.splits)

lemma kill_or_bad_keeps: "kill_or_bad k te msg b st = (ok, m', st') \<Longrightarrow> keeps st st'"
  by (auto simp: kill_or_bad_def do_bad_msg_def split: if_splits prod.splits dest: put_message_keeps)

lemma zonegate_keeps: "zonegate_lines te p b st = (b', st') \<Longrightarrow> keeps st st'"
  by (auto simp: zonegate_lines_def keeps_def Let_def split: option.splits prod.splits)

lemma toss_echomail_keeps: "toss_echomail te pas ps msg b st = (ok, m', st') \<Longrightarrow> keeps st st'"
proof (induction ps arbitrary: msg st)
  case (Cons p ps)
  show ?case
  proof (cases "lon_search pas p")
    case True
    then show ?thesis using Cons by simp
  next
    case False
    obtain b1 s1 where z: "zonegate_lines te p b st = (b1, s1)" by (cases "zonegate_lines te p b st")
    obtain ok1 m1 s2 where m: "put_message te (cf_addr (ts_cf s1)) p (g_flag te) CHR ''e'' CHR ''n'' False False
        (msg\<lparr>node_to := p, node_from := cf_addr (ts_cf s1)\<rparr>) b1 s1 = (ok1, m1, s2)" by (metis prod_cases3)
    have k: "keeps st s2" using keeps_trans [OF zonegate_keeps [OF z] put_message_keeps [OF m]] .
    have c: "keeps s2 (s2\<lparr>msgs_echomail := n\<rparr>)" for n by (simp add: keeps_def)
    show ?thesis
    proof (cases ok1)
      case True
      then have "toss_echomail te pas ps m1 b (s2\<lparr>msgs_echomail := msgs_echomail s2 + 1\<rparr>) = (ok, m', st')"
        using Cons.prems False z m by simp
      from Cons.IH [OF this] show ?thesis using keeps_trans [OF keeps_trans [OF k c]] by blast
    next
      case False
      then show ?thesis using Cons.prems \<open>\<not> lon_search pas p\<close> z m k by simp
    qed
  qed
qed simp

lemma keeps_eq_fields:
  "ts_areas st' = ts_areas st \<Longrightarrow> ts_cf st' = ts_cf st \<Longrightarrow> ts_keys st' = ts_keys st \<Longrightarrow> keeps st st'"
  by (simp add: keeps_def)

lemma send_echomail_keeps:
  assumes "send_echomail te i msg b sb pth new st = (ok, m', st')"
  shows "keeps st st'"
proof -
  define s1 where "s1 = upd_area i (\<lambda>a. a\<lparr>ab_time := te_now te\<rparr>) st"
  define s2 where "s2 = s1\<lparr>ts_areas := (ts_areas s1)\<lparr>ab_changed := True\<rparr>\<rparr>"
  obtain pas ns b2 ok2 m2 s3 where t: "toss_echomail te pas ns msg b2 s2 = (ok2, m2, s3)"
    and s': "st' = upd_area i (\<lambda>a. a\<lparr>ab_msgs_out := ab_msgs_out a + 1, ab_msgs_size := ab_msgs_size a + 80\<rparr>) s3"
    using assms by (auto simp: send_echomail_def Let_def s2_def s1_def split: prod.splits)
  have "keeps st s1" unfolding s1_def by (rule keeps_upd_area) (simp add: area_id_def)
  moreover have "keeps s1 s2" by (simp add: s2_def keeps_def)
  moreover have "keeps s2 s3" by (rule toss_echomail_keeps [OF t])
  moreover have "keeps s3 st'" unfolding s' by (rule keeps_upd_area) (simp add: area_id_def)
  ultimately show ?thesis using keeps_trans by blast
qed

lemma state_stage_keeps:
  assumes "state_stage te i msg b sb pth new st = Some (ok, m', st')"
  shows "keeps st st'"
proof -
  have u: "keeps st (upd_area i (\<lambda>a. a\<lparr>ab_state := s\<rparr>) st)" for s by (rule keeps_upd_area) (simp add: area_id_def)
  have b: "do_bad_msg te msg b st = (ok, m', st') \<Longrightarrow> keeps st st'"
    using kill_or_bad_keeps [of False te msg b st ok m' st'] by (simp add: kill_or_bad_def)
  show ?thesis
    using assms unfolding state_stage_def Let_def
    by (auto simp: bind_eq_Some_conv split: if_splits
        dest: kill_or_bad_keeps b send_echomail_keeps keeps_trans [OF u send_echomail_keeps])
qed

lemma checked_stage_keeps:
  assumes "checked_stage te pkt i msg b st = Some (ok, m', st')"
  shows "keeps st st'"
proof -
  define s1 where "s1 = upd_area i (\<lambda>a. a\<lparr>ab_msgs_routed := ab_msgs_routed a + 1\<rparr>) (st\<lparr>msgs_routed := msgs_routed st + 1\<rparr>)"
  define s2 where "s2 = upd_area i (\<lambda>a. a\<lparr>ab_msgs_insecure := ab_msgs_insecure a + 1\<rparr>) (st\<lparr>msgs_insecure := msgs_insecure st + 1\<rparr>)"
  define s3 where "s3 = upd_area i (\<lambda>a. a\<lparr>ab_msgs_path := ab_msgs_path a + 1\<rparr>) (st\<lparr>msgs_path := msgs_path st + 1\<rparr>)"
  have u: "keeps st s1" "keeps st s2" "keeps st s3"
    unfolding s1_def s2_def s3_def by (rule keeps_trans [OF _ keeps_upd_area]; simp add: keeps_def area_id_def)+
  show ?thesis
    using assms unfolding checked_stage_def Let_def s1_def [symmetric] s2_def [symmetric] s3_def [symmetric]
    by (auto simp: bind_eq_Some_conv split: if_splits
        dest: keeps_trans [OF u(1) kill_or_bad_keeps] keeps_trans [OF u(2) kill_or_bad_keeps]
          keeps_trans [OF u(3) kill_or_bad_keeps] state_stage_keeps)
qed

lemma set_best_table: "cf_set_best z n f c = Some c' \<Longrightarrow> scf_addr c' = scf_addr c \<and> scf_naddr c' = scf_naddr c"
  by (auto simp: cf_set_best_def Let_def split: prod.splits option.splits)

lemma set_area_zone_table: "set_area_zone a c = Some c' \<Longrightarrow> scf_addr c' = scf_addr c \<and> scf_naddr c' = scf_naddr c"
  by (auto simp: set_area_zone_def cf_set_zone_def cf_set_curr_def bind_eq_Some_conv split: if_splits dest!: set_best_table)

lemma set_best_again:
  assumes "cf_set_best z n f c = Some c1" "scf_addr d = scf_addr c" "scf_naddr d = scf_naddr c"
  shows "\<exists>d1. cf_set_best z n f d = Some d1 \<and> scf_addr d1 = scf_addr c \<and> scf_naddr d1 = scf_naddr c"
proof -
  have "cf_get_best d = cf_get_best c"
  proof -
    have fa: "find_addr d = find_addr c" using assms(2,3) by (simp add: find_addr_def fun_eq_iff)
    show ?thesis by (rule ext) (simp only: cf_get_best_def fa assms(2,3))
  qed
  then show ?thesis using assms by (auto simp: cf_set_best_def Let_def split: prod.splits option.splits)
qed

lemma set_area_zone_again:
  assumes "set_area_zone a c = Some c1" "scf_addr d = scf_addr c" "scf_naddr d = scf_naddr c" "area_id a' = area_id a"
  shows "\<exists>d1. set_area_zone a' d = Some d1 \<and> scf_addr d1 = scf_addr c \<and> scf_naddr d1 = scf_naddr c"
proof -
  have id: "ab_zone a' = ab_zone a" "ab_addr a' = ab_addr a" using assms(4) by (simp_all add: area_id_def)
  obtain c0 where c0: "(if ab_zone a \<noteq> -1 then cf_set_zone (ab_zone a) c else Some c) = Some c0"
    "(if zone (ab_addr a) \<noteq> -1 then cf_set_curr (ab_addr a) c0 else Some c0) = Some c1"
    using assms(1) by (auto simp: set_area_zone_def bind_eq_Some_conv)
  have t0: "scf_addr c0 = scf_addr c \<and> scf_naddr c0 = scf_naddr c"
    using c0(1) by (auto simp: cf_set_zone_def split: if_splits dest: set_best_table)
  obtain d0 where d0: "(if ab_zone a \<noteq> -1 then cf_set_zone (ab_zone a) d else Some d) = Some d0"
    "scf_addr d0 = scf_addr c" "scf_naddr d0 = scf_naddr c"
    using c0(1) assms(2,3) set_best_again [of "ab_zone a" "-1" "-1" c c0 d]
    by (auto simp: cf_set_zone_def split: if_splits)
  obtain d1 where "(if zone (ab_addr a) \<noteq> -1 then cf_set_curr (ab_addr a) d0 else Some d0) = Some d1"
    "scf_addr d1 = scf_addr c" "scf_naddr d1 = scf_naddr c"
  proof (cases "zone (ab_addr a) \<noteq> -1")
    case True
    then obtain e where "cf_set_best (zone (ab_addr a)) (net (ab_addr a)) (node (ab_addr a)) c0 = Some e"
      using c0(2) by (auto simp: cf_set_curr_def bind_eq_Some_conv)
    from set_best_again [OF this, of d0] show ?thesis
      using that True d0 t0 by (auto simp: cf_set_curr_def)
  qed (use that d0 in auto)
  then show ?thesis using d0(1) by (auto simp: set_area_zone_def id)
qed

lemma dupe_key_again:
  assumes "scf_addr d = scf_addr c" "area_id a' = area_id a"
  shows "dupe_key te d a' msg b = dupe_key te c a msg b"
proof -
  have z: "cf_defzone d = cf_defzone c" "ab_area a' = ab_area a" using assms by (simp_all add: cf_defzone_def area_id_def)
  show ?thesis by (simp only: dupe_key_def z)
qed

lemma lookup_again:
  assumes "map area_id (ab_list s') = map area_id (ab_list s)"
  shows "areasbbs_lookup tag s' = areasbbs_lookup tag s"
proof -
  have l: "length (ab_list s') = length (ab_list s)" using assms by (metis length_map)
  have "ab_area (ab_list s' ! i) = ab_area (ab_list s ! i)" if "i < length (ab_list s)" for i
    using arg_cong [OF assms, of "\<lambda>l. fst (l ! i)"] that l by (simp add: area_id_def)
  then have "List.find (\<lambda>i. stricmp t (ab_area (ab_list s' ! i)) = 0) [0..<n] =
      List.find (\<lambda>i. stricmp t (ab_area (ab_list s ! i)) = 0) [0..<n]" if "n \<le> length (ab_list s)" for t n
    using that by (induction n) (auto simp: find_append split: option.split)
  then show ?thesis by (simp add: areasbbs_lookup_def l split: option.split)
qed

text \<open>What a duplicate leaves behind: the counters only, if duplicates are killed.\<close>

definition dupe_only :: "tstate \<Rightarrow> tstate \<Rightarrow> bool" where
  "dupe_only st st' \<longleftrightarrow> ts_out st' = ts_out st \<and> ts_hist st' = ts_hist st \<and> ts_keys st' = ts_keys st \<and>
     msgs_dupe st' = msgs_dupe st + 1 \<and> msgs_echomail st' = msgs_echomail st"

lemma dupe_key_from: "dupe_key te cf a msg b = (k, m) \<Longrightarrow> node_from m = node_from msg"
  by (auto simp: dupe_key_def Let_def split: option.splits if_splits prod.splits bool.splits)

text \<open>With INSECURE_DONT_PUT_INTO_DUPE_DB only messages from linked systems are recorded.\<close>

abbreviation recorded :: "tossenv \<Rightarrow> nat \<Rightarrow> message \<Rightarrow> tstate \<Rightarrow> bool" where
  "recorded te i msg st \<equiv> \<not> b_insecure_not_db te \<or> lon_search (ab_nodes (ab_list (ts_areas st) ! i)) (node_from msg)"

lemma dupe_stage_first:
  assumes "dupe_stage te i msg b st = Some r" "dupe_check te" "te_hist_ok te" "\<not> kill_old te" "recorded te i msg st"
  obtains (known) m k where "dupe_key te (ts_cf st) (ab_list (ts_areas st) ! i) msg b = (k, m)" "k \<noteq> Dupe_overflow"
      "k = Dupe_kill \<or> (\<exists>id. k = Dupe_key id \<and>
         (\<forall>ok m' st'. r = Inl (ok, m', st') \<longrightarrow> id \<in> set (ts_keys st')) \<and> (\<forall>m st'. r = Inr (m, st') \<longrightarrow> id \<in> set (ts_keys st')))"
      "\<forall>ok m' st'. r = Inl (ok, m', st') \<longrightarrow> keeps st st'" "\<forall>m st'. r = Inr (m, st') \<longrightarrow> keeps st st'"
proof -
  obtain k m where km: "dupe_key te (ts_cf st) (ab_list (ts_areas st) ! i) msg b = (k, m)" by (meson prod.exhaust)
  have nov: "k \<noteq> Dupe_overflow" using assms(1,2) km by (auto simp: dupe_stage_def)
  have d: "keeps st st'" if "kill_or_bad (kill_dupe te) te m b
      (upd_area i (\<lambda>a. a\<lparr>ab_msgs_dupe := ab_msgs_dupe a + 1\<rparr>) (st\<lparr>msgs_dupe := msgs_dupe st + 1\<rparr>)) = (ok, m', st')" for ok st' m m'
  proof -
    have "keeps st (upd_area i (\<lambda>a. a\<lparr>ab_msgs_dupe := ab_msgs_dupe a + 1\<rparr>) (st\<lparr>msgs_dupe := msgs_dupe st + 1\<rparr>))"
      by (rule keeps_trans [OF _ keeps_upd_area]) (simp_all add: keeps_def area_id_def)
    then show ?thesis using keeps_trans kill_or_bad_keeps [OF that] by blast
  qed
  show thesis
  proof (cases k)
    case Dupe_overflow
    then show ?thesis using nov by simp
  next
    case Dupe_kill
    then have "r = Inl (kill_or_bad (kill_dupe te) te m b
        (upd_area i (\<lambda>a. a\<lparr>ab_msgs_dupe := ab_msgs_dupe a + 1\<rparr>) (st\<lparr>msgs_dupe := msgs_dupe st + 1\<rparr>)))"
      using assms(1,2) km by (simp add: dupe_stage_def)
    then show ?thesis using known [OF km nov] Dupe_kill d by auto
  next
    case (Dupe_key id)
    show ?thesis
    proof (cases "hi_test id st")
      case True
      then have r: "r = Inl (kill_or_bad (kill_dupe te) te m b
          (upd_area i (\<lambda>a. a\<lparr>ab_msgs_dupe := ab_msgs_dupe a + 1\<rparr>) (st\<lparr>msgs_dupe := msgs_dupe st + 1\<rparr>)))"
        using assms(1,2,4) km Dupe_key by (simp add: dupe_stage_def)
      have "id \<in> set (ts_keys st)" using True by (simp add: hi_test_def)
      then have "id \<in> set (ts_keys st')" if "r = Inl (ok, m', st')" for ok m' st'
        using d [OF that [unfolded r sum.inject(1)]] unfolding keeps_def by blast
      then show ?thesis using known [OF km nov] Dupe_key d r by auto
    next
      case False
      then have "r = Inr (m, st\<lparr>ts_hist := ts_hist st @ id @ ch_tab # dec (te_now te) @ [ch_lf], ts_keys := id # ts_keys st\<rparr>)"
        using assms km Dupe_key dupe_key_from [OF km] by (auto simp: dupe_stage_def hi_write_def)
      then show ?thesis using known [OF km nov] Dupe_key by (auto simp: keeps_def)
    qed
  qed
qed

lemma dupe_stage_second:
  assumes "dupe_check te" "kill_dupe te" "\<not> kill_old te" "dupe_key te (ts_cf st) (ab_list (ts_areas st) ! i) msg b = (k, m)"
    and "k = Dupe_kill \<or> (\<exists>id. k = Dupe_key id \<and> id \<in> set (ts_keys st))"
  obtains st' where "dupe_stage te i msg b st = Some (Inl (True, m, st'))" "dupe_only st st'"
  using assms by (auto simp: dupe_stage_def hi_test_def kill_or_bad_def dupe_only_def)

lemma keeps_counted:
  assumes "set_area_zone (ab_list (ts_areas st) ! i) (ts_cf st) = Some cf"
  shows "keeps st (upd_area i (\<lambda>a. a\<lparr>ab_msgs_in := ab_msgs_in a + 1\<rparr>) (st\<lparr>ts_cf := cf\<rparr>))"
proof (rule keeps_trans [OF _ keeps_upd_area])
  show "keeps st (st\<lparr>ts_cf := cf\<rparr>)" using set_area_zone_table [OF assms] by (simp add: keeps_def)
qed (simp add: area_id_def)

lemma keeps_area: "keeps st s \<Longrightarrow> i < length (ab_list (ts_areas st)) \<Longrightarrow>
    area_id (ab_list (ts_areas s) ! i) = area_id (ab_list (ts_areas st) ! i)"
  unfolding keeps_def by (metis length_map nth_map)

lemma keeps_key:
  assumes "keeps st s" "i < length (ab_list (ts_areas st))"
  shows "dupe_key te (ts_cf s) (ab_list (ts_areas s) ! i) msg b = dupe_key te (ts_cf st) (ab_list (ts_areas st) ! i) msg b"
  using assms(1) keeps_area [OF assms] by (intro dupe_key_again) (simp_all add: keeps_def)

text \<open>What the first run leaves: the same table, and the key of the message among the keys.\<close>

lemma echomail_first:
  assumes "do_echomail te pkt msg b st = Some (ok, m1, st1)" "areasbbs_lookup (Some (area_name b)) (ts_areas st) = Some i"
    and "\<not> insecure_packet te pkt msg" "dupe_check te" "te_hist_ok te" "\<not> kill_old te" "recorded te i msg st"
    and i: "i < length (ab_list (ts_areas st))"
  obtains cf k m where "set_area_zone (ab_list (ts_areas st) ! i) (ts_cf st) = Some cf" "keeps st st1"
    "dupe_key te (ts_cf st) (ab_list (ts_areas st) ! i) msg b = (k, m)"
    "k = Dupe_kill \<or> (\<exists>id. k = Dupe_key id \<and> id \<in> set (ts_keys st1))"
proof -
  have f: "find_area te msg (area_name b) st = (Some i, st)" using assms(2) by (simp add: find_area_def)
  obtain cf where cf: "set_area_zone (ab_list (ts_areas st) ! i) (ts_cf st) = Some cf"
    using assms(1,3) f by (auto simp: do_echomail_def bind_eq_Some_conv)
  define s0 where "s0 = upd_area i (\<lambda>a. a\<lparr>ab_msgs_in := ab_msgs_in a + 1\<rparr>) (st\<lparr>ts_cf := cf\<rparr>)"
  have k0: "keeps st s0" unfolding s0_def by (rule keeps_counted [OF cf])
  obtain r where r: "dupe_stage te i msg b s0 = Some r"
    and fin: "(case r of Inl done \<Rightarrow> Some done | Inr (m, s) \<Rightarrow> checked_stage te pkt i m b s) = Some (ok, m1, st1)"
    using assms(1,3) f cf by (auto simp: do_echomail_def s0_def bind_eq_Some_conv)
  obtain m k where km: "dupe_key te (ts_cf s0) (ab_list (ts_areas s0) ! i) msg b = (k, m)" "k \<noteq> Dupe_overflow"
      "k = Dupe_kill \<or> (\<exists>id. k = Dupe_key id \<and>
         (\<forall>ok m' st'. r = Inl (ok, m', st') \<longrightarrow> id \<in> set (ts_keys st')) \<and> (\<forall>m st'. r = Inr (m, st') \<longrightarrow> id \<in> set (ts_keys st')))"
      and rk: "\<forall>ok m' st'. r = Inl (ok, m', st') \<longrightarrow> keeps s0 st'" "\<forall>m st'. r = Inr (m, st') \<longrightarrow> keeps s0 st'"
    by (rule dupe_stage_first [OF r assms(4,5,6)]) (use assms(7) i in \<open>simp add: s0_def\<close>)
  have "keeps s0 st1 \<and> (k = Dupe_kill \<or> (\<exists>id. k = Dupe_key id \<and> id \<in> set (ts_keys st1)))"
  proof (cases r)
    case (Inl d)
    then show ?thesis using fin rk(1) km(3) by (cases d) auto
  next
    case (Inr p)
    obtain m' s' where p: "p = (m', s')" by (cases p)
    then have "keeps s' st1" using fin Inr checked_stage_keeps by auto
    moreover have "keeps s0 s'" using rk(2) Inr p by simp
    ultimately show ?thesis using km(3) Inr p keeps_trans by (auto simp: keeps_def)
  qed
  then show ?thesis using that [OF cf keeps_trans [OF k0] km(1) [unfolded keeps_key [OF k0 i]]] by blast
qed


definition toss_st :: tstate where
  "toss_st = \<lparr>ts_cf = toss_cf, ts_areas = \<lparr>ab_first = None, ab_list = [toss_area], ab_filename = None, ab_changed = False\<rparr>,
     ts_out = sample_start, ts_prev = 0, ts_hist = [], ts_keys = [], ts_zonegate = [], ts_severe = False,
     ts_must_exit = False, ts_msg_count = 0, msgs_in = 0, msgs_netmail = 0, msgs_echomail = 0, msgs_routed = 0,
     msgs_insecure = 0, msgs_unknown = 0, msgs_empty = 0, msgs_path = 0, msgs_dupe = 0\<rparr>"

lemma toss_zone: "set_area_zone toss_area toss_cf = Some toss_cf"
  by (simp add: set_area_zone_def toss_area_def toss_cf_def sample_area_def areasbbs_new_def cf_set_zone_def cf_set_best_def
      cf_get_best_def find_addr_def node_invalid_def)

lemma toss_key: "dupe_key toss_te toss_cf (toss_area\<lparr>ab_msgs_in := 1\<rparr>) toss_msg toss_body = (Dupe_key ''T MSGID: 2:5020/3 1'', toss_msg)"
proof -
  have k: "kludge_get (kludge toss_body) ''MSGID'' = Some (''2:5020/3 1'' @ [ch_cr], 0)"
    by (simp add: toss_body_def msg_body_init_def kludge_from_tline_def code_tolower is_space_def)
  have c: "str_copy3 (replicate BUFFERSIZE ch_nul) BUFFERSIZE ''T'' '' '' (''MSGID: 2:5020/3 1'' @ [ch_cr]) =
      Some (''T MSGID: 2:5020/3 1'' @ ch_cr # ch_nul # replicate (BUFFERSIZE - 21) ch_nul)"
    unfolding str_copies_close by (subst copy_close_fits) (simp_all add: BUFFERSIZE_def)
  have s: "cstr (''T MSGID: 2:5020/3 1'' @ ch_cr # ch_nul # replicate (BUFFERSIZE - 21) ch_nul) = ''T MSGID: 2:5020/3 1'' @ [ch_cr]"
    by (simp add: cstr_def)
  have p: "kludge toss_body ! 0 = ch_ctrl_a # ''MSGID: 2:5020/3 1'' @ [ch_cr]" "ab_area (toss_area\<lparr>ab_msgs_in := 1\<rparr>) = ''T''"
    by (simp_all add: toss_body_def toss_area_def sample_area_def)
  have d: "chomp (''T MSGID: 2:5020/3 1'' @ [ch_cr]) = ''T MSGID: 2:5020/3 1''"
    by (simp add: chomp_def)
  show ?thesis
    by (simp only: dupe_key_def k p option.case prod.case Let_def) (simp add: c [simplified] s [simplified] d [simplified])
qed

lemma toss_lists_in:
  obtains sb pth new where "echo_lists toss_te toss_cf (toss_area\<lparr>ab_msgs_in := 1\<rparr>) None toss_pkt toss_msg toss_body = Some (sb, pth, new)"
  by (simp add: echo_lists_def split_beta toss_te_def)

lemma toss_secure: "\<not> insecure_packet toss_te toss_pkt toss_msg"
  by (simp add: insecure_packet_def check_point_origin_addr_def node_eq_def node_invalid_def toss_msg_def msg_zero_def)
     (simp add: toss_te_def sample_env_def)

lemma toss_linked: "lon_search (ab_nodes toss_area) (node_from toss_msg)"
  by (simp add: toss_area_def toss_msg_def lon_search_def node_eq_def)

lemma toss_runs: "\<exists>ok m st1. do_echomail toss_te toss_pkt toss_msg toss_body toss_st = Some (ok, m, st1)"
proof -
  have n: "area_name toss_body = ''T''"
    by (simp add: area_name_def toss_body_def BUFSIZ_def chomp_def buf_copy_def)
  have l: "areasbbs_lookup (Some ''T'') (ts_areas toss_st) = Some 0"
    by (simp add: areasbbs_lookup_def toss_st_def toss_area_def sample_area_def stricmp_zero strieq_def)
  have st: "ts_cf toss_st = toss_cf" "ab_list (ts_areas toss_st) = [toss_area]" "ts_keys toss_st = []" by (simp_all add: toss_st_def)
  note pw = toss_secure
  define s0 where "s0 = upd_area 0 (\<lambda>a. a\<lparr>ab_msgs_in := ab_msgs_in a + 1\<rparr>) (toss_st\<lparr>ts_cf := toss_cf\<rparr>)"
  have a0: "ab_list (ts_areas s0) = [toss_area\<lparr>ab_msgs_in := 1\<rparr>]" "ts_cf s0 = toss_cf" "ts_keys s0 = []"
    by (simp_all add: s0_def st toss_area_def sample_area_def areasbbs_new_def)
  obtain s1 where d: "dupe_stage toss_te 0 toss_msg toss_body s0 = Some (Inr (toss_msg, s1))"
      and s1: "ab_list (ts_areas s1) = [toss_area\<lparr>ab_msgs_in := 1\<rparr>]" "ts_cf s1 = toss_cf"
  proof -
    have "dupe_check toss_te" "\<not> kill_old toss_te" "te_hist_ok toss_te" by (simp_all add: toss_te_def)
    then have "dupe_stage toss_te 0 toss_msg toss_body s0 = Some (Inr (toss_msg, the (hi_write toss_te ''T MSGID: 2:5020/3 1'' s0)))"
      using toss_key a0 toss_linked by (simp add: dupe_stage_def hi_test_def hi_write_def)
    then show ?thesis using that a0 \<open>te_hist_ok toss_te\<close> by (auto simp: hi_write_def)
  qed
  obtain sb pth new where e: "echo_lists toss_te toss_cf (toss_area\<lparr>ab_msgs_in := 1\<rparr>) None toss_pkt toss_msg toss_body = Some (sb, pth, new)"
    by (rule toss_lists_in)
  have "\<exists>ok m st1. state_stage toss_te 0 toss_msg toss_body sb pth new s1 = Some (ok, m, st1)"
    by (cases "send_echomail toss_te 0 toss_msg toss_body sb pth new s1")
       (simp add: state_stage_def s1 areasbbs_isstate_def toss_area_def)
  moreover have "checked_stage toss_te toss_pkt 0 toss_msg toss_body s1 = state_stage toss_te 0 toss_msg toss_body sb pth new s1"
    using e by (simp add: checked_stage_def s1)
      (simp add: toss_te_def toss_msg_def toss_cf_def cf_addr_def node_eq_def toss_area_def lon_search_def)
  ultimately show ?thesis
    using toss_zone d by (simp add: do_echomail_def n find_area_def l pw st s0_def)
qed


subsection \<open>Two tables without their effect\<close>

text \<open>Without a list of passive systems \<open>do_seenby\<close> adds nothing: an \<open>AddToSeenBy\<close> line has no effect.\<close>

lemma seenby_loop_null: "seenby_loop cup j f None ps sb new = (sb, new)"
  by (induction ps arbitrary: j) simp_all

lemma addtoseenby_dead: "echo_lists te cf a (Some add) pkt msg b = echo_lists te cf a None pkt msg b"
  by (simp add: echo_lists_def more_seenby_def do_seenby_def seenby_loop_null)

text \<open>A rewriting rule never changes the recipient, whichever side of the message it matched.\<close>

lemma rewrite_keeps_recipient: "do_rewrite rs msg = Some m \<Longrightarrow> node_to m = node_to msg"
  by (induction rs arbitrary: msg) (auto simp: bind_eq_Some_conv split: if_splits)

end
