(* ===== verification/Textlist.thy ===== *)
theory Textlist
  imports C_Strings
begin

text \<open>
  The doubly linked line lists of \<open>src/common/textlist.c\<close> on an explicit heap: a \<open>Textline\<close> is a
  cell, a pointer its address, and using a pointer that is NULL or freed is the value \<open>None\<close>.
  The operations refine the operations on the list of lines.
\<close>

subsection \<open>Cells and lists\<close>

type_synonym addr = nat

record textline =
  line :: cstring
  nxt :: "addr option"
  prv :: "addr option"

type_synonym cells = "addr \<rightharpoonup> textline"

text \<open>The heap allocates cells at increasing addresses (\<open>xmalloc\<close> never returns NULL).\<close>

record tl_heap =
  cells :: cells
  brk :: addr

record textlist =
  first :: "addr option"
  last_line :: "addr option"
  n_lines :: int

definition set_next :: "cells \<Rightarrow> addr option \<Rightarrow> addr option \<Rightarrow> cells option" where
  "set_next h p v = do { a \<leftarrow> p; r \<leftarrow> h a; Some (h(a \<mapsto> r\<lparr>nxt := v\<rparr>)) }"

definition set_prev :: "cells \<Rightarrow> addr option \<Rightarrow> addr option \<Rightarrow> cells option" where
  "set_prev h p v = do { a \<leftarrow> p; r \<leftarrow> h a; Some (h(a \<mapsto> r\<lparr>prv := v\<rparr>)) }"

subsection \<open>Operations\<close>

definition tl_init :: textlist where
  "tl_init = \<lparr>first = None, last_line = None, n_lines = 0\<rparr>"

definition tl_add :: "tl_heap \<Rightarrow> textlist \<Rightarrow> addr \<Rightarrow> (tl_heap \<times> textlist) option" where
  "tl_add h l ln = do {
     (c, l') \<leftarrow> (if last_line l \<noteq> None
                then do { c \<leftarrow> set_next (cells h) (last_line l) (Some ln); Some (c, l) }
                else Some (cells h, l\<lparr>first := Some ln\<rparr>));
     c \<leftarrow> set_next c (Some ln) None;
     c \<leftarrow> set_prev c (Some ln) (last_line l');
     Some (h\<lparr>cells := c\<rparr>, l'\<lparr>last_line := Some ln, n_lines := c_int (n_lines l' + 1)\<rparr>) }"

definition tl_remove :: "tl_heap \<Rightarrow> textlist \<Rightarrow> addr \<Rightarrow> (tl_heap \<times> textlist) option" where
  "tl_remove h l ln = do {
     r \<leftarrow> cells h ln;
     (c, l) \<leftarrow> (if first l = Some ln then Some (cells h, l\<lparr>first := nxt r\<rparr>)
              else do { c \<leftarrow> set_next (cells h) (prv r) (nxt r); Some (c, l) });
     r \<leftarrow> c ln;
     (c, l) \<leftarrow> (if last_line l = Some ln then Some (c, l\<lparr>last_line := prv r\<rparr>)
              else do { c \<leftarrow> set_prev c (nxt r) (prv r); Some (c, l) });
     c \<leftarrow> set_next c (Some ln) None;
     c \<leftarrow> set_prev c (Some ln) None;
     Some (h\<lparr>cells := c\<rparr>, l\<lparr>n_lines := c_int (n_lines l - 1)\<rparr>) }"

definition tl_delete :: "tl_heap \<Rightarrow> textlist \<Rightarrow> addr \<Rightarrow> (tl_heap \<times> textlist) option" where
  "tl_delete h l ln = do {
     (h, l) \<leftarrow> tl_remove h l ln;
     Some (h\<lparr>cells := (cells h)(ln := None)\<rparr>, l) }"

text \<open>\<open>s\<close> is NULL or a string; \<open>strsave\<close> copies it.\<close>

definition tl_append :: "tl_heap \<Rightarrow> textlist \<Rightarrow> cstring option \<Rightarrow> (tl_heap \<times> textlist) option" where
  "tl_append h l s =
     (case s of None \<Rightarrow> Some (h, l)
      | Some s \<Rightarrow>
          (let a = brk h;
               h = \<lparr>cells = (cells h)(a \<mapsto> \<lparr>line = s, nxt = None, prv = None\<rparr>), brk = Suc a\<rparr>
           in tl_add h l a))"

text \<open>\<open>for (p = list->first; p; p = p->next)\<close>: the cells visited, \<open>None\<close> if the loop never ends.\<close>

partial_function (option) tl_walk :: "cells \<Rightarrow> addr option \<Rightarrow> (addr \<times> cstring) list option" where
  "tl_walk h p =
     (case p of None \<Rightarrow> Some []
      | Some a \<Rightarrow> do { r \<leftarrow> h a; xs \<leftarrow> tl_walk h (nxt r); Some ((a, line r) # xs) })"

definition tl_lines :: "tl_heap \<Rightarrow> textlist \<Rightarrow> cstring list option" where
  "tl_lines h l = map_option (map snd) (tl_walk (cells h) (first l))"

definition tl_fput :: "tl_heap \<Rightarrow> textlist \<Rightarrow> bytes option" where
  "tl_fput h l = map_option concat (tl_lines h l)"

definition tl_print :: "tl_heap \<Rightarrow> textlist \<Rightarrow> bytes option" where
  "tl_print h l = map_option concat (tl_lines h l)"

definition tl_print_xx :: "tl_heap \<Rightarrow> textlist \<Rightarrow> cstring option \<Rightarrow> cstring option \<Rightarrow> bytes option" where
  "tl_print_xx h l prefix suffix =
     map_option (\<lambda>ls. concat (map (\<lambda>s. (case prefix of None \<Rightarrow> [] | Some p \<Rightarrow> p) @ s @
       (case suffix of None \<Rightarrow> [] | Some p \<Rightarrow> p)) ls)) (tl_lines h l)"

definition tl_size :: "tl_heap \<Rightarrow> textlist \<Rightarrow> int option" where
  "tl_size h l = map_option (\<lambda>ls. foldl (\<lambda>n s. n + int (length s)) 0 ls) (tl_lines h l)"

definition tl_clear :: "tl_heap \<Rightarrow> textlist \<Rightarrow> (tl_heap \<times> textlist) option" where
  "tl_clear h l = do {
     ps \<leftarrow> tl_walk (cells h) (first l);
     Some (h\<lparr>cells := foldl (\<lambda>c p. c(fst p := None)) (cells h) ps\<rparr>, tl_init) }"

fun tl_append_all :: "tl_heap \<Rightarrow> textlist \<Rightarrow> cstring list \<Rightarrow> (tl_heap \<times> textlist) option" where
  "tl_append_all h l [] = Some (h, l)"
| "tl_append_all h l (s # ss) = do { (h, l) \<leftarrow> tl_append h l (Some s); tl_append_all h l ss }"

text \<open>\<open>tl_addtl\<close> and \<open>tl_copy\<close> for two different lists.\<close>

definition tl_addtl :: "tl_heap \<Rightarrow> textlist \<Rightarrow> textlist \<Rightarrow> (tl_heap \<times> textlist) option" where
  "tl_addtl h d s = do { ls \<leftarrow> tl_lines h s; tl_append_all h d ls }"

definition tl_dup :: "tl_heap \<Rightarrow> textlist \<Rightarrow> (tl_heap \<times> textlist) option" where
  "tl_dup h src = do { ls \<leftarrow> tl_lines h src; tl_append_all h tl_init ls }"

text \<open>\<open>tl_addtl_move\<close> returns the heap and the two lists.\<close>

definition tl_addtl_move :: "tl_heap \<Rightarrow> textlist \<Rightarrow> textlist \<Rightarrow> (tl_heap \<times> textlist \<times> textlist) option" where
  "tl_addtl_move h d s =
     (if first d = None then Some (h, s, tl_init)
      else do {
        c \<leftarrow> set_next (cells h) (last_line d) (first s);
        Some (h\<lparr>cells := c\<rparr>, d\<lparr>n_lines := c_int (n_lines d + n_lines s)\<rparr>, tl_init) })"

definition tl_get :: "tl_heap \<Rightarrow> textlist \<Rightarrow> cstring \<Rightarrow> nat \<Rightarrow> addr option option" where
  "tl_get h l str len =
     map_option (\<lambda>ps. map_option fst (List.find (\<lambda>(a, s).
       if len = 0 then stricmp s str = 0 else strnicmp s str len = 0) ps)) (tl_walk (cells h) (first l))"

subsection \<open>The list a textlist stands for\<close>

definition head_of :: "'a list \<Rightarrow> 'a option" where
  "head_of as = (case as of [] \<Rightarrow> None | a # _ \<Rightarrow> Some a)"

definition end_of :: "'a list \<Rightarrow> 'a option" where
  "end_of as = (if as = [] then None else Some (last as))"

fun chain :: "cells \<Rightarrow> addr option \<Rightarrow> addr list \<Rightarrow> cstring list \<Rightarrow> addr option \<Rightarrow> bool" where
  "chain h pv [] [] nx = True"
| "chain h pv (a # as) (x # xs) nx =
     (h a = Some \<lparr>line = x, nxt = (if as = [] then nx else head_of as), prv = pv\<rparr> \<and>
      chain h (Some a) as xs nx)"
| "chain h pv _ _ nx = False"

definition tl_rep :: "tl_heap \<Rightarrow> textlist \<Rightarrow> addr list \<Rightarrow> cstring list \<Rightarrow> bool" where
  "tl_rep h l as xs \<longleftrightarrow>
     chain (cells h) None as xs None \<and> distinct as \<and> (\<forall>a \<in> set as. a < brk h) \<and>
     first l = head_of as \<and> last_line l = end_of as \<and> n_lines l = int (length as) \<and>
     length as < 2147483648"

lemma chain_length: "chain h pv as xs nx \<Longrightarrow> length as = length xs"
  by (induction h pv as xs nx rule: chain.induct) auto

lemma chain_other: "a \<notin> set as \<Longrightarrow> chain (h(a := v)) pv as xs nx = chain h pv as xs nx"
  by (induction h pv as xs nx rule: chain.induct) auto

lemma chain_append:
  "length as = length xs \<Longrightarrow> chain h pv (as @ bs) (xs @ ys) nx \<longleftrightarrow>
     chain h pv as xs (if bs = [] then nx else head_of bs) \<and>
     chain h (if as = [] then pv else end_of as) bs ys nx"
proof (induction as xs arbitrary: pv rule: list_induct2)
  case (Cons a as x xs)
  then show ?case by (cases as) (auto simp: head_of_def end_of_def split: list.splits)
qed simp

lemma chain_walk: "chain h pv as xs None \<Longrightarrow> tl_walk h (head_of as) = Some (zip as xs)"
proof (induction h pv as xs "None :: addr option" rule: chain.induct)
  case (1 h pv)
  then show ?case by (simp add: tl_walk.simps head_of_def)
next
  case (2 h pv a as x xs)
  then show ?case
    by (subst tl_walk.simps) (cases as; auto simp: head_of_def tl_walk.simps)
qed auto

lemma tl_lines_rep: "tl_rep h l as xs \<Longrightarrow> tl_lines h l = Some xs"
  using chain_length [of "cells h" None as xs None]
  by (auto simp: tl_rep_def tl_lines_def chain_walk)

text \<open>What an operation on one list leaves alone.\<close>

definition same_cells :: "addr set \<Rightarrow> tl_heap \<Rightarrow> tl_heap \<Rightarrow> bool" where
  "same_cells A h h' \<longleftrightarrow> (\<forall>b. b \<notin> A \<longrightarrow> cells h' b = cells h b) \<and> brk h' = brk h"

lemma chain_cong: "\<forall>a \<in> set as. h' a = h a \<Longrightarrow> chain h' pv as xs nx = chain h pv as xs nx"
  by (induction h pv as xs nx rule: chain.induct) auto

lemma tl_rep_other:
  "tl_rep h l as xs \<Longrightarrow> same_cells A h h' \<Longrightarrow> A \<inter> set as = {} \<Longrightarrow> tl_rep h' l as xs"
  using chain_cong [of as "cells h'" "cells h" None xs None]
  by (auto simp: tl_rep_def same_cells_def)

lemma end_of_snoc [simp]: "end_of (as @ [a]) = Some a" "end_of [] = None"
  by (simp_all add: end_of_def)

lemma head_of_simps [simp]: "head_of (a # as) = Some a" "head_of [] = None"
  by (simp_all add: head_of_def)

lemma head_of_append: "head_of (as @ bs) = (if as = [] then head_of bs else head_of as)"
  by (cases as) simp_all

lemma end_of_Cons: "end_of (a # bs) = (if bs = [] then Some a else end_of bs)"
  by (simp add: end_of_def)

lemma head_of_in: "head_of as = Some a \<Longrightarrow> a \<in> set as"
  by (cases as) auto

lemma end_of_in: "end_of as = Some a \<Longrightarrow> a \<in> set as"
  by (auto simp: end_of_def split: if_splits)

lemma c_int_len [simp]:
  "Suc n < 2147483648 \<Longrightarrow> c_int (1 + int n) = 1 + int n"
  "0 < n \<Longrightarrow> n < 2147483648 \<Longrightarrow> c_int (int n - 1) = int n - 1"
  by (simp_all add: is_c_int_def)

lemma tl_add_rep:
  assumes "tl_rep h l as xs" "a \<notin> set as" "cells h a = Some r" "a < brk h" "Suc (length as) < 2147483648"
  shows "\<exists>h' l'. tl_add h l a = Some (h', l') \<and> tl_rep h' l' (as @ [a]) (xs @ [line r]) \<and>
     same_cells (insert a (set as)) h h'"
proof (cases as rule: rev_cases)
  case Nil
  then have "xs = []" using assms(1) chain_length by (fastforce simp: tl_rep_def)
  then show ?thesis
    using assms Nil
    by (simp add: tl_add_def tl_rep_def set_next_def set_prev_def same_cells_def is_c_int_def end_of_Cons)
next
  case (snoc bs b)
  obtain ys y where xs: "xs = ys @ [y]" "length bs = length ys"
    using assms(1) chain_length snoc by (cases xs rule: rev_cases) (fastforce simp: tl_rep_def)+
  have ch: "chain (cells h) None bs ys (Some b)"
    "cells h b = Some \<lparr>line = y, nxt = None, prv = (if bs = [] then None else end_of bs)\<rparr>"
    using assms(1) snoc xs by (auto simp: tl_rep_def chain_append)
  define c where "c = (cells h)(b \<mapsto> \<lparr>line = y, nxt = Some a, prv = (if bs = [] then None else end_of bs)\<rparr>,
      a \<mapsto> \<lparr>line = line r, nxt = None, prv = Some b\<rparr>)"
  have ab: "a \<noteq> b" "a \<notin> set bs" "b \<notin> set bs" using assms(1,2) snoc by (auto simp: tl_rep_def)
  have "tl_add h l a = Some (h\<lparr>cells := c\<rparr>, l\<lparr>last_line := Some a, n_lines := n_lines l + 1\<rparr>)"
  proof -
    have "is_c_int (n_lines l + 1)" "last_line l = Some b"
      using assms snoc by (auto simp: tl_rep_def is_c_int_def)
    moreover obtain x v w where "r = \<lparr>line = x, nxt = v, prv = w\<rparr>" by (cases r)
    ultimately show ?thesis
      using assms(3) ch ab by (simp add: tl_add_def set_next_def set_prev_def c_def)
  qed
  moreover have "chain c None (as @ [a]) (xs @ [line r]) None"
    using ch ab snoc xs by (simp add: chain_append c_def chain_other)
  ultimately show ?thesis
    using assms ab snoc by (auto simp: tl_rep_def same_cells_def c_def head_of_append end_of_def)
qed

lemma tl_append_rep:
  assumes "tl_rep h l as xs" "Suc (length as) < 2147483648"
  shows "\<exists>h' l'. tl_append h l (Some s) = Some (h', l') \<and> tl_rep h' l' (as @ [brk h]) (xs @ [s]) \<and>
     (\<forall>b. b \<notin> insert (brk h) (set as) \<longrightarrow> cells h' b = cells h b) \<and> brk h' = Suc (brk h)"
proof -
  let ?h = "\<lparr>cells = (cells h)(brk h \<mapsto> \<lparr>line = s, nxt = None, prv = None\<rparr>), brk = Suc (brk h)\<rparr>"
  have "brk h \<notin> set as" using assms(1) by (auto simp: tl_rep_def)
  then have "tl_rep ?h l as xs" using assms(1) by (auto simp: tl_rep_def chain_other)
  from tl_add_rep [OF this \<open>brk h \<notin> set as\<close>, of "\<lparr>line = s, nxt = None, prv = None\<rparr>"] assms(2)
  show ?thesis by (auto simp: tl_append_def same_cells_def)
qed

lemma chain_set_next:
  assumes "chain h pv as xs nx" "as \<noteq> []" "distinct as"
  shows "\<exists>h'. set_next h (end_of as) v = Some h' \<and> chain h' pv as xs v \<and>
     (\<forall>b. b \<noteq> last as \<longrightarrow> h' b = h b)"
proof (cases as rule: rev_cases)
  case (snoc us u)
  obtain ys y where xs: "xs = ys @ [y]" "length us = length ys"
    using chain_length [OF assms(1)] snoc by (cases xs rule: rev_cases) auto
  have "chain h pv us ys (Some u)" "h u = Some \<lparr>line = y, nxt = nx, prv = (if us = [] then pv else end_of us)\<rparr>"
    using assms(1) snoc xs by (auto simp: chain_append)
  then show ?thesis
    using assms(3) snoc xs by (auto simp: set_next_def chain_append chain_other)
qed (use assms in simp)

lemma chain_set_prev:
  assumes "chain h pv as xs nx" "as \<noteq> []" "distinct as"
  shows "\<exists>h'. set_prev h (head_of as) v = Some h' \<and> chain h' v as xs nx \<and>
     (\<forall>b. b \<noteq> hd as \<longrightarrow> h' b = h b)"
proof (cases as)
  case (Cons c cs)
  then obtain y ys where "xs = y # ys" using chain_length [OF assms(1)] by (cases xs) auto
  then show ?thesis
    using assms Cons by (auto simp: set_prev_def chain_other)
qed (use assms in simp)

lemma tl_remove_rep:
  assumes "tl_rep h l (as @ a # bs) (xs @ x # ys)" "length as = length xs"
  shows "\<exists>h' l'. tl_remove h l a = Some (h', l') \<and> tl_rep h' l' (as @ bs) (xs @ ys) \<and>
     same_cells (insert a (set as \<union> set bs)) h h'"
proof -
  have ch: "chain (cells h) None as xs (Some a)"
    "cells h a = Some \<lparr>line = x, nxt = head_of bs, prv = end_of as\<rparr>"
    "chain (cells h) (Some a) bs ys None"
    using assms by (auto simp: tl_rep_def chain_append end_of_def)
  have l: "first l = (if as = [] then Some a else head_of as)"
    "last_line l = (if bs = [] then Some a else end_of bs)"
    "n_lines l = 1 + int (length (as @ bs))" "Suc (length (as @ bs)) < 2147483648"
    using assms by (auto simp: tl_rep_def head_of_append end_of_def split: if_splits)
  have d: "a \<notin> set as" "a \<notin> set bs" "distinct as" "distinct bs" "set as \<inter> set bs = {}"
    using assms by (auto simp: tl_rep_def)
  have b: "\<forall>b \<in> set (as @ bs). b < brk h" using assms(1) by (simp add: tl_rep_def)
  have fa: "first l = Some a \<longleftrightarrow> as = []" "last_line l = Some a \<longleftrightarrow> bs = []"
    using l d by (auto dest: head_of_in end_of_in)
  obtain c1 where c1: "(if as = [] then Some (cells h) else set_next (cells h) (end_of as) (head_of bs)) = Some c1"
    "chain c1 None as xs (head_of bs)" "\<forall>b. b \<notin> set as \<longrightarrow> c1 b = cells h b"
  proof (cases "as = []")
    case True
    then show ?thesis using that [of "cells h"] ch(1) assms(2) by simp
  next
    case False
    with chain_set_next [OF ch(1) False d(3), of "head_of bs"] show ?thesis
      using that by (metis last_in_set)
  qed
  have "\<forall>b \<in> set bs. c1 b = cells h b" using c1(3) d(5) by auto
  from chain_cong [OF this] ch(3) have ch1: "chain c1 (Some a) bs ys None" by simp
  obtain c2 where c2: "(if bs = [] then Some c1 else set_prev c1 (head_of bs) (end_of as)) = Some c2"
    "chain c2 (end_of as) bs ys None" "\<forall>b. b \<notin> set bs \<longrightarrow> c2 b = c1 b"
  proof (cases "bs = []")
    case True
    moreover have "ys = []" using True ch(3) chain_length by fastforce
    ultimately show ?thesis using that [of c1] by simp
  next
    case False
    with chain_set_prev [OF ch1 False d(4), of "end_of as"] show ?thesis
      using that by (metis hd_in_set)
  qed
  have ca: "c1 a = cells h a" "c2 a = cells h a" using c1(3) c2(3) d by auto
  define c3 where "c3 = c2(a \<mapsto> \<lparr>line = x, nxt = None, prv = None\<rparr>)"
  define l' where "l' = \<lparr>first = head_of (as @ bs), last_line = end_of (as @ bs), n_lines = int (length (as @ bs))\<rparr>"
  define l1 where "l1 = (if as = [] then l\<lparr>first := head_of bs\<rparr> else l)"
  define l2 where "l2 = (if bs = [] then l1\<lparr>last_line := end_of as\<rparr> else l1)"
  have s1: "(if first l = Some a then Some (cells h, l\<lparr>first := head_of bs\<rparr>)
      else do { c \<leftarrow> set_next (cells h) (end_of as) (head_of bs); Some (c, l) }) = Some (c1, l1)"
    using c1(1) fa(1) by (cases "as = []") (simp_all add: l1_def)
  have la: "last_line l1 = last_line l" by (simp add: l1_def)
  have s2: "(if last_line l1 = Some a then Some (c1, l1\<lparr>last_line := end_of as\<rparr>)
      else do { c \<leftarrow> set_prev c1 (head_of bs) (end_of as); Some (c, l1) }) = Some (c2, l2)"
    unfolding la using c2(1) fa(2) by (cases "bs = []") (simp_all add: l2_def)
  have s3: "set_next c2 (Some a) None = Some (c2(a \<mapsto> \<lparr>line = x, nxt = None, prv = end_of as\<rparr>))"
    "set_prev (c2(a \<mapsto> \<lparr>line = x, nxt = None, prv = end_of as\<rparr>)) (Some a) None = Some c3"
    using ca ch(2) by (simp_all add: set_next_def set_prev_def c3_def)
  have l3: "l2\<lparr>n_lines := c_int (n_lines l2 - 1)\<rparr> = l'"
    using l by (auto simp: l2_def l1_def l'_def head_of_append end_of_def is_c_int_def)
  have "tl_remove h l a = Some (h\<lparr>cells := c3\<rparr>, l')"
    using ch(2) ca(1) s1 s2 s3 l3
    by (simp only: tl_remove_def bind.bind_lunit option.case prod.case textline.select_convs)
  moreover have "chain c3 None (as @ bs) (xs @ ys) None"
  proof -
    have "\<forall>b \<in> set as. c2 b = c1 b" using c2(3) d(5) by auto
    from chain_cong [OF this] c1(2) have "chain c2 None as xs (head_of bs)" by simp
    then have "chain c2 None (as @ bs) (xs @ ys) None"
      using c2(2) assms(2) chain_length [OF ch(3)]
      by (cases "as = []"; cases "bs = []") (auto simp: chain_append)
    then show ?thesis using d by (simp add: c3_def chain_other)
  qed
  ultimately show ?thesis
    using l(4) d b c1(3) c2(3)
    by (auto simp: tl_rep_def same_cells_def l'_def c3_def)
qed

subsection \<open>Refinement of lists of lines\<close>

lemma tl_rep_length: "tl_rep h l as xs \<Longrightarrow> length as = length xs"
  by (auto simp: tl_rep_def dest: chain_length)

lemma tl_rep_init: "tl_rep h tl_init [] []"
  by (simp add: tl_rep_def tl_init_def)

text \<open>
  C8. On a well linked heap tl_append adds a new cell with the line at the end of the list, with
  all links and the line count right, and tl_lines reads the list back.
\<close>

theorem tl_append_refines:
  assumes "tl_rep h l as xs" "Suc (length xs) < 2147483648"
  shows "\<exists>h' l' a. tl_append h l (Some s) = Some (h', l') \<and> tl_rep h' l' (as @ [a]) (xs @ [s]) \<and>
     tl_lines h' l' = Some (xs @ [s])"
  using tl_append_rep [OF assms(1), of s] assms(2) tl_rep_length [OF assms(1)] tl_lines_rep by metis

theorem tl_append_refines_witness:
  "\<exists>h' l' a. tl_append \<lparr>cells = Map.empty, brk = 0\<rparr> tl_init (Some ''x'') = Some (h', l') \<and>
     tl_rep h' l' ([] @ [a]) ([] @ [''x'']) \<and> tl_lines h' l' = Some ([] @ [''x''])"
  by (rule tl_append_refines [OF tl_rep_init]) simp

text \<open>
  C9. tl_remove unlinks exactly the given cell of a well linked list, at the head, at the end or
  in between, and leaves a well linked list.
\<close>

theorem tl_remove_refines:
  assumes "tl_rep h l as xs" "i < length as"
  shows "\<exists>h' l'. tl_remove h l (as ! i) = Some (h', l') \<and>
     tl_rep h' l' (take i as @ drop (Suc i) as) (take i xs @ drop (Suc i) xs) \<and>
     tl_lines h' l' = Some (take i xs @ drop (Suc i) xs)"
proof -
  have "as = take i as @ as ! i # drop (Suc i) as" using assms(2) by (rule id_take_nth_drop)
  moreover have "xs = take i xs @ xs ! i # drop (Suc i) xs"
    using assms tl_rep_length by (intro id_take_nth_drop) metis
  moreover have "length (take i as) = length (take i xs)"
    using tl_rep_length [OF assms(1)] by simp
  ultimately show ?thesis
    using tl_remove_rep [of h l "take i as" "as ! i" "drop (Suc i) as" "take i xs" "xs ! i" "drop (Suc i) xs"]
      assms(1) tl_lines_rep by metis
qed

theorem tl_remove_refines_witness:
  "\<exists>h' l'. tl_remove \<lparr>cells = [0 \<mapsto> \<lparr>line = ''x'', nxt = None, prv = None\<rparr>], brk = 1\<rparr>
      \<lparr>first = Some 0, last_line = Some 0, n_lines = 1\<rparr> ([0] ! 0) = Some (h', l') \<and>
     tl_rep h' l' (take 0 [0] @ drop (Suc 0) [0]) (take 0 [''x''] @ drop (Suc 0) [''x'']) \<and>
     tl_lines h' l' = Some (take 0 [''x''] @ drop (Suc 0) [''x''])"
  by (rule tl_remove_refines) (simp_all add: tl_rep_def end_of_def)

text \<open>
  \<open>tl_addtl_move\<close> hooks the second list behind the first but leaves \<open>last\<close> at the old end: the
  lines are there when the list is walked, and the next \<open>tl_append\<close> cuts them off.
\<close>

lemma chain_walk_nx:
  "chain h pv as xs nx \<Longrightarrow> tl_walk h nx = Some ws \<Longrightarrow>
     tl_walk h (if as = [] then nx else head_of as) = Some (zip as xs @ ws)"
proof (induction h pv as xs nx rule: chain.induct)
  case (2 h pv a as x xs nx)
  then show ?case by (subst tl_walk.simps) (simp split: if_splits)
qed auto

text \<open>A list whose first \<open>as\<close> cells hold \<open>xs\<close>, with any continuation behind the recorded end.\<close>

definition tl_open :: "tl_heap \<Rightarrow> textlist \<Rightarrow> addr list \<Rightarrow> cstring list \<Rightarrow> addr option \<Rightarrow> bool" where
  "tl_open h d as xs nx \<longleftrightarrow> chain (cells h) None as xs nx \<and> as \<noteq> [] \<and> distinct as \<and>
     first d = head_of as \<and> last_line d = end_of as"

lemma tl_rep_open: "tl_rep h d as xs \<Longrightarrow> as \<noteq> [] \<Longrightarrow> tl_open h d as xs None"
  by (simp add: tl_rep_def tl_open_def)

lemma tl_move_open:
  assumes "tl_open h d as xs nx" "tl_rep h s bs ys" "set as \<inter> set bs = {}"
  shows "\<exists>h1 d1. tl_addtl_move h d s = Some (h1, d1, tl_init) \<and> tl_open h1 d1 as xs (head_of bs) \<and>
     tl_lines h1 d1 = Some (xs @ ys) \<and> same_cells (set as) h h1"
proof -
  have a: "chain (cells h) None as xs nx" "distinct as" "first d = head_of as" "last_line d = end_of as"
    "as \<noteq> []" using assms(1) by (auto simp: tl_open_def)
  have b: "chain (cells h) None bs ys None" "first s = head_of bs"
    using assms(2) by (auto simp: tl_rep_def)
  obtain c where c: "set_next (cells h) (end_of as) (head_of bs) = Some c" "chain c None as xs (head_of bs)"
    "\<forall>x. x \<noteq> last as \<longrightarrow> c x = cells h x"
    using chain_set_next [OF a(1) a(5) a(2), of "head_of bs"] by blast
  define h1 where "h1 = h\<lparr>cells := c\<rparr>"
  define d1 where "d1 = d\<lparr>n_lines := c_int (n_lines d + n_lines s)\<rparr>"
  have mv: "tl_addtl_move h d s = Some (h1, d1, tl_init)"
    using c(1) a b(2) by (cases as) (simp_all add: tl_addtl_move_def h1_def d1_def)
  have "\<forall>x \<in> set bs. c x = cells h x"
    using c(3) assms(3) last_in_set [OF a(5)] by (metis disjoint_iff)
  from chain_cong [OF this] b(1) have bs: "chain c None bs ys None" by simp
  have "tl_walk c (head_of as) = Some (zip as xs @ zip bs ys)"
    using chain_walk_nx [OF c(2) chain_walk [OF bs]] a(5) by simp
  then have "tl_lines h1 d1 = Some (xs @ ys)"
    using a(3) chain_length [OF c(2)] chain_length [OF bs] by (simp add: tl_lines_def h1_def d1_def)
  moreover have "tl_open h1 d1 as xs (head_of bs)"
    using c(2) a by (simp add: tl_open_def h1_def d1_def)
  moreover have "same_cells (set as) h h1"
  proof -
    have "c b = cells h b" if "b \<notin> set as" for b
      using c(3) last_in_set [OF a(5)] that by metis
    then show ?thesis by (simp add: same_cells_def h1_def)
  qed
  ultimately show ?thesis using mv by blast
qed

text \<open>
  C20. Moving two lists behind a third with tl_addtl_move loses the lines of the first one
  moved, because the end pointer is not updated.
\<close>

theorem tl_addtl_move_twice:
  assumes "tl_rep h d as xs" "as \<noteq> []" "tl_rep h s bs ys" "tl_rep h t cs zs"
    and "set as \<inter> set bs = {}" "set as \<inter> set cs = {}"
  shows "\<exists>h1 d1 h2 d2. tl_addtl_move h d s = Some (h1, d1, tl_init) \<and> tl_lines h1 d1 = Some (xs @ ys) \<and>
     tl_addtl_move h1 d1 t = Some (h2, d2, tl_init) \<and> tl_lines h2 d2 = Some (xs @ zs)"
proof -
  obtain h1 d1 where 1: "tl_addtl_move h d s = Some (h1, d1, tl_init)" "tl_open h1 d1 as xs (head_of bs)"
    "tl_lines h1 d1 = Some (xs @ ys)" "same_cells (set as) h h1"
    using tl_move_open [OF tl_rep_open [OF assms(1,2)] assms(3,5)] by blast
  have "tl_rep h1 t cs zs" by (rule tl_rep_other [OF assms(4) 1(4) assms(6)])
  from tl_move_open [OF 1(2) this assms(6)] 1(1,3) show ?thesis by blast
qed

theorem tl_addtl_move_twice_witness:
  "\<exists>h1 d1 h2 d2. tl_addtl_move
      \<lparr>cells = [0 \<mapsto> \<lparr>line = ''a'', nxt = None, prv = None\<rparr>, 1 \<mapsto> \<lparr>line = ''b'', nxt = None, prv = None\<rparr>,
                2 \<mapsto> \<lparr>line = ''c'', nxt = None, prv = None\<rparr>], brk = 3\<rparr>
      \<lparr>first = Some 0, last_line = Some 0, n_lines = 1\<rparr>
      \<lparr>first = Some 1, last_line = Some 1, n_lines = 1\<rparr> = Some (h1, d1, tl_init) \<and>
     tl_lines h1 d1 = Some ([''a''] @ [''b'']) \<and>
     tl_addtl_move h1 d1 \<lparr>first = Some 2, last_line = Some 2, n_lines = 1\<rparr> = Some (h2, d2, tl_init) \<and>
     tl_lines h2 d2 = Some ([''a''] @ [''c''])"
  by (rule tl_addtl_move_twice [where as = "[0]" and bs = "[1]" and cs = "[2]"])
     (simp_all add: tl_rep_def end_of_def)

subsection \<open>Reading a list as a stream of characters\<close>

text \<open>
  The state of a \<open>TextlistCharIterator\<close>: the rest of the current line and the lines behind it,
  \<open>None\<close> when \<open>cur\<close> is NULL.
\<close>

type_synonym char_iter = "(cstring \<times> cstring list) option"

definition tl_char_iterator_start :: "cstring list \<Rightarrow> char_iter" where
  "tl_char_iterator_start ls = (case ls of [] \<Rightarrow> None | l # ls \<Rightarrow> Some (l, ls))"

function tl_char_iterator_loop :: "cstring \<Rightarrow> cstring list \<Rightarrow> nat \<Rightarrow> char_iter \<times> bytes" where
  "tl_char_iterator_loop cur ls len =
     (if len = 0 then (Some (cur, ls), [])
      else
        (let to_move = min (length cur) len; rest = drop to_move cur in
         if rest = [] then
           (case ls of [] \<Rightarrow> (None, take to_move cur)
            | l # ls' \<Rightarrow>
                (let (it, b) = tl_char_iterator_loop l ls' (len - to_move) in (it, take to_move cur @ b)))
         else
           (let (it, b) = tl_char_iterator_loop rest ls (len - to_move) in (it, take to_move cur @ b))))"
  by pat_completeness auto
termination
  by (relation "measures [\<lambda>(cur, ls, len). length ls, \<lambda>(cur, ls, len). len]") (auto simp: min_def)

declare tl_char_iterator_loop.simps [simp del]

definition tl_char_iterator_next :: "char_iter \<Rightarrow> nat \<Rightarrow> char_iter \<times> bytes" where
  "tl_char_iterator_next it len =
     (case it of None \<Rightarrow> (None, []) | Some (cur, ls) \<Rightarrow> tl_char_iterator_loop cur ls len)"

definition iter_text :: "char_iter \<Rightarrow> bytes" where
  "iter_text it = (case it of None \<Rightarrow> [] | Some (cur, ls) \<Rightarrow> cur @ concat ls)"

lemma char_iterator_loop:
  "tl_char_iterator_loop cur ls len = (it, b) \<Longrightarrow>
     b = take len (cur @ concat ls) \<and> iter_text it = drop len (cur @ concat ls)"
proof (induction cur ls len arbitrary: it b rule: tl_char_iterator_loop.induct)
  case (1 cur ls len)
  show ?case
  proof (cases "len = 0")
    case True
    then show ?thesis using 1(3) by (auto simp: tl_char_iterator_loop.simps iter_text_def)
  next
    case len: False
    show ?thesis
    proof (cases "length cur \<le> len")
      case True
      then have m: "min (length cur) len = length cur" by simp
      show ?thesis
      proof (cases ls)
        case Nil
        then show ?thesis
          using 1(3) len True by (auto simp: tl_char_iterator_loop.simps [of cur "[]" len] m Let_def iter_text_def)
      next
        case (Cons l ls')
        obtain it' b' where r: "tl_char_iterator_loop l ls' (len - length cur) = (it', b')" by fastforce
        then have "it = it'" "b = cur @ b'"
          using 1(3) len Cons True
          by (auto simp: tl_char_iterator_loop.simps [of cur "l # ls'" len] m Let_def)
        then show ?thesis using 1(1) [OF len refl refl _ Cons] r m True Cons by auto
      qed
    next
      case False
      then have "tl_char_iterator_loop cur ls len = (Some (drop len cur, ls), take len cur)"
        using len tl_char_iterator_loop.simps [of cur ls len] tl_char_iterator_loop.simps [of "drop len cur" ls 0]
        by (simp add: Let_def min_def)
      then show ?thesis using 1(3) False by (auto simp: iter_text_def)
    qed
  qed
qed

lemma char_iterator_next:
  "snd (tl_char_iterator_next it len) = take len (iter_text it)"
  "iter_text (fst (tl_char_iterator_next it len)) = drop len (iter_text it)"
proof -
  have "snd (tl_char_iterator_next it len) = take len (iter_text it) \<and>
     iter_text (fst (tl_char_iterator_next it len)) = drop len (iter_text it)"
  proof (cases it)
    case (Some cl)
    obtain cur ls where cl: "cl = (cur, ls)" by (cases cl)
    obtain it' b where "tl_char_iterator_loop cur ls len = (it', b)" by fastforce
    then show ?thesis using char_iterator_loop Some cl
      by (fastforce simp: tl_char_iterator_next_def iter_text_def)
  qed (simp add: tl_char_iterator_next_def iter_text_def)
  then show "snd (tl_char_iterator_next it len) = take len (iter_text it)"
    "iter_text (fst (tl_char_iterator_next it len)) = drop len (iter_text it)" by auto
qed

lemma char_iterator_start: "iter_text (tl_char_iterator_start ls) = concat ls"
  by (cases ls) (simp_all add: tl_char_iterator_start_def iter_text_def)

text \<open>
  Reading through tl_char_iterator_next in chunks of any positive size delivers the
  concatenation of the lines.
\<close>

theorem tl_char_iterator_reads:
  "snd (tl_char_iterator_next it len) = take len (iter_text it) \<and>
   iter_text (fst (tl_char_iterator_next it len)) = drop len (iter_text it) \<and>
   iter_text (tl_char_iterator_start ls) = concat ls"
  by (simp add: char_iterator_next char_iterator_start)

end
