(* ===== verification/Mime.thy ===== *)
theory Mime
  imports Textlist
begin

text \<open>
  MIME transfer encodings: the base64 and quoted-printable parts of \<open>src/common/mime.c\<close>, for
  headers and for bodies.  Decoded buffers are byte lists; a caller that reads them as a string
  stops at the first NUL (\<open>cstr\<close>).
\<close>

unbundle bit_operations_syntax

subsection \<open>Single characters\<close>

definition MIME_STRING_LIMIT :: nat where "MIME_STRING_LIMIT = 76"
definition MIME_ENC_STRING_LIMIT :: nat where "MIME_ENC_STRING_LIMIT = 80"
definition MAX_LINE_LENGTH :: nat where "MAX_LINE_LENGTH = 32768"

definition x2toi :: "cstring \<Rightarrow> int" where
  "x2toi s =
     (let digit = (\<lambda>c. code (toupper c) - (if isupper c \<or> islower c then 65 - 10 else 48))
      in digit (peek s) * 16 + digit (at s 1))"

text \<open>The loop of \<open>mime_dequote\<close>; \<open>c\<close> keeps its value when an equals sign is followed by anything else.\<close>

fun dequote_loop :: "nat \<Rightarrow> int \<Rightarrow> cstring \<Rightarrow> bytes" where
  "dequote_loop 0 c s = []"
| "dequote_loop (Suc k) c [] = []"
| "dequote_loop (Suc k) c (x # s) =
     (if x = CHR ''='' then
        (if is_xdigit (peek s) \<and> is_xdigit (at s 1) then byte_of (x2toi s) # dequote_loop k (x2toi s) (drop 2 s)
         else if peek s = ch_lf \<or> (peek s = ch_cr \<and> at s 1 = ch_lf) then []
         else byte_of c # dequote_loop k c s)
      else if x = CHR ''_'' then ch_sp # dequote_loop k 32 s
      else x # dequote_loop k (code x) s)"

definition mime_dequote :: "nat \<Rightarrow> cstring \<Rightarrow> bytes" where
  "mime_dequote n s = dequote_loop (if n = 0 then 2 ^ 64 - 1 else n - 1) 0 s"

definition mime_b64toint :: "char \<Rightarrow> int" where
  "mime_b64toint c =
     (if 65 \<le> code c \<and> code c \<le> 90 then code c - 65
      else if 97 \<le> code c \<and> code c \<le> 122 then 0x1a + code c - 97
      else if 48 \<le> code c \<and> code c \<le> 57 then 0x34 + code c - 48
      else if c = CHR ''+'' then 0x3e
      else if c = CHR ''/'' then 0x3f
      else if c = CHR ''='' then 0x40
      else -1)"

definition mime_inttob64 :: "int \<Rightarrow> char" where
  "mime_inttob64 a =
     (let c = a AND 0x3f in
      if c \<le> 0x19 then byte_of (c + 65)
      else if c \<le> 0x33 then byte_of (c - 0x1a + 97)
      else if c \<le> 0x3d then byte_of (c - 0x34 + 48)
      else if c = 0x3e then CHR ''+'' else CHR ''/'')"

definition mime_qptoint :: "char \<Rightarrow> int" where
  "mime_qptoint c =
     (if 48 \<le> code c \<and> code c \<le> 57 then code c - 48
      else if 65 \<le> code c \<and> code c \<le> 70 then 0x0a + code c - 65
      else if 97 \<le> code c \<and> code c \<le> 102 then 0x0a + code c - 97
      else -1)"

definition mime_qp_is_plain :: "char \<Rightarrow> bool" where
  "mime_qp_is_plain c \<longleftrightarrow>
     (37 \<le> code c \<and> code c < 64 \<and> code c \<noteq> 61) \<or> (65 \<le> code c \<and> code c \<le> 90) \<or>
     (97 \<le> code c \<and> code c \<le> 122)"

subsection \<open>Base64\<close>

text \<open>
  \<open>mime_b64_encode_chunk\<close> on the bytes it may read (\<open>len\<close> of them): the four letters stored and
  the number of bytes consumed.
\<close>

definition mime_b64_encode_chunk :: "bytes \<Rightarrow> bytes \<times> nat" where
  "mime_b64_encode_chunk src =
     (let s = (\<lambda>k. code (src ! k));
          d0 = mime_inttob64 (drop_bit 2 (s 0));
          d1 = mime_inttob64 (push_bit 4 (s 0))
      in if src = [] then ([], 0)
         else if length src < 2 then ([d0, d1, CHR ''='', CHR ''=''], 1)
         else
           (let d1 = mime_inttob64 (push_bit 4 (s 0) OR drop_bit 4 (s 1));
                d2 = mime_inttob64 (push_bit 2 (s 1))
            in if length src < 3 then ([d0, d1, d2, CHR ''=''], 2)
               else ([d0, d1, mime_inttob64 (push_bit 2 (s 1) OR drop_bit 6 (s 2)), mime_inttob64 (s 2)], 3)))"

definition b64_calc_len :: "nat \<Rightarrow> nat" where
  "b64_calc_len len = len div 3 * 4 + (if len mod 3 \<noteq> 0 then 4 else 0)"

text \<open>\<open>mime_b64_encode_tl\<close>: \<open>ibuf\<close> the chunk just read, \<open>buf\<close> the line so far, \<open>out\<close> the lines done.\<close>

function b64_encode_loop :: "char_iter \<Rightarrow> bytes \<Rightarrow> cstring \<Rightarrow> cstring list \<Rightarrow> cstring list" where
  "b64_encode_loop it ibuf buf out =
     (if ibuf = [] then out @ [buf @ [ch_lf]]
      else
        (let (buf, out) = (if length buf + 4 > MIME_STRING_LIMIT then ([], out @ [buf @ [ch_lf]]) else (buf, out));
             buf = buf @ fst (mime_b64_encode_chunk ibuf)
         in b64_encode_loop (fst (tl_char_iterator_next it 3)) (snd (tl_char_iterator_next it 3)) buf out))"
  by pat_completeness auto
termination
  by (relation "measure (\<lambda>(it, ibuf, buf, out). length ibuf + length (iter_text it))")
     (auto simp: char_iterator_next min_def simp flip: length_greater_0_conv)

declare b64_encode_loop.simps [simp del]

definition mime_b64_encode_tl :: "cstring list \<Rightarrow> cstring list" where
  "mime_b64_encode_tl ls =
     (let (it, ibuf) = tl_char_iterator_next (tl_char_iterator_start ls) 3 in b64_encode_loop it ibuf [] [])"

fun b64_decode_loop :: "bytes \<Rightarrow> bytes option" where
  "b64_decode_loop (a # b # c # d # s) =
     (let v1 = mime_b64toint a; v2 = mime_b64toint b; v3 = mime_b64toint c; v4 = mime_b64toint d in
      if v1 = -1 \<or> v2 = -1 \<or> v3 = -1 \<or> v4 = -1 then None
      else
        (let d0 = byte_of (push_bit 2 v1 OR drop_bit 4 v2) in
         if v3 < 0x40 then
           (let d1 = byte_of ((push_bit 4 v2 AND 0xf0) OR drop_bit 2 v3);
                r = (if v4 < 0x40 then [d0, d1, byte_of ((push_bit 6 v3 AND 0xc0) OR v4)] else [d0, d1])
            in map_option (\<lambda>t. r @ t) (b64_decode_loop s))
         else if v4 < 0x40 then None
         else map_option (\<lambda>t. d0 # t) (b64_decode_loop s)))"
| "b64_decode_loop s = Some []"

declare b64_decode_loop.simps [simp del]

definition mime_b64_decode :: "bytes \<Rightarrow> bytes option" where
  "mime_b64_decode src = (if length src mod 4 \<noteq> 0 then None else b64_decode_loop src)"

lemma or_plus:
  fixes a b :: int
  assumes "0 \<le> b" "b < 2 ^ n"
  shows "push_bit n a OR b = a * 2 ^ n + b"
proof -
  have "\<not> bit b k" if "n \<le> k" for k
  proof -
    have "take_bit n b = b" using assms by (simp add: take_bit_int_eq_self)
    then show ?thesis using that by (metis bit_take_bit_iff not_less)
  qed
  then have "push_bit n a + b = push_bit n a OR b"
    by (intro disjunctive_add_eq_or bit_eqI) (auto simp: bit_simps)
  then show ?thesis by (simp add: push_bit_eq_mult)
qed

lemma and_low:
  fixes a :: int
  shows "a AND 0x3f = a mod 64" "push_bit 4 a AND 0xf0 = push_bit 4 (a mod 16)"
    "push_bit 6 a AND 0xc0 = push_bit 6 (a mod 4)"
proof -
  have m: "a AND mask k = a mod 2 ^ k" for k by (simp add: take_bit_eq_mask [symmetric] take_bit_eq_mod)
  show "a AND 0x3f = a mod 64" using m [of 6] by (simp add: mask_eq_exp_minus_1)
  have "push_bit 4 a AND push_bit 4 15 = push_bit 4 (a AND 15)" by (simp only: push_bit_and)
  then show "push_bit 4 a AND 0xf0 = push_bit 4 (a mod 16)"
    using m [of 4] by (simp add: mask_eq_exp_minus_1 push_bit_eq_mult)
  have "push_bit 6 a AND push_bit 6 3 = push_bit 6 (a AND 3)" by (simp only: push_bit_and)
  then show "push_bit 6 a AND 0xc0 = push_bit 6 (a mod 4)"
    using m [of 2] by (simp add: mask_eq_exp_minus_1 push_bit_eq_mult)
qed

lemma inttob64_mod: "mime_inttob64 a = mime_inttob64 (a mod 64)"
  by (simp add: mime_inttob64_def and_low)

lemma b64toint_inttob64: "mime_b64toint (mime_inttob64 a) = a mod 64"
proof -
  define c where "c = a mod 64"
  have "0 \<le> c" "c < 64" by (simp_all add: c_def)
  then consider "c \<le> 25" | "26 \<le> c" "c \<le> 51" | "52 \<le> c" "c \<le> 61" | "c = 62" | "c = 63" by linarith
  then have "mime_b64toint (mime_inttob64 c) = c"
    by cases (use \<open>0 \<le> c\<close> in \<open>auto simp: mime_inttob64_def mime_b64toint_def and_low code_def [of "CHR ''+''"] code_def [of "CHR ''/''"]\<close>)
  then show ?thesis by (simp add: c_def inttob64_mod [of a])
qed

lemma b64toint_pad [simp]: "mime_b64toint CHR ''='' = 0x40"
  by (simp add: mime_b64toint_def code_def)

lemma mod_split:
  fixes s q :: int
  assumes "0 \<le> q" "q < m" "0 < k"
  shows "(s * m + q) mod (k * m) = m * (s mod k) + q"
proof (rule int_mod_pos_eq)
  define d r where "d = s div k" and "r = s mod k"
  have "s = k * d + r" by (simp add: d_def r_def)
  then have "s * m + q = k * m * d + (m * r + q)" by (simp add: algebra_simps)
  then show "s * m + q = k * m * d + (m * (s mod k) + q)" by (simp add: r_def)
  show "0 \<le> m * (s mod k) + q" using assms by simp
  have "s mod k \<le> k - 1" using assms by (simp add: pos_mod_bound zle_diff1_eq)
  then have "m * (s mod k) \<le> m * (k - 1)" using assms by (intro mult_left_mono) auto
  then show "m * (s mod k) + q < k * m" using assms by (simp add: algebra_simps)
qed

text \<open>The groups of a byte triple, as arithmetic.\<close>

lemma b64_groups:
  fixes s0 s1 s2 :: int
  assumes "0 \<le> s0" "s0 < 256" "0 \<le> s1" "s1 < 256" "0 \<le> s2" "s2 < 256"
  shows "(drop_bit 2 s0) mod 64 = s0 div 4" "(push_bit 4 s0) mod 64 = 16 * (s0 mod 4)"
    "(push_bit 4 s0 OR drop_bit 4 s1) mod 64 = 16 * (s0 mod 4) + s1 div 16"
    "(push_bit 2 s1) mod 64 = 4 * (s1 mod 16)"
    "(push_bit 2 s1 OR drop_bit 6 s2) mod 64 = 4 * (s1 mod 16) + s2 div 64"
proof -
  have 1: "push_bit 4 s0 OR drop_bit 4 s1 = s0 * 16 + s1 div 16"
    using or_plus [of "s1 div 16" 4 s0] assms by (simp add: drop_bit_eq_div)
  have 2: "push_bit 2 s1 OR drop_bit 6 s2 = s1 * 4 + s2 div 64"
    using or_plus [of "s2 div 64" 2 s1] assms by (simp add: drop_bit_eq_div)
  show "(drop_bit 2 s0) mod 64 = s0 div 4" using assms by (simp add: drop_bit_eq_div)
  show "(push_bit 4 s0) mod 64 = 16 * (s0 mod 4)" using mod_split [of 0 16 4 s0] by (simp add: push_bit_eq_mult)
  show "(push_bit 4 s0 OR drop_bit 4 s1) mod 64 = 16 * (s0 mod 4) + s1 div 16"
    using mod_split [of "s1 div 16" 16 4 s0] assms by (simp add: 1)
  show "(push_bit 2 s1) mod 64 = 4 * (s1 mod 16)" using mod_split [of 0 4 16 s1] by (simp add: push_bit_eq_mult)
  show "(push_bit 2 s1 OR drop_bit 6 s2) mod 64 = 4 * (s1 mod 16) + s2 div 64"
    using mod_split [of "s2 div 64" 4 16 s1] assms by (simp add: 2)
qed

lemma b64_bytes:
  fixes s0 s1 s2 :: int
  assumes "0 \<le> s0" "s0 < 256" "0 \<le> s1" "s1 < 256" "0 \<le> s2" "s2 < 256" "0 \<le> q" "q < 16" "0 \<le> t" "t < 4"
  shows "push_bit 2 (s0 div 4) OR drop_bit 4 (16 * (s0 mod 4) + q) = s0"
    "(push_bit 4 (16 * (s0 mod 4) + s1 div 16) AND 0xf0) OR drop_bit 2 (4 * (s1 mod 16) + t) = s1"
    "(push_bit 6 (4 * (s1 mod 16) + s2 div 64) AND 0xc0) OR (s2 mod 64) = s2"
proof -
  have "drop_bit 4 (16 * (s0 mod 4) + q) = s0 mod 4" using assms by (simp add: drop_bit_eq_div)
  then show "push_bit 2 (s0 div 4) OR drop_bit 4 (16 * (s0 mod 4) + q) = s0"
    using or_plus [of "s0 mod 4" 2 "s0 div 4"] by simp
  have "drop_bit 2 (4 * (s1 mod 16) + t) = s1 mod 16" using assms by (simp add: drop_bit_eq_div)
  moreover have "(16 * (s0 mod 4) + s1 div 16) mod 16 = s1 div 16" using assms by simp
  ultimately show "(push_bit 4 (16 * (s0 mod 4) + s1 div 16) AND 0xf0) OR drop_bit 2 (4 * (s1 mod 16) + t) = s1"
    using or_plus [of "s1 mod 16" 4 "s1 div 16"] by (simp add: and_low)
  have "(4 * (s1 mod 16) + s2 div 64) mod 4 = s2 div 64" using assms by simp
  then show "(push_bit 6 (4 * (s1 mod 16) + s2 div 64) AND 0xc0) OR (s2 mod 64) = s2"
    using or_plus [of "s2 mod 64" 6 "s2 div 64"] by (simp add: and_low)
qed

lemma b64_chunk_length: "xs \<noteq> [] \<Longrightarrow> length (fst (mime_b64_encode_chunk xs)) = 4"
  by (auto simp: mime_b64_encode_chunk_def Let_def)

abbreviation six :: "int \<Rightarrow> bool" where
  "six v \<equiv> 0 \<le> v \<and> v < 64"

lemma letter_value: "six v \<Longrightarrow> mime_b64toint (mime_inttob64 v) = v"
  by (simp add: b64toint_inttob64)

lemma decode_letters:
  assumes "six a" "six b"
  shows "b64_decode_loop ([mime_inttob64 a, mime_inttob64 b, CHR ''='', CHR ''=''] @ r) =
      map_option ((@) [byte_of (push_bit 2 a OR drop_bit 4 b)]) (b64_decode_loop r)"
    and "six c \<Longrightarrow> b64_decode_loop ([mime_inttob64 a, mime_inttob64 b, mime_inttob64 c, CHR ''=''] @ r) =
      map_option ((@) [byte_of (push_bit 2 a OR drop_bit 4 b),
        byte_of ((push_bit 4 b AND 0xf0) OR drop_bit 2 c)]) (b64_decode_loop r)"
    and "six c \<Longrightarrow> six d \<Longrightarrow>
      b64_decode_loop ([mime_inttob64 a, mime_inttob64 b, mime_inttob64 c, mime_inttob64 d] @ r) =
      map_option ((@) [byte_of (push_bit 2 a OR drop_bit 4 b),
        byte_of ((push_bit 4 b AND 0xf0) OR drop_bit 2 c),
        byte_of ((push_bit 6 c AND 0xc0) OR d)]) (b64_decode_loop r)"
proof -
  have cons: "(#) x = (@) [x]" for x :: char by auto
  note simps = b64_decode_loop.simps(1) letter_value Let_def
  show "b64_decode_loop ([mime_inttob64 a, mime_inttob64 b, CHR ''='', CHR ''=''] @ r) =
      map_option ((@) [byte_of (push_bit 2 a OR drop_bit 4 b)]) (b64_decode_loop r)"
    using assms cons by (simp add: simps)
  show "b64_decode_loop ([mime_inttob64 a, mime_inttob64 b, mime_inttob64 c, CHR ''=''] @ r) =
      map_option ((@) [byte_of (push_bit 2 a OR drop_bit 4 b),
        byte_of ((push_bit 4 b AND 0xf0) OR drop_bit 2 c)]) (b64_decode_loop r)" if "six c"
    using assms that by (simp add: simps)
  show "b64_decode_loop ([mime_inttob64 a, mime_inttob64 b, mime_inttob64 c, mime_inttob64 d] @ r) =
      map_option ((@) [byte_of (push_bit 2 a OR drop_bit 4 b),
        byte_of ((push_bit 4 b AND 0xf0) OR drop_bit 2 c),
        byte_of ((push_bit 6 c AND 0xc0) OR d)]) (b64_decode_loop r)" if "six c" "six d"
    using assms that by (simp add: simps)
qed

lemma encode_letters:
  "fst (mime_b64_encode_chunk [x]) =
     [mime_inttob64 (code x div 4), mime_inttob64 (16 * (code x mod 4)), CHR ''='', CHR ''='']"
  "fst (mime_b64_encode_chunk [x, y]) =
     [mime_inttob64 (code x div 4), mime_inttob64 (16 * (code x mod 4) + code y div 16),
      mime_inttob64 (4 * (code y mod 16)), CHR ''='']"
  "fst (mime_b64_encode_chunk [x, y, z]) =
     [mime_inttob64 (code x div 4), mime_inttob64 (16 * (code x mod 4) + code y div 16),
      mime_inttob64 (4 * (code y mod 16) + code z div 64), mime_inttob64 (code z mod 64)]"
proof -
  note g = b64_groups [OF code_range [of x] code_range [of y] code_range [of z]]
  note m = inttob64_mod
  have e: "mime_inttob64 (drop_bit 2 (code x)) = mime_inttob64 (code x div 4)"
    "mime_inttob64 (push_bit 4 (code x)) = mime_inttob64 (16 * (code x mod 4))"
    "mime_inttob64 (push_bit 4 (code x) OR drop_bit 4 (code y)) = mime_inttob64 (16 * (code x mod 4) + code y div 16)"
    "mime_inttob64 (push_bit 2 (code y)) = mime_inttob64 (4 * (code y mod 16))"
    "mime_inttob64 (push_bit 2 (code y) OR drop_bit 6 (code z)) = mime_inttob64 (4 * (code y mod 16) + code z div 64)"
    by (rule trans [OF m], simp only: g)+
  show
    "fst (mime_b64_encode_chunk [x]) =
       [mime_inttob64 (code x div 4), mime_inttob64 (16 * (code x mod 4)), CHR ''='', CHR ''='']"
    "fst (mime_b64_encode_chunk [x, y]) =
       [mime_inttob64 (code x div 4), mime_inttob64 (16 * (code x mod 4) + code y div 16),
        mime_inttob64 (4 * (code y mod 16)), CHR ''='']"
    "fst (mime_b64_encode_chunk [x, y, z]) =
       [mime_inttob64 (code x div 4), mime_inttob64 (16 * (code x mod 4) + code y div 16),
        mime_inttob64 (4 * (code y mod 16) + code z div 64), mime_inttob64 (code z mod 64)]"
    using m [of "code z"] by (simp_all add: mime_b64_encode_chunk_def Let_def e)
qed

lemma six_parts:
  "six (code x div 4)" "six (16 * (code x mod 4) + code y div 16)" "six (16 * (code x mod 4))"
  "six (4 * (code x mod 16) + code y div 64)" "six (4 * (code x mod 16))" "six (code x mod 64)"
proof -
  note r = code_range [of x] code_range [of y]
  have "code x mod 4 \<le> 3" "0 \<le> code x mod 4" "code x mod 16 \<le> 15" "0 \<le> code x mod 16" "0 \<le> code x div 4"
    "code x div 4 \<le> 63" "0 \<le> code y div 16" "code y div 16 \<le> 15" "0 \<le> code y div 64" "code y div 64 \<le> 3"
    using r by auto
  then show "six (code x div 4)" "six (16 * (code x mod 4) + code y div 16)" "six (16 * (code x mod 4))"
    "six (4 * (code x mod 16) + code y div 64)" "six (4 * (code x mod 16))" "six (code x mod 64)"
    by (intro conjI; linarith | simp)+
qed

lemma decode_chunk:
  assumes "xs \<noteq> []" "length xs \<le> 3"
  shows "b64_decode_loop (fst (mime_b64_encode_chunk xs) @ r) = map_option (\<lambda>t. xs @ t) (b64_decode_loop r)"
proof -
  have q: "0 \<le> code y div 16" "code y div 16 < 16" "0 \<le> code y div 64" "code y div 64 < 4" for y
    using code_range [of y] by auto
  note rng = code_range q
  consider x where "xs = [x]" | x y where "xs = [x, y]" | x y z where "xs = [x, y, z]"
    using assms by (cases xs; cases "tl xs"; cases "tl (tl xs)") auto
  then show ?thesis
  proof cases
    case (1 x)
    have "byte_of (push_bit 2 (code x div 4) OR drop_bit 4 (16 * (code x mod 4))) = x"
      using b64_bytes(1) [of "code x" 0 0 0 0] rng by simp
    then show ?thesis
      by (simp only: 1 encode_letters decode_letters(1) [OF six_parts(1) six_parts(3)])
  next
    case (2 x y)
    have "byte_of (push_bit 2 (code x div 4) OR drop_bit 4 (16 * (code x mod 4) + code y div 16)) = x"
      "byte_of (push_bit 4 (16 * (code x mod 4) + code y div 16) AND 0xf0 OR drop_bit 2 (4 * (code y mod 16))) = y"
      using b64_bytes(1,2) [of "code x" "code y" 0 "code y div 16" 0] rng by simp_all
    then show ?thesis
      by (simp only: 2 encode_letters decode_letters(2) [OF six_parts(1) six_parts(2) six_parts(5)])
  next
    case (3 x y z)
    have "byte_of (push_bit 2 (code x div 4) OR drop_bit 4 (16 * (code x mod 4) + code y div 16)) = x"
      "byte_of (push_bit 4 (16 * (code x mod 4) + code y div 16) AND 0xf0 OR
         drop_bit 2 (4 * (code y mod 16) + code z div 64)) = y"
      "byte_of (push_bit 6 (4 * (code y mod 16) + code z div 64) AND 0xc0 OR code z mod 64) = z"
      using b64_bytes [of "code x" "code y" "code z" "code y div 16" "code z div 64"] rng by simp_all
    then show ?thesis
      by (simp only: 3 encode_letters decode_letters(3) [OF six_parts(1) six_parts(2) six_parts(4) six_parts(6)])
  qed
qed

text \<open>The letters of a whole text.\<close>

function enc_text :: "bytes \<Rightarrow> bytes" where
  "enc_text s = (if s = [] then [] else fst (mime_b64_encode_chunk (take 3 s)) @ enc_text (drop 3 s))"
  by auto
termination by (relation "measure length") auto

declare enc_text.simps [simp del]

lemma decode_enc_text: "b64_decode_loop (enc_text s @ r) = map_option (\<lambda>t. s @ t) (b64_decode_loop r)"
proof (induction s rule: enc_text.induct)
  case (1 s)
  show ?case
  proof (cases "s = []")
    case False
    then have "b64_decode_loop (enc_text s @ r)
        = map_option (\<lambda>t. take 3 s @ t) (b64_decode_loop (enc_text (drop 3 s) @ r))"
      using decode_chunk [of "take 3 s"] by (simp add: enc_text.simps [of s])
    also have "\<dots> = map_option (\<lambda>t. s @ t) (b64_decode_loop r)"
      using 1 [OF False] by (simp add: option.map_comp o_def flip: append_assoc)
    finally show ?thesis .
  qed (simp add: enc_text.simps option.map_ident)
qed

lemma enc_text_append:
  "length s mod 3 = 0 \<Longrightarrow> enc_text (s @ t) = enc_text s @ enc_text t"
proof (induction s rule: enc_text.induct)
  case (1 s)
  show ?case
  proof (cases "s = []")
    case False
    then have l: "3 \<le> length s" using 1(2) by (cases "length s < 3") auto
    moreover have "length (drop 3 s) mod 3 = 0" using le_mod_geq [OF l] 1(2) by simp
    ultimately show ?thesis using 1(1) [OF False] False
      by (simp add: enc_text.simps [of "s @ t"] enc_text.simps [of s])
  qed (simp add: enc_text.simps [of "[]"])
qed

lemma enc_text_length: "length (enc_text s) mod 4 = 0"
proof (induction s rule: enc_text.induct)
  case (1 s)
  then show ?case by (subst enc_text.simps) (simp add: b64_chunk_length)
qed

lemma enc_text_chunk: "xs \<noteq> [] \<Longrightarrow> length xs \<le> 3 \<Longrightarrow> enc_text xs = fst (mime_b64_encode_chunk xs)"
  by (simp add: enc_text.simps [of xs] enc_text.simps [of "[]"])

text \<open>The lines written are the encodings of pieces of the text.\<close>

definition b64_line :: "bytes \<Rightarrow> cstring" where
  "b64_line s = enc_text s @ [ch_lf]"

lemma b64_encode_loop_pieces:
  assumes "length s0 mod 3 = 0" "length (enc_text s0) \<le> MIME_STRING_LIMIT"
    and "length ibuf = 3 \<or> iter_text it = []" "length ibuf \<le> 3"
  shows "\<exists>ps. b64_encode_loop it ibuf (enc_text s0) out = out @ map b64_line ps \<and>
    concat ps = s0 @ ibuf @ iter_text it \<and> (\<forall>s \<in> set ps. length (enc_text s) \<le> MIME_STRING_LIMIT)"
  using assms
proof (induction "length ibuf + length (iter_text it)" arbitrary: it ibuf s0 out rule: less_induct)
  case less
  show ?case
  proof (cases "ibuf = []")
    case True
    then have "b64_encode_loop it ibuf (enc_text s0) out = out @ map b64_line [s0]" "iter_text it = []"
      using less.prems(3) by (auto simp: b64_encode_loop.simps b64_line_def)
    then show ?thesis using True less.prems(2) by (intro exI [of _ "[s0]"]) simp
  next
    case ib: False
    define it' where "it' = fst (tl_char_iterator_next it 3)"
    define ib' where "ib' = snd (tl_char_iterator_next it 3)"
    have nx: "ib' = take 3 (iter_text it)" "iter_text it' = drop 3 (iter_text it)"
      by (simp_all add: it'_def ib'_def char_iterator_next)
    have pr: "length ib' = 3 \<or> iter_text it' = []" "length ib' \<le> 3" by (auto simp: nx)
    have dec: "length ib' + length (iter_text it') < length ibuf + length (iter_text it)"
      using ib by (simp add: nx min_def flip: length_greater_0_conv)
    have enc: "fst (mime_b64_encode_chunk ibuf) = enc_text ibuf" using enc_text_chunk ib less.prems(4) by simp
    define full where "full = (length (enc_text s0) + 4 > MIME_STRING_LIMIT)"
    define s1 where "s1 = (if full then [] else s0) @ ibuf"
    define o1 where "o1 = (if full then out @ [b64_line s0] else out)"
    have step: "b64_encode_loop it ibuf (enc_text s0) out = b64_encode_loop it' ib' (enc_text s1) o1"
      using ib less.prems(1)
      by (subst b64_encode_loop.simps)
         (simp add: it'_def ib'_def s1_def o1_def full_def enc b64_line_def enc_text_append enc_text.simps [of "[]"])
    have l1: "length (enc_text s1) \<le> MIME_STRING_LIMIT"
      using less.prems b64_chunk_length [OF ib]
      by (auto simp: s1_def full_def enc_text_append enc MIME_STRING_LIMIT_def enc_text.simps [of "[]"])
    have "\<exists>ps. b64_encode_loop it' ib' (enc_text s1) o1 = o1 @ map b64_line ps \<and>
      concat ps = s1 @ ib' @ iter_text it' \<and> (\<forall>s \<in> set ps. length (enc_text s) \<le> MIME_STRING_LIMIT)"
    proof (cases "length ibuf = 3")
      case True
      then have m: "length s1 mod 3 = 0" using less.prems(1) by (auto simp: s1_def mod_add_eq [symmetric] simp del: mod_add_eq)
      show ?thesis by (rule less.hyps [OF dec m l1 pr])
    next
      case False
      then have "iter_text it = []" using less.prems(3) by simp
      then have "ib' = []" "iter_text it' = []" by (simp_all add: nx)
      then show ?thesis using l1 by (intro exI [of _ "[s1]"]) (simp add: b64_encode_loop.simps b64_line_def)
    qed
    then obtain ps where "b64_encode_loop it' ib' (enc_text s1) o1 = o1 @ map b64_line ps"
      "concat ps = s1 @ ib' @ iter_text it'" "\<forall>s \<in> set ps. length (enc_text s) \<le> MIME_STRING_LIMIT" by blast
    then show ?thesis
      using step less.prems(2) by (intro exI [of _ "(if full then [s0] else []) @ ps"]) (auto simp: s1_def o1_def nx)
  qed
qed

lemma b64_encode_pieces:
  "\<exists>ps. mime_b64_encode_tl ls = map b64_line ps \<and> concat ps = concat ls \<and>
    (\<forall>s \<in> set ps. length (enc_text s) \<le> MIME_STRING_LIMIT)"
proof -
  let ?n = "tl_char_iterator_next (tl_char_iterator_start ls) 3"
  have "snd ?n = take 3 (concat ls)" "iter_text (fst ?n) = drop 3 (concat ls)"
    by (simp_all add: char_iterator_next char_iterator_start)
  moreover from this have "length (snd ?n) = 3 \<or> iter_text (fst ?n) = []" "length (snd ?n) \<le> 3"
    by (auto simp: min_def)
  ultimately show ?thesis
    using b64_encode_loop_pieces [of "[]" "snd ?n" "fst ?n" "[]"]
    by (simp add: mime_b64_encode_tl_def enc_text.simps [of "[]"] split_beta)
qed

subsection \<open>Base64 bodies\<close>

text \<open>
  \<open>mime_debody_flush_str\<close>: the body and the line buffer afterwards.  A line of fewer than two
  characters is neither appended nor cleared.
\<close>

definition mime_debody_flush_str :: "cstring list \<Rightarrow> cstring \<Rightarrow> cstring list \<times> cstring" where
  "mime_debody_flush_str tbody str =
     (let len = length str in
      if len < 2 then (tbody, str)
      else
        (let str = (if str ! (len - 2) = ch_cr then take (len - 2) str @ [ch_lf]
                    else if last str \<noteq> ch_lf then str @ [ch_lf] else str)
         in (tbody @ [str], [])))"

lemma shorter_in: "x \<in> set d \<Longrightarrow> 0 < k \<Longrightarrow> length d - k < length d"
  by (cases d) simp_all

text \<open>The loop over the line feeds of a decoded string: \<open>left\<close>, \<open>out_str\<close>, the rest of the string, the body.\<close>

function newline_loop :: "nat \<Rightarrow> cstring \<Rightarrow> cstring \<Rightarrow> cstring list \<Rightarrow> nat \<times> cstring \<times> cstring \<times> cstring list" where
  "newline_loop left out dec tbody =
     (if ch_lf \<notin> set dec then (left, out, dec, tbody)
      else
        (let n = length (takeWhile (\<lambda>c. c \<noteq> ch_lf) dec) + 1;
             k = (if n \<le> left then n else left);
             (tbody, out) = mime_debody_flush_str tbody (out @ take k dec)
         in newline_loop MAX_LINE_LENGTH out (drop k dec) tbody))"
  by pat_completeness auto
termination
  by (relation "measures [\<lambda>(left, out, dec, tbody). length dec, \<lambda>(left, out, dec, tbody). if left = 0 then 1 else 0]")
     (auto simp: MAX_LINE_LENGTH_def shorter_in split: if_splits)

declare newline_loop.simps [simp del]

text \<open>The loop over what is left without a line feed.\<close>

function rest_loop :: "nat \<Rightarrow> cstring \<Rightarrow> cstring \<Rightarrow> cstring list \<Rightarrow> nat \<times> cstring \<times> cstring list" where
  "rest_loop left out dec tbody =
     (if length dec < left then (left - length dec, out @ dec, tbody)
      else
        (let (tbody, out) = mime_debody_flush_str tbody (out @ take left dec); dec = drop left dec
         in if dec = [] then (MAX_LINE_LENGTH, out, tbody)
            else rest_loop MAX_LINE_LENGTH out dec tbody))"
  by pat_completeness auto
termination
  by (relation "measures [\<lambda>(left, out, dec, tbody). length dec, \<lambda>(left, out, dec, tbody). if left = 0 then 1 else 0]")
     (auto simp: MAX_LINE_LENGTH_def split: if_splits)

declare rest_loop.simps [simp del]

fun debody_b64_loop :: "cstring list \<Rightarrow> nat \<times> cstring \<times> cstring list \<Rightarrow> cstring list" where
  "debody_b64_loop [] (left, out, tbody) =
     (if left \<noteq> MAX_LINE_LENGTH then fst (mime_debody_flush_str tbody out) else tbody)"
| "debody_b64_loop (l # ls) (left, out, tbody) =
     (let enc_len = min (length l) MIME_ENC_STRING_LIMIT div 4 * 4 in
      case mime_b64_decode (take enc_len l) of
        None \<Rightarrow> tbody
      | Some dec \<Rightarrow>
          (let (left, out, rest, tbody) = newline_loop left out (cstr dec) tbody
           in debody_b64_loop ls (rest_loop left out rest tbody)))"

definition mime_debody_base64 :: "cstring list \<Rightarrow> cstring list" where
  "mime_debody_base64 ls = debody_b64_loop ls (MAX_LINE_LENGTH, [], [])"

text \<open>A line the decoder hands on as it is.\<close>

definition mail_line :: "cstring \<Rightarrow> bool" where
  "mail_line l \<longleftrightarrow> (\<exists>x. l = x @ [ch_lf] \<and> x \<noteq> [] \<and> no_nul x \<and> ch_lf \<notin> set x \<and> last x \<noteq> ch_cr \<and>
     length l \<le> MAX_LINE_LENGTH)"

lemma flush_mail_line: "mail_line l \<Longrightarrow> mime_debody_flush_str tbody l = (tbody @ [l], [])"
  by (auto simp: mail_line_def mime_debody_flush_str_def Let_def nth_append last_conv_nth)

lemma newline_loop_none: "ch_lf \<notin> set dec \<Longrightarrow> newline_loop left out dec tbody = (left, out, dec, tbody)"
  by (simp add: newline_loop.simps)

lemma newline_loop_line:
  assumes "mail_line d" "out @ s = d @ t" "ch_lf \<notin> set out" "left = MAX_LINE_LENGTH - length out"
  shows "newline_loop left out s tbody = newline_loop MAX_LINE_LENGTH [] t (tbody @ [d])"
proof -
  obtain x where d: "d = x @ [ch_lf]" "ch_lf \<notin> set x" "length d \<le> MAX_LINE_LENGTH"
    using assms(1) by (auto simp: mail_line_def)
  have le: "length out \<le> length x"
  proof (rule ccontr)
    assume "\<not> length out \<le> length x"
    then have "take (length d) out = d" using arg_cong [OF assms(2), of "take (length d)"] d(1) by simp
    then have "ch_lf \<in> set out" using d(1) by (metis in_set_conv_decomp in_set_takeD)
    then show False using assms(3) by simp
  qed
  define y where "y = drop (length out) x"
  have "take (length out) (out @ s) = take (length out) (d @ t)" using assms(2) by simp
  then have x: "x = out @ y" using le d(1) by (simp add: y_def) (metis append_take_drop_id)
  then have s: "s = y @ ch_lf # t" using assms(2) d(1) by simp
  have "takeWhile (\<lambda>c. c \<noteq> ch_lf) s = y"
    unfolding s by (rule takeWhile_append_stop) (use d(2) x in auto)
  moreover have "length y + 1 \<le> left" using assms(4) d x by simp
  moreover have "out @ y @ [ch_lf] = d" using d x by simp
  ultimately show ?thesis
    using flush_mail_line [OF assms(1)] by (subst newline_loop.simps) (simp add: s)
qed

lemma newline_loop_lines:
  assumes "\<forall>d \<in> set ds. mail_line d" "out @ s = concat ds @ p" "ch_lf \<notin> set out" "ch_lf \<notin> set p"
    and "left = MAX_LINE_LENGTH - length out" "length p < MAX_LINE_LENGTH"
  shows "(let (left, out, r, b) = newline_loop left out s tbody in rest_loop left out r b)
    = (MAX_LINE_LENGTH - length p, p, tbody @ ds)"
  using assms
proof (induction ds arbitrary: out s left tbody)
  case Nil
  then have p: "p = out @ s" by simp
  then have "ch_lf \<notin> set s" "length s < left" using Nil.prems by auto
  then show ?case using Nil.prems(5) by (simp add: newline_loop_none rest_loop.simps p)
next
  case (Cons d ds)
  have "newline_loop left out s tbody = newline_loop MAX_LINE_LENGTH [] (concat ds @ p) (tbody @ [d])"
    by (rule newline_loop_line) (use Cons.prems in auto)
  then show ?case using Cons.IH [of "[]" "concat ds @ p" MAX_LINE_LENGTH "tbody @ [d]"] Cons.prems by simp
qed

lemma prefix_of_lines:
  assumes "\<forall>l \<in> set rs. mail_line l" "s @ rest = concat rs"
  shows "\<exists>ds p rs'. s = concat ds @ p \<and> rs = ds @ rs' \<and> p @ rest = concat rs' \<and> ch_lf \<notin> set p \<and>
    length p < MAX_LINE_LENGTH"
  using assms
proof (induction rs arbitrary: s)
  case Nil
  then show ?case by (intro exI [of _ "[]"]) (simp add: MAX_LINE_LENGTH_def)
next
  case (Cons d rs)
  obtain x where d: "d = x @ [ch_lf]" "ch_lf \<notin> set x" "length d \<le> MAX_LINE_LENGTH"
    using Cons.prems(1) by (auto simp: mail_line_def)
  show ?case
  proof (cases "length s < length d")
    case True
    have "take (length s) (s @ rest) = take (length s) (d @ concat rs)" using Cons.prems(2) by simp
    then have "s = take (length s) x" using True d(1) by simp
    then have "ch_lf \<notin> set s" using d(2) by (metis in_set_takeD)
    then show ?thesis using True d Cons.prems
      by (intro exI [of _ "[]"] exI [of _ s] exI [of _ "d # rs"]) auto
  next
    case False
    define u where "u = drop (length d) s"
    have "take (length d) (s @ rest) = d" using Cons.prems(2) by simp
    then have s: "s = d @ u" using False by (simp add: u_def) (metis append_take_drop_id)
    then have "u @ rest = concat rs" using Cons.prems(2) by simp
    then obtain ds p rs' where "u = concat ds @ p" "rs = ds @ rs'" "p @ rest = concat rs'" "ch_lf \<notin> set p"
      "length p < MAX_LINE_LENGTH" using Cons.IH [of u] Cons.prems(1) by auto
    then show ?thesis using s by (intro exI [of _ "d # ds"] exI [of _ p] exI [of _ rs']) simp
  qed
qed

lemma decode_b64_line:
  assumes "length (enc_text s) \<le> MIME_STRING_LIMIT"
  shows "mime_b64_decode (take (min (length (b64_line s)) MIME_ENC_STRING_LIMIT div 4 * 4) (b64_line s)) = Some s"
proof -
  obtain k where k: "length (enc_text s) = 4 * k" using enc_text_length [of s] by (auto elim: dvdE simp: mod_eq_0_iff_dvd)
  then have "min (length (b64_line s)) MIME_ENC_STRING_LIMIT div 4 * 4 = length (enc_text s)"
    using assms by (simp add: b64_line_def MIME_ENC_STRING_LIMIT_def MIME_STRING_LIMIT_def)
  then show ?thesis
    using decode_enc_text [of s "[]"] k by (simp add: b64_line_def mime_b64_decode_def b64_decode_loop.simps)
qed

lemma debody_pieces:
  assumes "\<forall>s \<in> set ps. length (enc_text s) \<le> MIME_STRING_LIMIT \<and> no_nul s" "\<forall>l \<in> set rs. mail_line l"
    and "out @ concat ps = concat rs" "ch_lf \<notin> set out" "left = MAX_LINE_LENGTH - length out"
  shows "debody_b64_loop (map b64_line ps) (left, out, tbody) = tbody @ rs"
  using assms
proof (induction ps arbitrary: out left tbody rs)
  case Nil
  have "rs = []"
  proof (cases rs)
    case (Cons d rs')
    then have "ch_lf \<in> set (concat rs)" using Nil.prems(2) by (auto simp: mail_line_def)
    then show ?thesis using Nil.prems(3,4) by simp
  qed
  then show ?case using Nil.prems by simp
next
  case (Cons s ps)
  obtain ds p rs' where split: "out @ s = concat ds @ p" "rs = ds @ rs'" "p @ concat ps = concat rs'"
    "ch_lf \<notin> set p" "length p < MAX_LINE_LENGTH"
    using prefix_of_lines [of rs "out @ s" "concat ps"] Cons.prems by auto
  have "no_nul s" using Cons.prems(1) by simp
  then have "cstr s = s" by (rule cstr_whole)
  moreover have "(let (left, out, r, b) = newline_loop left out s tbody in rest_loop left out r b)
      = (MAX_LINE_LENGTH - length p, p, tbody @ ds)"
    by (rule newline_loop_lines) (use split Cons.prems in auto)
  ultimately have "debody_b64_loop (map b64_line (s # ps)) (left, out, tbody)
      = debody_b64_loop (map b64_line ps) (MAX_LINE_LENGTH - length p, p, tbody @ ds)"
    using Cons.prems(1) by (simp add: decode_b64_line split_beta Let_def)
  also have "\<dots> = (tbody @ ds) @ rs'"
    by (rule Cons.IH) (use split Cons.prems in auto)
  finally show ?case using split(2) by simp
qed

text \<open>
  C21. A mail body of lines that end in LF, have another character, no NUL, no CR before the LF
  and fit the line buffer is encoded by mime_b64_encode_tl into lines of at most 76 characters
  and decoded by mime_debody_base64 to the same lines.
\<close>

theorem mime_b64_body_roundtrip:
  assumes "\<forall>l \<in> set ls. mail_line l"
  shows "mime_debody_base64 (mime_b64_encode_tl ls) = ls \<and>
    (\<forall>l \<in> set (mime_b64_encode_tl ls). length l \<le> MIME_STRING_LIMIT + 1)"
proof -
  obtain ps where ps: "mime_b64_encode_tl ls = map b64_line ps" "concat ps = concat ls"
    "\<forall>s \<in> set ps. length (enc_text s) \<le> MIME_STRING_LIMIT"
    using b64_encode_pieces [of ls] by blast
  have "no_nul (concat ls)" using assms by (auto simp: no_nul_def mail_line_def)
  then have "\<forall>s \<in> set ps. no_nul s" unfolding ps(2) [symmetric] by (auto simp: no_nul_def)
  then have "debody_b64_loop (map b64_line ps) (MAX_LINE_LENGTH, [], []) = [] @ ls"
    by (intro debody_pieces) (use ps assms in auto)
  then show ?thesis using ps by (auto simp: mime_debody_base64_def b64_line_def)
qed

theorem mime_b64_body_roundtrip_witness:
  "mime_debody_base64 (mime_b64_encode_tl [''Hi'' @ [ch_lf], ''you'' @ [ch_lf]]) = [''Hi'' @ [ch_lf], ''you'' @ [ch_lf]] \<and>
    list_all (\<lambda>l. length l \<le> MIME_STRING_LIMIT + 1) (mime_b64_encode_tl [''Hi'' @ [ch_lf], ''you'' @ [ch_lf]])"
  unfolding list_all_iff by (rule mime_b64_body_roundtrip) (auto simp: mail_line_def MAX_LINE_LENGTH_def)

subsection \<open>Quoted-printable\<close>

definition hex_digit :: "int \<Rightarrow> char" where
  "hex_digit d = byte_of (if d < 10 then 48 + d else 55 + d)"

text \<open>\<open>_mime_qp_encode_octet\<close>, with \<open>=%02X\<close> written out.\<close>

definition mime_qp_encode_octet :: "char \<Rightarrow> bytes" where
  "mime_qp_encode_octet c =
     (if mime_qp_is_plain c then [c] else [CHR ''='', hex_digit (code c div 16), hex_digit (code c mod 16)])"

function qp_encode_loop :: "char_iter \<Rightarrow> bytes \<Rightarrow> cstring \<Rightarrow> cstring list \<Rightarrow> cstring list" where
  "qp_encode_loop it ibuf buf out =
     (if ibuf = [] then out @ [buf @ [ch_lf]]
      else
        (let (buf, out) = (if length buf + 3 > MIME_STRING_LIMIT
                           then ([], out @ [buf @ [CHR ''='', ch_lf]]) else (buf, out));
             buf = buf @ mime_qp_encode_octet (hd ibuf)
         in qp_encode_loop (fst (tl_char_iterator_next it 1)) (snd (tl_char_iterator_next it 1)) buf out))"
  by pat_completeness auto
termination
  by (relation "measure (\<lambda>(it, ibuf, buf, out). length ibuf + length (iter_text it))")
     (auto simp: char_iterator_next min_def simp flip: length_greater_0_conv)

declare qp_encode_loop.simps [simp del]

definition mime_qp_encode_tl :: "cstring list \<Rightarrow> cstring list" where
  "mime_qp_encode_tl ls =
     (let (it, ibuf) = tl_char_iterator_next (tl_char_iterator_start ls) 1 in qp_encode_loop it ibuf [] [])"

text \<open>
  The loop of \<open>mime_qp_decode\<close>: \<open>left\<close> is \<open>len - i\<close>; the hexadecimal digits are read without
  looking at it.
\<close>

function qp_decode_loop :: "nat \<Rightarrow> cstring \<Rightarrow> bytes option" where
  "qp_decode_loop left s =
     (if left = 0 then Some []
      else if peek s = ch_lf \<or> peek s = ch_cr then Some [ch_lf]
      else if peek s = CHR ''_'' then map_option (\<lambda>t. ch_sp # t) (qp_decode_loop (left - 1) (tl s))
      else if peek s \<noteq> CHR ''='' then
        map_option (\<lambda>t. byte_of (code (peek s) AND 0x7F) # t) (qp_decode_loop (left - 1) (tl s))
      else
        (let s = tl s in
         if peek s = ch_lf \<or> peek s = ch_cr then Some [ch_lf]
         else
           (let vh = mime_qptoint (peek s); vl = mime_qptoint (at s 1) in
            if vh = -1 \<or> vl = -1 then None
            else map_option (\<lambda>t. byte_of ((push_bit 4 vh AND 0xf0) OR (vl AND 0x0f)) # t)
                   (qp_decode_loop (left - 3) (drop 2 s)))))"
  by pat_completeness auto
termination by (relation "measure fst") auto

declare qp_decode_loop.simps [simp del]

definition mime_qp_decode :: "cstring \<Rightarrow> nat \<Rightarrow> bytes option" where
  "mime_qp_decode src len = qp_decode_loop len src"

text \<open>
  The comparison of the end of a line with a soft line break.  For a line shorter than the break the
  code looks at bytes in front of the line; they are taken not to be an equals sign.
\<close>

definition soft_break :: "cstring \<Rightarrow> bool" where
  "soft_break ln \<longleftrightarrow>
     (2 \<le> length ln \<and> drop (length ln - 2) ln = [CHR ''='', ch_lf]) \<or>
     (3 \<le> length ln \<and> drop (length ln - 3) ln = [CHR ''='', ch_cr, ch_lf])"

text \<open>
  \<open>mime_debody_qp\<close>: \<open>None\<close> where \<open>strip_crlf\<close> reads in front of the string, \<open>Some None\<close> for NULL.
\<close>

fun debody_qp_loop :: "cstring list \<Rightarrow> cstring list \<Rightarrow> cstring list \<Rightarrow> cstring list option option" where
  "debody_qp_loop [] full_line dec_body = Some (Some dec_body)"
| "debody_qp_loop (ln # ls) full_line dec_body =
     (case mime_qp_decode ln (length ln) of
        None \<Rightarrow> Some None
      | Some dec \<Rightarrow>
          (case strip_crlf (cstr dec) of
             None \<Rightarrow> None
           | Some dec_str \<Rightarrow>
               (let full_line = full_line @ [dec_str] in
                if soft_break ln then debody_qp_loop ls full_line dec_body
                else debody_qp_loop ls [] (dec_body @ [concat full_line @ [ch_lf]]))))"

definition mime_debody_qp :: "cstring list \<Rightarrow> cstring list option option" where
  "mime_debody_qp ls = debody_qp_loop ls [] []"

definition qp_text :: "bytes \<Rightarrow> cstring" where
  "qp_text s = concat (map mime_qp_encode_octet s)"

lemma qptoint_hex: "0 \<le> d \<Longrightarrow> d < 16 \<Longrightarrow> mime_qptoint (hex_digit d) = d"
  by (auto simp: mime_qptoint_def hex_digit_def)

lemma hex_not_eol: "0 \<le> d \<Longrightarrow> d < 16 \<Longrightarrow> hex_digit d \<noteq> ch_lf \<and> hex_digit d \<noteq> ch_cr"
proof -
  assume d: "0 \<le> d" "d < 16"
  then have "code (hex_digit d) \<ge> 48" by (auto simp: hex_digit_def)
  then show ?thesis by (auto simp: code_def)
qed

lemma plain_not_special:
  assumes "mime_qp_is_plain c"
  shows "c \<noteq> ch_lf" "c \<noteq> ch_cr" "c \<noteq> CHR ''_''" "c \<noteq> CHR ''=''" "byte_of (code c AND 0x7F) = c"
proof -
  have r: "37 \<le> code c" "code c < 128" "code c \<noteq> 61" "code c \<noteq> 95"
    using assms by (auto simp: mime_qp_is_plain_def)
  then show "c \<noteq> ch_lf" "c \<noteq> ch_cr" "c \<noteq> CHR ''_''" "c \<noteq> CHR ''=''" by (auto simp: code_def)
  have "code c AND mask 7 = code c mod 2 ^ 7" by (simp add: take_bit_eq_mask [symmetric] take_bit_eq_mod)
  then have "code c AND 0x7F = code c" using r by (simp add: mask_eq_exp_minus_1)
  then show "byte_of (code c AND 0x7F) = c" by simp
qed

lemma nibbles: "(push_bit 4 (code c div 16) AND 0xf0) OR ((code c mod 16) AND 0x0f) = code c"
proof -
  have "code c mod 16 AND mask 4 = (code c mod 16) mod 2 ^ 4"
    by (simp add: take_bit_eq_mask [symmetric] take_bit_eq_mod)
  then have "code c mod 16 AND 0x0f = code c mod 16" by (simp add: mask_eq_exp_minus_1)
  moreover have "(code c div 16) mod 16 = code c div 16" using code_range [of c] by simp
  ultimately show ?thesis using or_plus [of "code c mod 16" 4 "code c div 16"] by (simp add: and_low)
qed

lemma qp_decode_octet:
  assumes "length (mime_qp_encode_octet c) \<le> left"
  shows "qp_decode_loop left (mime_qp_encode_octet c @ r) =
    map_option ((#) c) (qp_decode_loop (left - length (mime_qp_encode_octet c)) r)"
proof (cases "mime_qp_is_plain c")
  case True
  then show ?thesis using assms plain_not_special [OF True]
    by (subst qp_decode_loop.simps) (simp add: mime_qp_encode_octet_def)
next
  case False
  define h l where "h = code c div 16" and "l = code c mod 16"
  have r: "0 \<le> h" "h < 16" "0 \<le> l" "l < 16" using code_range [of c] by (auto simp: h_def l_def)
  have "byte_of ((push_bit 4 h AND 0xf0) OR (l AND 0x0f)) = c" using nibbles [of c] by (simp add: h_def l_def)
  then show ?thesis using r assms False qptoint_hex hex_not_eol
    by (subst qp_decode_loop.simps)
       (simp add: mime_qp_encode_octet_def Let_def numeral_2_eq_2 numeral_3_eq_3 h_def [symmetric] l_def [symmetric])
qed

lemma map_option_append_Nil: "map_option ((@) []) x = x"
  by (cases x) auto

lemma qp_decode_text:
  "length (qp_text s) \<le> left \<Longrightarrow>
     qp_decode_loop left (qp_text s @ r) = map_option ((@) s) (qp_decode_loop (left - length (qp_text s)) r)"
proof (induction s arbitrary: left)
  case (Cons c s)
  then show ?case
    using qp_decode_octet [of c left "qp_text s @ r"]
    by (simp add: qp_text_def option.map_comp o_def)
qed (simp add: qp_text_def map_option_append_Nil)

lemma qp_decode_eol: "0 < left \<Longrightarrow> qp_decode_loop left [ch_lf] = Some [ch_lf]"
  "0 < left \<Longrightarrow> qp_decode_loop left [CHR ''='', ch_lf] = Some [ch_lf]"
  by (simp_all add: qp_decode_loop.simps)

definition soft_line :: "bytes \<Rightarrow> cstring" where
  "soft_line s = qp_text s @ [CHR ''='', ch_lf]"

lemma qp_octet_length: "length (mime_qp_encode_octet c) \<le> 3" "mime_qp_encode_octet c \<noteq> []"
  by (simp_all add: mime_qp_encode_octet_def)

lemma qp_text_simps: "qp_text [] = []" "qp_text (s @ t) = qp_text s @ qp_text t" "qp_text [c] = mime_qp_encode_octet c"
  by (simp_all add: qp_text_def)

lemma qp_encode_loop_pieces:
  assumes "length ibuf \<le> 1" "ibuf \<noteq> [] \<or> iter_text it = []" "length (qp_text s0) \<le> MIME_STRING_LIMIT"
  shows "\<exists>ps p. qp_encode_loop it ibuf (qp_text s0) out = out @ map soft_line ps @ [qp_text p @ [ch_lf]] \<and>
    concat ps @ p = s0 @ ibuf @ iter_text it \<and> (\<forall>s \<in> set ps. s \<noteq> []) \<and> (p = [] \<longrightarrow> s0 @ ibuf = []) \<and>
    (\<forall>s \<in> set (p # ps). length (qp_text s) \<le> MIME_STRING_LIMIT)"
  using assms
proof (induction "length ibuf + length (iter_text it)" arbitrary: it ibuf s0 out rule: less_induct)
  case less
  show ?case
  proof (cases ibuf)
    case Nil
    then show ?thesis using less.prems
      by (intro exI [of _ "[]"] exI [of _ s0]) (auto simp: qp_encode_loop.simps)
  next
    case (Cons c cs)
    then have ib: "ibuf = [c]" using less.prems(1) by simp
    define it' where "it' = fst (tl_char_iterator_next it 1)"
    define ib' where "ib' = snd (tl_char_iterator_next it 1)"
    have nx: "ib' = take 1 (iter_text it)" "iter_text it' = drop 1 (iter_text it)"
      by (simp_all add: it'_def ib'_def char_iterator_next)
    have pr: "length ib' \<le> 1" "ib' \<noteq> [] \<or> iter_text it' = []" by (auto simp: nx)
    have dec: "length ib' + length (iter_text it') < length ibuf + length (iter_text it)"
      by (cases "iter_text it") (simp_all add: nx ib)
    define full where "full = (length (qp_text s0) + 3 > MIME_STRING_LIMIT)"
    define s1 where "s1 = (if full then [] else s0) @ [c]"
    define o1 where "o1 = (if full then out @ [soft_line s0] else out)"
    have step: "qp_encode_loop it ibuf (qp_text s0) out = qp_encode_loop it' ib' (qp_text s1) o1"
      by (subst qp_encode_loop.simps)
         (simp add: ib it'_def ib'_def s1_def o1_def full_def soft_line_def qp_text_simps)
    have l1: "length (qp_text s1) \<le> MIME_STRING_LIMIT"
      using qp_octet_length [of c] by (auto simp: s1_def full_def qp_text_simps MIME_STRING_LIMIT_def)
    have s0: "full \<Longrightarrow> s0 \<noteq> []" by (auto simp: full_def qp_text_simps MIME_STRING_LIMIT_def)
    obtain ps p where ps: "qp_encode_loop it' ib' (qp_text s1) o1 = o1 @ map soft_line ps @ [qp_text p @ [ch_lf]]"
      "concat ps @ p = s1 @ ib' @ iter_text it'" "\<forall>s \<in> set ps. s \<noteq> []" "p = [] \<longrightarrow> s1 @ ib' = []"
      "\<forall>s \<in> set (p # ps). length (qp_text s) \<le> MIME_STRING_LIMIT"
      using less.hyps [OF dec pr l1, of o1] by blast
    have "p \<noteq> []" using ps(4) by (auto simp: s1_def)
    then show ?thesis using step ps s0 less.prems(3)
      by (intro exI [of _ "(if full then [s0] else []) @ ps"] exI [of _ p]) (auto simp: s1_def o1_def nx ib)
  qed
qed

lemma qp_text_last:
  assumes "p \<noteq> []"
  shows "\<exists>x a. qp_text p = x @ [a] \<and> a \<noteq> CHR ''='' \<and> a \<noteq> ch_cr"
proof -
  obtain q c where p: "p = q @ [c]" using assms by (cases p rule: rev_cases) auto
  show ?thesis
  proof (cases "mime_qp_is_plain c")
    case True
    then show ?thesis using plain_not_special [OF True]
      by (auto simp: p qp_text_simps mime_qp_encode_octet_def)
  next
    case False
    have "0 \<le> code c mod 16" "code c mod 16 < 16" by auto
    then have "hex_digit (code c mod 16) \<noteq> CHR ''=''" "hex_digit (code c mod 16) \<noteq> ch_cr"
      using qptoint_hex [of "code c mod 16"] hex_not_eol [of "code c mod 16"]
      by (auto simp: mime_qptoint_def code_def)
    then show ?thesis using False by (auto simp: p qp_text_simps mime_qp_encode_octet_def)
  qed
qed

lemma strip_decoded:
  assumes "p \<noteq> []" "no_nul p" "ch_cr \<notin> set p"
  shows "strip_crlf (cstr (p @ [ch_lf])) = Some p"
proof -
  have "last p \<noteq> ch_cr" using assms by (metis last_in_set)
  then show ?thesis using assms by (simp add: cstr_whole strip_crlf_eq chomp_def)
qed

lemma debody_qp_pieces:
  assumes "\<forall>s \<in> set ps. s \<noteq> []" "p \<noteq> []" "no_nul (concat ps @ p)" "ch_cr \<notin> set (concat ps @ p)"
  shows "debody_qp_loop (map soft_line ps @ [qp_text p @ [ch_lf]]) fl db
    = Some (Some (db @ [concat fl @ concat ps @ p @ [ch_lf]]))"
  using assms
proof (induction ps arbitrary: fl)
  case Nil
  obtain x a where "qp_text p = x @ [a]" "a \<noteq> CHR ''=''" "a \<noteq> ch_cr" using qp_text_last [OF Nil(2)] by blast
  then have "\<not> soft_break (qp_text p @ [ch_lf])" by (auto simp: soft_break_def numeral_2_eq_2 numeral_3_eq_3 Suc_diff_le)
  then show ?case
    using qp_decode_text [of p "length (qp_text p @ [ch_lf])" "[ch_lf]"] strip_decoded [of p] Nil
    by (simp add: mime_qp_decode_def qp_decode_eol)
next
  case (Cons s ps)
  have "soft_break (soft_line s)" by (simp add: soft_break_def soft_line_def)
  then show ?case
    using qp_decode_text [of s "length (soft_line s)" "[CHR ''='', ch_lf]"] strip_decoded [of s] Cons
    by (simp add: mime_qp_decode_def qp_decode_eol soft_line_def)
qed

text \<open>
  C22. A non-empty text without NUL and CR that mime_qp_encode_tl encodes is decoded by
  mime_debody_qp to one line with the whole text and a closing LF; the encoded lines have at
  most 77 characters before the LF.
\<close>

theorem mime_qp_body_roundtrip:
  assumes "concat ls \<noteq> []" "no_nul (concat ls)" "ch_cr \<notin> set (concat ls)"
  shows "mime_debody_qp (mime_qp_encode_tl ls) = Some (Some [concat ls @ [ch_lf]]) \<and>
    (\<forall>l \<in> set (mime_qp_encode_tl ls). length l \<le> MIME_STRING_LIMIT + 2)"
proof -
  let ?n = "tl_char_iterator_next (tl_char_iterator_start ls) 1"
  have n: "snd ?n = take 1 (concat ls)" "iter_text (fst ?n) = drop 1 (concat ls)"
    by (simp_all add: char_iterator_next char_iterator_start)
  obtain c t where "concat ls = c # t" using assms(1) by (cases "concat ls") blast+
  then have "length (snd ?n) \<le> 1" "snd ?n \<noteq> [] \<or> iter_text (fst ?n) = []" unfolding n by simp_all
  then obtain ps p where ps: "mime_qp_encode_tl ls = map soft_line ps @ [qp_text p @ [ch_lf]]"
      "concat ps @ p = concat ls" "\<forall>s \<in> set ps. s \<noteq> []" "p = [] \<longrightarrow> take 1 (concat ls) = []"
      "\<forall>s \<in> set (p # ps). length (qp_text s) \<le> MIME_STRING_LIMIT"
    using qp_encode_loop_pieces [of "snd ?n" "fst ?n" "[]" "[]"] n
    by (auto simp: mime_qp_encode_tl_def qp_text_simps split_beta)
  have "p \<noteq> []" using ps(4) assms(1) by auto
  then have "mime_debody_qp (mime_qp_encode_tl ls) = Some (Some [concat ls @ [ch_lf]])"
    using debody_qp_pieces [of ps p "[]" "[]"] ps assms by (simp add: mime_debody_qp_def)
  then show ?thesis using ps by (auto simp: soft_line_def)
qed

theorem mime_qp_body_roundtrip_witness:
  "mime_debody_qp (mime_qp_encode_tl [''Hi'' @ [ch_lf], ''1=1'']) = Some (Some [concat [''Hi'' @ [ch_lf], ''1=1''] @ [ch_lf]]) \<and>
    list_all (\<lambda>l. length l \<le> MIME_STRING_LIMIT + 2) (mime_qp_encode_tl [''Hi'' @ [ch_lf], ''1=1''])"
  unfolding list_all_iff by (rule mime_qp_body_roundtrip) simp_all

end
