(* ===== verification/Tables.thy ===== *)
theory Tables
  imports Config Wildmat
begin

text \<open>
  The tables of the systems and users around a node: PASSWD (\<open>passwd.c\<close>), HOSTS (\<open>hosts.c\<close>), ALIASES
  (\<open>aliases.c\<close>), SPYES (\<open>spyes.c\<close>) and UPLINKS (\<open>uplinks.c\<close>) of \<open>src/common\<close>.  Each is a file of one
  line per entry that may include other files; the entries are looked up in their order.  A file is given by its
  name as the configuration has it; \<open>files\<close> stands for expanding the name and opening the file.  What an
  address holds whose text cannot be parsed is the argument \<open>junk\<close>, the fresh memory of the entry.
\<close>

subsection \<open>Reading a table\<close>

datatype 'a table_line = Skip_line | Include_line cstring | Entry_line 'a

definition table_step :: "(cstring \<Rightarrow> 'a table_line) \<Rightarrow> cstring \<Rightarrow> 'a list \<Rightarrow> 'a list \<times> cstring option" where
  "table_step parse l t =
     (case parse l of
        Skip_line \<Rightarrow> (t, None) | Include_line name \<Rightarrow> (t, Some name) | Entry_line e \<Rightarrow> (t @ [e], None))"

text \<open>The \<open>do_file\<close> functions: false for ERROR.  \<open>None\<close>: the files are nested deeper than \<open>d\<close>.\<close>

definition do_file :: "nat \<Rightarrow> (cstring \<rightharpoonup> bytes) \<Rightarrow> (cstring \<Rightarrow> 's \<Rightarrow> 's \<times> cstring option) \<Rightarrow> cstring \<Rightarrow> 's \<Rightarrow> (bool \<times> 's) option" where
  "do_file d files step name s =
     (case files name of
        None \<Rightarrow> Some (False, s)
      | Some c \<Rightarrow> map_option (Pair True) (nested d (\<lambda>n. Some (files n)) step id (cf_lines BUFFERSIZE c) s))"

subsection \<open>PASSWD\<close>

record passwd =
  pw_context :: cstring
  pw_node :: fnode
  pw_passwd :: cstring
  pw_args :: "cstring option"

definition passwd_parse_line :: "int \<Rightarrow> fnode \<Rightarrow> cstring \<Rightarrow> passwd table_line" where
  "passwd_parse_line z junk buf =
     (let (c, l) = strtok_r (Some buf) WS None;
          (n, l) = strtok_r None WS l;
          (w, l) = strtok_r None WS l;
          r = map_option (dropWhile is_space) (fst (strtok_r None [] l))
      in case (c, n) of
           (Some c, Some n) \<Rightarrow>
             (if strieq c ''include'' then Include_line n
              else
                (case w of
                   None \<Rightarrow> Skip_line
                 | Some w \<Rightarrow>
                     Entry_line \<lparr>pw_context = c, pw_node = snd (asc_to_node z n junk False), pw_passwd = w, pw_args = r\<rparr>))
         | _ \<Rightarrow> Skip_line)"

definition passwd_do_file :: "nat \<Rightarrow> int \<Rightarrow> fnode \<Rightarrow> (cstring \<rightharpoonup> bytes) \<Rightarrow> cstring \<Rightarrow> passwd list \<Rightarrow> (bool \<times> passwd list) option" where
  "passwd_do_file d z junk files = do_file d files (table_step (passwd_parse_line z junk))"

definition passwd_lookup :: "cstring \<Rightarrow> fnode \<Rightarrow> passwd list \<Rightarrow> passwd option" where
  "passwd_lookup context nd t = List.find (\<lambda>p. context = pw_context p \<and> node_eq nd (pw_node p)) t"

subsection \<open>HOSTS\<close>

definition HOST_POINT :: int where "HOST_POINT = 1"
definition HOST_DOWN :: int where "HOST_DOWN = 2"

record host =
  h_node :: fnode
  h_flags :: int
  h_name :: "cstring option"

fun host_options :: "cstring list \<Rightarrow> int \<Rightarrow> int" where
  "host_options [] f = f"
| "host_options (w # ws) f =
     host_options ws (if w = ''y'' \<or> w = ''-p'' then f OR HOST_POINT else if w = ''-d'' then f OR HOST_DOWN else f)"

definition hosts_parse_line :: "int \<Rightarrow> cstring \<Rightarrow> fnode \<Rightarrow> cstring \<Rightarrow> host table_line" where
  "hosts_parse_line z hostsdomain junk buf =
     (case tokens ch_nul WS buf of
        f # n # ws \<Rightarrow>
          (if strieq f ''include'' then Include_line n
           else
             (case asc_to_node z f junk False of
                (False, _) \<Rightarrow> Skip_line
              | (True, nd) \<Rightarrow>
                  Entry_line \<lparr>h_node = nd, h_flags = host_options ws 0,
                    h_name = (if n = ''-'' then None
                              else if last n = CHR ''.'' then Some (butlast n) else Some (n @ hostsdomain))\<rparr>))
      | _ \<Rightarrow> Skip_line)"

definition hosts_do_file :: "nat \<Rightarrow> int \<Rightarrow> cstring \<Rightarrow> fnode \<Rightarrow> (cstring \<rightharpoonup> bytes) \<Rightarrow> cstring \<Rightarrow> host list \<Rightarrow> (bool \<times> host list) option" where
  "hosts_do_file d z hostsdomain junk files = do_file d files (table_step (hosts_parse_line z hostsdomain junk))"

definition hosts_lookup :: "fnode option \<Rightarrow> cstring option \<Rightarrow> host list \<Rightarrow> host option" where
  "hosts_lookup nd name t =
     List.find (\<lambda>p. (case nd of
                       None \<Rightarrow> False
                     | Some n \<Rightarrow> node_np_eq n (h_node p) \<and> (point n = point (h_node p) \<or> point (h_node p) = 0)) \<or>
                    (case (name, h_name p) of (Some a, Some b) \<Rightarrow> stricmp a b = 0 | _ \<Rightarrow> False)) t"

subsection \<open>ALIASES\<close>

record user_alias =
  al_node :: fnode
  al_username :: "cstring option"
  al_userdom :: "cstring option"
  al_fullname :: cstring
  al_type :: char

abbreviation (input) RFC2FTN :: char where "RFC2FTN \<equiv> CHR ''r''"
abbreviation (input) FTN2RFC :: char where "FTN2RFC \<equiv> CHR ''f''"
abbreviation (input) ALL_ALIASES :: char where "ALL_ALIASES \<equiv> CHR ''a''"

text \<open>The static variable \<open>type\<close> is the second component; it starts as \<open>ALL\<close>.\<close>

definition alias_step :: "int \<Rightarrow> fnode \<Rightarrow> cstring \<Rightarrow> user_alias list \<times> char \<Rightarrow> (user_alias list \<times> char) \<times> cstring option" where
  "alias_step z junk buf s =
     (case xstrtok (Some buf) WS None of
        (None, _) \<Rightarrow> (s, None)
      | (Some u, l) \<Rightarrow>
          (let (n, l) = xstrtok None WS l;
               (f, _) = xstrtok None WS l
           in if stricmp u ''rfc2ftn'' = 0 then ((fst s, RFC2FTN), None)
              else if stricmp u ''ftn2rfc'' = 0 then ((fst s, FTN2RFC), None)
              else
                (case (n, f) of
                   (None, _) \<Rightarrow> (s, None)
                 | (Some n, f) \<Rightarrow>
                     (if strieq u ''include'' then (s, Some n)
                      else
                        (case (f, asc_to_node z n junk False) of
                           (Some f, True, nd) \<Rightarrow>
                             (let (un, l) = xstrtok (Some u) ''@'' None;
                                  (ud, _) = xstrtok None WS l
                              in ((fst s @ [\<lparr>al_node = nd, al_username = un, al_userdom = ud, al_fullname = f,
                                             al_type = snd s\<rparr>], snd s), None))
                         | _ \<Rightarrow> (s, None))))))"

definition alias_do_file :: "nat \<Rightarrow> int \<Rightarrow> fnode \<Rightarrow> (cstring \<rightharpoonup> bytes) \<Rightarrow> cstring \<Rightarrow> user_alias list \<times> char \<Rightarrow> (bool \<times> user_alias list \<times> char) option" where
  "alias_do_file d z junk files = do_file d files (alias_step z junk)"

text \<open>\<open>None\<close>: a null user name (of an entry \<open>@\<close>) is compared.\<close>

fun alias_lookup :: "fnode option \<Rightarrow> cstring option \<Rightarrow> user_alias list \<Rightarrow> user_alias option option" where
  "alias_lookup nd username [] = Some None"
| "alias_lookup nd username (a # as) =
     (if al_type a = FTN2RFC \<or> username = None then alias_lookup nd username as
      else
        (case al_username a of
           None \<Rightarrow> None
         | Some u \<Rightarrow>
             if stricmp u (the username) = 0 \<and> (case nd of None \<Rightarrow> True | Some n \<Rightarrow> node_eq n (al_node a))
             then Some (Some a) else alias_lookup nd username as))"

fun alias_lookup_strict :: "fnode \<Rightarrow> cstring option \<Rightarrow> user_alias list \<Rightarrow> user_alias option option" where
  "alias_lookup_strict nd fullname [] = Some None"
| "alias_lookup_strict nd fullname (a # as) =
     (if al_type a = RFC2FTN \<or> fullname = None then alias_lookup_strict nd fullname as
      else
        (case wildmatch (the fullname) (al_fullname a) 1 of
           None \<Rightarrow> None
         | Some m \<Rightarrow> if m \<and> node_eq nd (al_node a) then Some (Some a) else alias_lookup_strict nd fullname as))"

text \<open>The mail address is given by its user and its domain part.\<close>

fun alias_lookup_userdom :: "cstring \<Rightarrow> cstring \<Rightarrow> user_alias list \<Rightarrow> user_alias option option" where
  "alias_lookup_userdom user addr [] = Some None"
| "alias_lookup_userdom user addr (a # as) =
     (case al_userdom a of
        None \<Rightarrow> alias_lookup_userdom user addr as
      | Some d \<Rightarrow>
          if al_type a = FTN2RFC then alias_lookup_userdom user addr as
          else
            (case al_username a of
               None \<Rightarrow> None
             | Some u \<Rightarrow>
                 if stricmp u user = 0 \<and> stricmp d addr = 0 then Some (Some a) else alias_lookup_userdom user addr as))"

subsection \<open>SPYES\<close>

text \<open>An entry is the address and the one that its mail is forwarded to.\<close>

definition spyes_check_dups :: "fnode \<Rightarrow> (fnode \<times> fnode) list \<Rightarrow> bool" where
  "spyes_check_dups nd t \<longleftrightarrow> list_ex (\<lambda>a. node_eq nd (fst a)) t"

definition spyes_step :: "int \<Rightarrow> fnode \<Rightarrow> cstring \<Rightarrow> (fnode \<times> fnode) list \<Rightarrow> (fnode \<times> fnode) list \<times> cstring option" where
  "spyes_step z junk buf t =
     (case xstrtok (Some buf) WS None of
        (n, l) \<Rightarrow>
          (case (n, fst (xstrtok None WS l)) of
             (Some n, Some r) \<Rightarrow>
               (if strieq n ''include'' then (t, Some r)
                else
                  (case asc_to_node z n junk True of
                     (False, _) \<Rightarrow> (t, None)
                   | (True, nd) \<Rightarrow>
                       if spyes_check_dups nd t then (t, None)
                       else
                         (case asc_to_node z r junk True of
                            (False, _) \<Rightarrow> (t, None) | (True, fwd) \<Rightarrow> (t @ [(nd, fwd)], None))))
           | _ \<Rightarrow> (t, None)))"

definition spyes_do_file :: "nat \<Rightarrow> int \<Rightarrow> fnode \<Rightarrow> (cstring \<rightharpoonup> bytes) \<Rightarrow> cstring \<Rightarrow> (fnode \<times> fnode) list
    \<Rightarrow> (bool \<times> (fnode \<times> fnode) list) option" where
  "spyes_do_file d z junk files = do_file d files (spyes_step z junk)"

subsection \<open>UPLINKS\<close>

record uplink =
  up_areafix :: bool
  up_areas :: cstring
  up_node :: fnode
  up_robot :: cstring
  up_password :: cstring
  up_options :: "cstring option"

definition uplinks_parse_line :: "int \<Rightarrow> fnode \<Rightarrow> cstring \<Rightarrow> uplink table_line" where
  "uplinks_parse_line z junk buf =
     (let (t, l) = xstrtok (Some buf) WS None;
          (a, l) = xstrtok None WS l;
          (n, l) = xstrtok None WS l;
          (f, l) = xstrtok None WS l;
          (w, l) = xstrtok None WS l;
          (opt, _) = xstrtok None [] l
      in case (t, a) of
           (Some t, Some a) \<Rightarrow>
             (if strieq t ''include'' then Include_line a
              else
                (case (n, f, w) of
                   (Some n, Some f, Some w) \<Rightarrow>
                     (case asc_to_node z n junk False of
                        (False, _) \<Rightarrow> Skip_line
                      | (True, nd) \<Rightarrow>
                          Entry_line \<lparr>up_areafix = (t = ''af''), up_areas = a, up_node = nd, up_robot = f,
                                     up_password = w, up_options = opt\<rparr>)
                 | _ \<Rightarrow> Skip_line))
         | _ \<Rightarrow> Skip_line)"

definition uplinks_do_file :: "nat \<Rightarrow> int \<Rightarrow> fnode \<Rightarrow> (cstring \<rightharpoonup> bytes) \<Rightarrow> cstring \<Rightarrow> uplink list \<Rightarrow> (bool \<times> uplink list) option" where
  "uplinks_do_file d z junk files = do_file d files (table_step (uplinks_parse_line z junk))"

definition uplinks_line_get :: "bool \<Rightarrow> fnode \<Rightarrow> uplink list \<Rightarrow> uplink option" where
  "uplinks_line_get areafix nd t = List.find (\<lambda>a. up_areafix a = areafix \<and> node_eq (up_node a) nd) t"

text \<open>
  \<open>uplinks_lookup\<close>: the list of hits, each an entry with the name or pattern that matched; for an area name
  without wildcards at most one.  The flag of the loops tells that the search is over (the C function returns).
\<close>

definition uplink_match :: "cstring \<Rightarrow> cstring \<Rightarrow> bool option" where
  "uplink_match ar pat = wildmatch ar pat (if is_wildcard ar then 2 else 1)"

datatype search = Go_on | Leave_loop | Return_now

definition uplink_pattern :: "cstring \<Rightarrow> uplink \<Rightarrow> cstring \<Rightarrow> uplink list \<Rightarrow> (search \<times> uplink list) option" where
  "uplink_pattern ar a n hits =
     (if peek n = CHR ''!''
      then map_option (\<lambda>m. (if m \<and> \<not> is_wildcard ar then Leave_loop else Go_on, hits)) (uplink_match ar (tl n))
      else map_option (\<lambda>m. if m then (if is_wildcard ar then Go_on else Return_now, hits @ [a\<lparr>up_areas := n\<rparr>])
                           else (Go_on, hits)) (uplink_match ar n))"

fun uplink_lines :: "cstring \<Rightarrow> uplink \<Rightarrow> cstring list \<Rightarrow> uplink list \<Rightarrow> (search \<times> uplink list) option" where
  "uplink_lines ar a [] hits = Some (Go_on, hits)"
| "uplink_lines ar a (l # ls) hits =
     (case fst (xstrtok (Some l) WS None) of
        None \<Rightarrow> uplink_lines ar a ls hits
      | Some f \<Rightarrow>
          (case uplink_pattern ar a f hits of
             Some (Go_on, hits) \<Rightarrow> uplink_lines ar a ls hits
           | Some (Leave_loop, hits) \<Rightarrow> Some (Go_on, hits)
           | r \<Rightarrow> r))"

fun uplink_words :: "(cstring \<rightharpoonup> bytes) \<Rightarrow> cstring \<Rightarrow> uplink \<Rightarrow> cstring list \<Rightarrow> uplink list \<Rightarrow> (search \<times> uplink list) option" where
  "uplink_words files ar a [] hits = Some (Go_on, hits)"
| "uplink_words files ar a (n # ns) hits =
     (case (if peek n \<in> {CHR ''/'', CHR ''%'', CHR ''.''}
            then (case files n of
                    None \<Rightarrow> Some (Go_on, hits) | Some c \<Rightarrow> uplink_lines ar a (cf_lines BUFFERSIZE c) hits)
            else uplink_pattern ar a n hits) of
        Some (Go_on, hits) \<Rightarrow> uplink_words files ar a ns hits
      | Some (Leave_loop, hits) \<Rightarrow> Some (Go_on, hits)
      | r \<Rightarrow> r)"

fun uplinks_search :: "(cstring \<rightharpoonup> bytes) \<Rightarrow> bool \<Rightarrow> cstring \<Rightarrow> uplink list \<Rightarrow> uplink list \<Rightarrow> uplink list option" where
  "uplinks_search files areafix ar [] hits = Some hits"
| "uplinks_search files areafix ar (a # as) hits =
     (if up_areafix a \<noteq> areafix then uplinks_search files areafix ar as hits
      else
        (case uplink_words files ar a (tokens ch_nul '','' (up_areas a)) hits of
           None \<Rightarrow> None
         | Some (Return_now, hits) \<Rightarrow> Some hits
         | Some (_, hits) \<Rightarrow> uplinks_search files areafix ar as hits))"

definition uplinks_lookup :: "(cstring \<rightharpoonup> bytes) \<Rightarrow> bool \<Rightarrow> cstring \<Rightarrow> uplink list \<Rightarrow> uplink list option" where
  "uplinks_lookup files areafix ar t = uplinks_search files areafix ar t []"

end
