(* ===== verification/Areafix.thy ===== *)
theory Areafix
  imports Areas Seenby Tables Packet
begin

text \<open>
  The area manager \<open>src/areafix/areafix.c\<close>: who may give commands, the commands of a mail to the manager,
  and the requests to the uplinks that come out of them.  \<open>afenv\<close> holds the mode, the tables and what comes
  from outside (time, files, directories); \<open>afstate\<close> the static variables, the areas, the reply and the
  requests.  As the configure options are on unless they are disabled, the variant with AF_AVAIL,
  AF_LISTALL_RESTRICTED and SUB_LIMIT is modelled.  A result \<open>None\<close> is undefined behaviour.
\<close>

subsection \<open>Environment and state\<close>

record afenv =
  af_mode :: bool
  af_context :: cstring
  af_passwd :: "passwd list"
  af_uplinks :: "uplink list"
  af_files :: "cstring \<rightharpoonup> bytes"
  af_stale :: "cstring option"
  af_now :: int
  af_log_ok :: bool
  af_make_dir :: "cstring \<Rightarrow> cstring \<Rightarrow> bool"
  af_listall :: "fnode \<Rightarrow> areas \<Rightarrow> uplink list \<Rightarrow> cstring list"

datatype target = To_mail | To_stdout | To_log

record afstate =
  fx_areas :: areas
  fx_cf :: config
  fx_node :: fnode
  fx_target :: target
  fx_reply :: "cstring list"
  fx_stdout :: "cstring list"
  fx_upl :: "cstring list"
  fx_rules :: "(fnode \<times> cstring) list"
  fx_log :: bytes
  authorized :: bool
  auth_lvl :: int
  auth_key :: cstring
  auth_name :: cstring
  auth_node :: fnode
  auth_cmdline :: bool
  auth_new :: bool
  auth_fwd :: bool
  auth_delete :: bool
  auth_listall :: bool
  lim_A :: int
  lim_G :: int
  lim_g :: int

abbreviation set_list :: "areasbbs list \<Rightarrow> afstate \<Rightarrow> afstate" where
  "set_list l st \<equiv> st\<lparr>fx_areas := (fx_areas st)\<lparr>ab_list := l\<rparr>\<rparr>"

abbreviation changed :: "afstate \<Rightarrow> afstate" where
  "changed st \<equiv> st\<lparr>fx_areas := (fx_areas st)\<lparr>ab_changed := True\<rparr>\<rparr>"

text \<open>\<open>areafix_printf\<close>: into the reply, through a buffer of 4096 bytes, to standard output or to the log.\<close>

definition say :: "cstring \<Rightarrow> afstate \<Rightarrow> afstate" where
  "say t st =
     (case fx_target st of
        To_mail \<Rightarrow> st\<lparr>fx_reply := fx_reply st @ [take 4095 t]\<rparr>
      | To_stdout \<Rightarrow> st\<lparr>fx_stdout := fx_stdout st @ [t]\<rparr>
      | To_log \<Rightarrow> st)"

text \<open>\<open>%-41s\<close>, \<open>%-39s\<close>\<close>

definition pad :: "nat \<Rightarrow> cstring \<Rightarrow> cstring" where
  "pad n s = s @ replicate (n - length s) ch_sp"

definition crlf_text :: cstring where "crlf_text = [ch_cr, ch_lf]"

text \<open>The value of \<open>cf_get_string (name, TRUE)\<close>.\<close>

definition cfg :: "config \<Rightarrow> cstring \<Rightarrow> cstring option" where
  "cfg cf name = fst (cf_get_string cf name True [])"

text \<open>What a string holds after \<open>xstrtok\<close> has taken its first word.\<close>

definition cut_string :: "cstring \<Rightarrow> cstring \<Rightarrow> cstring" where
  "cut_string delim s =
     (let b = takeWhile (\<lambda>c. c \<in> set delim) s;
          r = dropWhile (\<lambda>c. c \<in> set delim) s
      in if r = [] then s
         else if hd r = ch_dquote then b @ ch_dquote # unescape ch_dquote (fst (quote_scan ch_dquote (tl r)))
         else b @ takeWhile (\<lambda>c. c \<notin> set delim) r)"

fun cut_strings :: "cstring \<Rightarrow> cstring \<Rightarrow> (cstring \<times> cstring) list \<Rightarrow> (cstring \<times> cstring) list" where
  "cut_strings delim name [] = []"
| "cut_strings delim name ((k, v) # ls) =
     (if stricmp k name = 0 then (if v = [] then (k, v) # ls else (k, cut_string delim v) # cut_strings delim name ls)
      else (k, v) # cut_strings delim name ls)"

subsection \<open>Authorization\<close>

definition areafix_auth_init :: "afstate \<Rightarrow> afstate" where
  "areafix_auth_init st =
     st\<lparr>authorized := False, auth_lvl := 1, auth_key := [], auth_name := ''Sysop'', auth_node := node_invalid (auth_node st),
       auth_cmdline := False, auth_new := False, auth_fwd := False, auth_delete := False, auth_listall := False,
       lim_A := 0, lim_G := 0\<rparr>"

text \<open>The fourth argument of a PASSWD line: the limits on subscriptions in all, and per uplink.\<close>

definition auth_limits :: "cstring option \<Rightarrow> afstate \<Rightarrow> afstate" where
  "auth_limits p st =
     (case p of
        None \<Rightarrow> st\<lparr>lim_A := -1, lim_G := -1\<rparr>
      | Some p \<Rightarrow>
          (if peek p = CHR ''#'' then st\<lparr>lim_A := -1, lim_G := -1\<rparr>
           else if CHR ''/'' \<in> set p then
             (let (g, l) = xstrtok (Some p) ''/'' None;
                  (a, _) = xstrtok None (CHR ''/'' # WS) l;
                  st = (case g of None \<Rightarrow> st | Some s \<Rightarrow> st\<lparr>lim_G := atoi s\<rparr>)
              in case a of None \<Rightarrow> st | Some s \<Rightarrow> st\<lparr>lim_A := atoi s\<rparr>)
           else st\<lparr>lim_A := -1, lim_G := atoi p\<rparr>))"

text \<open>
  The entry of the node gives level, key, name and limits.  With no arguments in the entry \<open>xstrtok\<close> gets
  NULL and goes on in the string it worked on before, \<open>af_stale\<close>.
\<close>

definition auth_args :: "afenv \<Rightarrow> passwd \<Rightarrow> afstate \<Rightarrow> afstate" where
  "auth_args env pwd st =
     (let (p, l) = (case pw_args pwd of Some s \<Rightarrow> xstrtok (Some s) WS None | None \<Rightarrow> xstrtok None WS (af_stale env));
          st = (case p of None \<Rightarrow> st | Some p \<Rightarrow> st\<lparr>auth_lvl := atoi p\<rparr>);
          (p, l) = xstrtok None WS l;
          st = (case p of None \<Rightarrow> st | Some p \<Rightarrow> st\<lparr>auth_key := p\<rparr>);
          (p, l) = xstrtok None WS l;
          st = (case p of None \<Rightarrow> st | Some p \<Rightarrow> st\<lparr>auth_name := p\<rparr>);
          (p, l) = xstrtok None WS l
      in auth_limits p st)"

definition auth_keys :: "afstate \<Rightarrow> afstate" where
  "auth_keys st =
     st\<lparr>auth_new := auth_new st \<or> CHR ''$'' \<in> set (auth_key st), auth_fwd := auth_fwd st \<or> CHR ''&'' \<in> set (auth_key st),
       auth_delete := auth_delete st \<or> CHR ''~'' \<in> set (auth_key st),
       auth_listall := auth_listall st \<or> CHR ''%'' \<in> set (auth_key st)\<rparr>"

definition areafix_auth_check :: "afenv \<Rightarrow> fnode \<Rightarrow> cstring option \<Rightarrow> bool \<Rightarrow> afstate \<Rightarrow> afstate" where
  "areafix_auth_check env nd pw checkpass st =
     (let st = (areafix_auth_init st)\<lparr>auth_node := nd\<rparr>;
          pwd = passwd_lookup (af_context env) nd (af_passwd env);
          st = (if \<not> checkpass then st\<lparr>authorized := True\<rparr>
                else (case (pw, pwd) of
                        (Some w, Some p) \<Rightarrow> if stricmp w (pw_passwd p) = 0 then st\<lparr>authorized := True\<rparr> else st
                      | _ \<Rightarrow> st))
      in case pwd of None \<Rightarrow> st | Some p \<Rightarrow> auth_keys (auth_args env p st))"

definition areafix_auth_cmd :: "afstate \<Rightarrow> afstate" where
  "areafix_auth_cmd st =
     st\<lparr>authorized := True, auth_cmdline := True, auth_new := True, auth_delete := True, auth_fwd := True,
       auth_listall := True\<rparr>"

subsection \<open>Forbidden areas\<close>

fun match_any :: "cstring \<Rightarrow> cstring list \<Rightarrow> bool option" where
  "match_any a [] = Some False"
| "match_any a (s # ss) = (case wildmatch a s 1 of None \<Rightarrow> None | Some True \<Rightarrow> Some True | Some False \<Rightarrow> match_any a ss)"

text \<open>The lines of a file as \<open>fgets\<close> reads them into an array of \<open>BUFSIZ\<close> bytes.\<close>

definition file_lines :: "bytes \<Rightarrow> cstring list" where
  "file_lines fp = map cstr (read_all (Suc (length fp)) (fgets BUFSIZ) fp)"

fun match_any_file :: "afenv \<Rightarrow> cstring \<Rightarrow> cstring list \<Rightarrow> bool option" where
  "match_any_file env a [] = Some False"
| "match_any_file env a (s # ss) =
     (case wildmatch_file a (map_option file_lines (af_files env s)) 1 of
        None \<Rightarrow> None | Some True \<Rightarrow> Some True | Some False \<Rightarrow> match_any_file env a ss)"

definition areafix_check_forbidden_area :: "afenv \<Rightarrow> config \<Rightarrow> cstring \<Rightarrow> bool option" where
  "areafix_check_forbidden_area env cf a =
     (case match_any a (cf_strings cf ''AreaFixCreateForbiddenAreas'') of
        Some False \<Rightarrow> match_any_file env a (cf_strings cf ''AreaFixCreateForbiddenAreasFile'') | r \<Rightarrow> r)"

definition filefix_check_forbidden_area :: "afenv \<Rightarrow> config \<Rightarrow> cstring \<Rightarrow> bool option" where
  "filefix_check_forbidden_area env cf a =
     (case match_any a (cf_strings cf ''FileFixCreateForbiddenAreas'') of
        Some False \<Rightarrow> match_any_file env a (cf_strings cf ''FileFixCreateForbiddenAreasFile'') | r \<Rightarrow> r)"

subsection \<open>NEW\<close>

text \<open>The options of the line; an option without its argument ends them.\<close>

definition new_flag :: "bool \<Rightarrow> bool \<Rightarrow> cstring \<Rightarrow> areasbbs \<Rightarrow> areasbbs" where
  "new_flag lrp pt o1 p =
     (if lrp \<and> pt \<and> (o1 = ''-#'' \<or> o1 = ''-p'') then p\<lparr>ab_flags := ab_flags p OR AREASBBS_PASSTHRU\<rparr>
      else if lrp \<and> o1 = ''-r'' then p\<lparr>ab_flags := ab_flags p OR AREASBBS_READONLY\<rparr>
      else p)"

definition takes_argument :: "bool \<Rightarrow> cstring \<Rightarrow> bool" where
  "takes_argument lrp o1 \<longleftrightarrow> (lrp \<and> o1 = ''-l'') \<or> o1 \<in> {''-k'', ''-d'', ''-z'', ''-a'', ''-s'', ''-e'', ''-n''}"

definition new_argument :: "int \<Rightarrow> cstring \<Rightarrow> cstring \<Rightarrow> areasbbs \<Rightarrow> areasbbs" where
  "new_argument defzone o1 o2 p =
     (if o1 = ''-l'' then p\<lparr>ab_lvl := atoi o2\<rparr>
      else if o1 = ''-k'' then p\<lparr>ab_key := Some o2\<rparr>
      else if o1 = ''-d'' then p\<lparr>ab_desc := Some o2\<rparr>
      else if o1 = ''-z'' then p\<lparr>ab_zone := atoi o2\<rparr>
      else if o1 = ''-a'' then p\<lparr>ab_addr := snd (asc_to_node defzone o2 (ab_addr p) False)\<rparr>
      else if o1 = ''-s'' then p\<lparr>ab_state := Some o2\<rparr>
      else if o1 = ''-e'' then p\<lparr>ab_expire_n := atoi o2\<rparr>
      else p\<lparr>ab_expire_t := atoi o2\<rparr>)"

fun new_options :: "int \<Rightarrow> bool \<Rightarrow> bool \<Rightarrow> cstring list \<Rightarrow> areasbbs \<Rightarrow> areasbbs" where
  "new_options defzone lrp pt [] p = p"
| "new_options defzone lrp pt [o1] p =
     (if takes_argument lrp o1 then (if o1 = ''-s'' then p\<lparr>ab_state := None\<rparr> else p) else new_flag lrp pt o1 p)"
| "new_options defzone lrp pt (o1 # o2 # ws) p =
     (if takes_argument lrp o1 then new_options defzone lrp pt ws (new_argument defzone o1 o2 p)
      else new_options defzone lrp pt (o2 # ws) (new_flag lrp pt o1 p))"

text \<open>The directory of a file area: \<open>Inl\<close> ERROR.  \<open>None\<close>: without AutoCreateFechoPath \<open>%s\<close> gets NULL.\<close>

definition new_dir :: "afenv \<Rightarrow> config \<Rightarrow> cstring \<Rightarrow> areasbbs \<Rightarrow> (unit + areasbbs) option" where
  "new_dir env cf name p =
     (if af_mode env \<or> ab_flags p AND AREASBBS_PASSTHRU \<noteq> 0 then Some (Inr (p\<lparr>ab_dir := ''-''\<rparr>))
      else
        (case cfg cf ''AutoCreateFechoPath'' of
           None \<Rightarrow> None
         | Some parent \<Rightarrow>
             (let dir = take (MAXPATH - 1) (parent @ ''/'' @ str_lower name)
              in Some (if af_make_dir env parent dir then Inr (p\<lparr>ab_dir := dir\<rparr>) else Inl ()))))"

text \<open>
  The systems subscribed at once: the words of each line are relative to the address before.  The line in the
  configuration is cut behind its first word.
\<close>

fun subscribe_words :: "fnode \<Rightarrow> cstring list \<Rightarrow> lon \<Rightarrow> lon" where
  "subscribe_words prev [] l = l"
| "subscribe_words prev (w # ws) l =
     (case asc_to_node_diff w prev prev of
        (True, nd) \<Rightarrow> subscribe_words nd ws (lon_add l nd) | (False, _) \<Rightarrow> subscribe_words prev ws l)"

definition subscribe_nodes :: "cstring \<Rightarrow> config \<Rightarrow> lon \<Rightarrow> lon" where
  "subscribe_nodes name cf l =
     fold (\<lambda>s. subscribe_words (mk_node (cf_zone cf) (-1) (-1) (-1)) (takeWhile (\<lambda>w. w \<noteq> []) (tokens ch_dquote WS s))) (cf_strings cf name) l"

definition new_area :: "afenv \<Rightarrow> fnode \<Rightarrow> cstring option \<Rightarrow> bool \<Rightarrow> cstring \<Rightarrow> cstring list \<Rightarrow> afstate \<Rightarrow> (int \<times> afstate) option" where
  "new_area env nd dwnl internal name ws st =
     (let cf = fx_cf st;
          p = areasbbs_new\<lparr>ab_area := str_upper name, ab_zone := zone nd, ab_time := af_now env\<rparr>;
          p = new_options (cf_defzone cf) (cfg cf ''IgnorePRLKey'' = None \<or> internal) (dwnl = None \<or> internal) ws p;
          p = (if ab_state p = None then p\<lparr>ab_state := Some ''S''\<rparr> else p)
      in case new_dir env cf name p of
           None \<Rightarrow> None
         | Some (Inl _) \<Rightarrow> Some (-1, st)
         | Some (Inr p) \<Rightarrow>
             (let subscr = (if af_mode env then ''AutoCreateSubscribeNodes'' else ''AutoCreateSubscribeFileechoNodes'');
                  p = p\<lparr>ab_nodes := subscribe_nodes subscr cf (lon_add lon_init nd)\<rparr>;
                  st = st\<lparr>fx_areas := areasbbs_add p (fx_areas st)\<rparr>;
                  st = (if af_log_ok env
                        then st\<lparr>fx_log := fx_log st @ af_context env @ '' '' @ ab_area p @ '' '' @ znf1 nd @ '' '' @
                                  (case dwnl of None \<Rightarrow> ''<null>'' | Some d \<Rightarrow> d) @ '' '' @ dec (af_now env) @ [ch_lf]\<rparr>
                        else st);
                  st = say (pad 41 (ab_area p) @ '': created'') st;
                  st = (if cfg cf ''AutoCreateCmd'' = None then changed st else st)
              in Some (0, st\<lparr>fx_cf := cf\<lparr>scf_list := cut_strings WS subscr (scf_list cf)\<rparr>\<rparr>)))"

definition cmd_new :: "afenv \<Rightarrow> fnode \<Rightarrow> cstring \<Rightarrow> cstring option \<Rightarrow> bool \<Rightarrow> afstate \<Rightarrow> (int \<times> afstate) option" where
  "cmd_new env nd text dwnl internal st =
     (if \<not> (auth_new st \<or> auth_fwd st \<and> internal) \<or> \<not> authorized st then Some (0, say ''Command not authorized.'' st)
      else
        (case tokens ch_dquote WS text of
           [] \<Rightarrow> None
         | name # ws \<Rightarrow>
             if areasbbs_lookup (Some name) (fx_areas st) \<noteq> None
             then Some (0, say (pad 41 name @ '': area already exists,'' @ crlf_text @ pad 41 '' '' @ ''  can't create new one.'') st)
             else if (case cfg (fx_cf st) ''ForbiddenChar'' of None \<Rightarrow> False | Some o1 \<Rightarrow> list_ex (\<lambda>c. c \<in> set name) o1)
             then Some (-2, say (pad 41 name @ '': have forbidden char, can't create.'') st)
             else do {
               forbidden \<leftarrow> (if auth_cmdline st then Some False
                            else if af_mode env then areafix_check_forbidden_area env (fx_cf st) name
                            else filefix_check_forbidden_area env (fx_cf st) name);
               if forbidden then Some (0, say (pad 41 name @ '': forbidden area, can't create.'') st)
               else new_area env nd dwnl internal name ws st }))"

text \<open>With the messages going to the log.\<close>

definition cmd_new_int :: "afenv \<Rightarrow> fnode \<Rightarrow> cstring \<Rightarrow> cstring option \<Rightarrow> afstate \<Rightarrow> (int \<times> afstate) option" where
  "cmd_new_int env nd text dwnl st =
     map_option (\<lambda>(ret, s). (ret, s\<lparr>fx_target := fx_target st\<rparr>)) (cmd_new env nd text dwnl True (st\<lparr>fx_target := To_log\<rparr>))"

subsection \<open>LIST, QUERY, UNLINKED, LISTALL, HELP\<close>

definition say_all :: "cstring list \<Rightarrow> afstate \<Rightarrow> afstate" where
  "say_all ts st = fold say ts st"

text \<open>The level and every letter of the key.\<close>

definition may_see :: "areasbbs \<Rightarrow> afstate \<Rightarrow> bool" where
  "may_see p st \<longleftrightarrow> ab_lvl p \<le> auth_lvl st \<and>
     (case ab_key p of None \<Rightarrow> True | Some k \<Rightarrow> list_all (\<lambda>c. c \<in> set (auth_key st)) k)"

definition listed :: "bool \<Rightarrow> bool \<Rightarrow> bool \<Rightarrow> fnode \<Rightarrow> afstate \<Rightarrow> areasbbs \<Rightarrow> bool" where
  "listed flag list_f print_all nd st p \<longleftrightarrow>
     lon_search (ab_nodes p) nd \<or>
     (may_see p st \<and> (ab_zone p = zone nd \<or> (ab_zone p \<le> 6 \<and> zone nd \<le> 6)) \<and>
      ab_state p \<noteq> None \<and> \<not> areasbbs_isstate (ab_state p) CHR ''U'' \<and>
      (if flag then \<not> areasbbs_isstate (ab_state p) CHR ''W'' \<and> (areasbbs_isstate (ab_state p) CHR ''F'' \<longrightarrow> list_f)
       else print_all \<or> \<not> (areasbbs_isstate (ab_state p) CHR ''W'' \<or> areasbbs_isstate (ab_state p) CHR ''F'')))"

definition list_text :: "fnode \<Rightarrow> areasbbs \<Rightarrow> cstring" where
  "list_text nd p =
     take (BUFFERSIZE - 1)
       ((if lon_search (ab_nodes p) nd then (if lon_search (ab_passive p) nd then ''P'' else ''*'') else '' '') @ '' '' @
        (case ab_desc p of None \<Rightarrow> ab_area p | Some d \<Rightarrow> pad 39 (ab_area p) @ '': '' @ d))"

definition avail_lines :: "afenv \<Rightarrow> cstring \<Rightarrow> cstring list" where
  "avail_lines env s =
     concat (map (\<lambda>n. case af_files env n of None \<Rightarrow> [] | Some c \<Rightarrow> cf_lines BUFFERSIZE c) (tokens ch_dquote '','' s))"

definition cmd_list :: "afenv \<Rightarrow> bool \<Rightarrow> afstate \<Rightarrow> afstate" where
  "cmd_list env flag st =
     (if \<not> authorized st then say ''Command LIST: not authorized.'' st
      else
        (let cf = fx_cf st; nd = fx_node st;
             print_all = cfg cf ''AreafixAvailPrintsAllAreas'' \<noteq> None;
             list_f = cfg cf ''FStatusAreaFixList'' \<noteq> None;
             av = (if flag then None else cfg cf ''AvailFile'');
             top_lines = ['''', ''Areas available to '' @ znf1 nd @ '':''] @
               (if flag then [''(currently subscribed from uplinks)'']
                else if \<not> print_all then [''(currently not subscribed from uplinks)''] else []) @ [''''];
             ls = (case av of
                     None \<Rightarrow> map (list_text nd) (filter (listed flag list_f print_all nd st) (ab_list (fx_areas st)))
                   | Some s \<Rightarrow> avail_lines env s);
             st = (if av = None then st
                   else st\<lparr>fx_cf := cf\<lparr>scf_list := map (\<lambda>(k, v). if stricmp k ''AvailFile'' = 0 \<and> Some v = av
                                                               then (k, cut_string '','' v) else (k, v)) (scf_list cf)\<rparr>\<rparr>)
         in say_all (top_lines @ ls @ ['''', ''* = linked to this area'', ''P = passive mode (write only)'', '''']) st))"

definition cmd_query :: "afstate \<Rightarrow> afstate" where
  "cmd_query st =
     (if \<not> authorized st then say ''Command QUERY: not authorized.'' st
      else
        (let nd = fx_node st
         in say_all (['''', znf1 nd @ '' is linked to the following areas:'', ''''] @
              map (\<lambda>p. (if lon_search (ab_passive p) nd then ''P'' else '' '') @ '' '' @ ab_area p)
                (filter (\<lambda>p. lon_search (ab_nodes p) nd) (ab_list (fx_areas st))) @
              ['''', ''P = passive mode (write only)'', '''']) st))"

definition cmd_unlinked :: "afenv \<Rightarrow> afstate \<Rightarrow> afstate" where
  "cmd_unlinked env st =
     (if \<not> authorized st then say ''Command UNLINKED: not authorized.'' st
      else
        (let nd = fx_node st
         in say_all (['''', znf1 nd @ '' is not linked to the following available areas:'', ''''] @
              map (\<lambda>p. ''  '' @ ab_area p)
                (filter (\<lambda>p. may_see p st \<and> (af_mode env \<longrightarrow> ab_zone p = zone nd) \<and> \<not> lon_search (ab_nodes p) nd)
                  (ab_list (fx_areas st))) @ ['''', '''']) st))"

text \<open>\<open>af_listall\<close> gives the lines of the listing, which goes through a data base of the names.\<close>

definition cmd_listall :: "afenv \<Rightarrow> afstate \<Rightarrow> afstate" where
  "cmd_listall env st =
     (if \<not> authorized st \<or> \<not> auth_listall st then say ''Command LISTALL: not authorized.'' st
      else say_all (af_listall env (fx_node st) (fx_areas st) (af_uplinks env)) st)"

text \<open>A line of the help file is a format: \<open>None\<close> when it asks for an argument.\<close>

fun format_text :: "cstring \<Rightarrow> cstring option" where
  "format_text [] = Some []"
| "format_text [c] = (if c = CHR ''%'' then None else Some [c])"
| "format_text (c # d # s) =
     (if c \<noteq> CHR ''%'' then map_option (Cons c) (format_text (d # s))
      else if d = CHR ''%'' then map_option (Cons d) (format_text s) else None)"

fun say_formats :: "cstring list \<Rightarrow> afstate \<Rightarrow> afstate option" where
  "say_formats [] st = Some st"
| "say_formats (f # fs) st = (case format_text f of None \<Rightarrow> None | Some t \<Rightarrow> say_formats fs (say t st))"

definition cmd_help :: "afenv \<Rightarrow> afstate \<Rightarrow> afstate option" where
  "cmd_help env st =
     (let no_help = ''Sorry, no help available.''
      in case cfg (fx_cf st) ''AreaFixHelp'' of
           None \<Rightarrow> Some (say no_help st)
         | Some name \<Rightarrow>
             (case af_files env name of
                None \<Rightarrow> Some (say_all [''(can't open areafix help file)'' @ crlf_text @ ''Please forward this message to sysop'', no_help] st)
              | Some c \<Rightarrow> say_formats (map (\<lambda>l. chomp (cstr l)) (read_all (Suc (length c)) (fgets BUFFERSIZE) c)) st))"

subsection \<open>PASSWD\<close>

definition cmd_passwd :: "afenv \<Rightarrow> fnode \<Rightarrow> cstring \<Rightarrow> afstate \<Rightarrow> afstate option" where
  "cmd_passwd env junk arg st =
     (let st = st\<lparr>authorized := False\<rparr>;
          (p, l) = strtok_r (Some arg) WS None
      in case p of
           None \<Rightarrow> Some (say ''Command PASSWORD: missing Z:N/F.P address.'' st)
         | Some p \<Rightarrow>
             (case asc_to_node (cf_defzone (fx_cf st)) p junk False of
                (False, _) \<Rightarrow> Some (say (''Command PASSWORD: illegal address '' @ p @ ''.'') st)
              | (True, n) \<Rightarrow> do {
                  cf \<leftarrow> cf_set_zone (zone n) (fx_cf st);
                  let st = st\<lparr>fx_node := n, fx_cf := cf\<rparr>;
                  (case fst (strtok_r None WS l) of
                     None \<Rightarrow> Some (say ''Command PASSWORD: no password given!'' st)
                   | Some w \<Rightarrow>
                       (let st = areafix_auth_check env n (Some w) True st
                        in Some (if authorized st then st
                                 else say (''Command PASSWORD: authorization for '' @ znfp1 n @ '' failed.'') st))) }))"

subsection \<open>Requests to the uplinks\<close>

definition areafix_name :: "afenv \<Rightarrow> cstring" where
  "areafix_name env = (if af_mode env then ''Areafix Daemon'' else ''Filefix Daemon'')"

definition fix_name :: "afenv \<Rightarrow> afstate \<Rightarrow> cstring" where
  "fix_name env st =
     (case cfg (fx_cf st) (if af_mode env then ''AreaFixName'' else ''FileFixName'') of
        Some s \<Rightarrow> s | None \<Rightarrow> areafix_name env)"

text \<open>\<open>tl_appendf\<close> goes through a buffer of 4096 bytes.\<close>

definition request :: "afenv \<Rightarrow> cstring \<Rightarrow> uplink \<Rightarrow> char \<Rightarrow> cstring \<Rightarrow> afstate \<Rightarrow> afstate" where
  "request env addr a sign name st =
     st\<lparr>fx_upl := fx_upl st @ [take 4095 (addr @ '','' @ up_robot a @ '','' @ fix_name env st @ '','' @
          up_password a @ '','' @ [sign] @ str_upper name)]\<rparr>"

subsection \<open>SUBSCRIBE\<close>

text \<open>What becomes of one area: it stays, it is removed, or it stays and the subscription failed.\<close>

datatype sub_step = Keep areasbbs | Drop | Deny areasbbs

definition dead_area :: "areasbbs \<Rightarrow> afstate \<Rightarrow> afstate" where
  "dead_area p st = changed (say (pad 41 (ab_area p) @ '': no uplink, dead area'') st)"

definition linked_areas :: "fnode \<Rightarrow> areasbbs list \<Rightarrow> int" where
  "linked_areas nd all =
     int (length (filter (\<lambda>p. lsize (ab_nodes p) > 1 \<and> (lon_search (ab_nodes p) nd \<or> lon_search (ab_passive p) nd)) all))"

text \<open>The areas from the uplink of \<open>p\<close>; the passive list that is looked at is always the one of \<open>p\<close>.\<close>

definition uplink_areas :: "areasbbs \<Rightarrow> fnode \<Rightarrow> areasbbs list \<Rightarrow> int" where
  "uplink_areas p nd all =
     int (length (filter (\<lambda>n. lsize (ab_nodes n) > 1 \<and> lnodes (ab_nodes p) \<noteq> [] \<and>
        (lon_search (ab_nodes n) nd \<or> lon_search (ab_passive p) nd) \<and> lon_search (ab_nodes n) (hd (lnodes (ab_nodes p)))) all))"

text \<open>The checks that a command line user is spared: \<open>None\<close> to go on.\<close>

definition sub_checks :: "afenv \<Rightarrow> areasbbs list \<Rightarrow> areasbbs \<Rightarrow> afstate \<Rightarrow> (sub_step \<times> afstate) option" where
  "sub_checks env all p st =
     (let nd = fx_node st; t = pad 41 (ab_area p)
      in if ab_lvl p > auth_lvl st then Some (Deny p, say (t @ '': access denied (level)'') st)
         else if (case ab_key p of None \<Rightarrow> False | Some k \<Rightarrow> \<not> list_ex (\<lambda>c. c \<in> set (auth_key st)) k)
         then Some (Deny p, say (t @ '': access denied (key)'') st)
         else if lon_search (ab_nodes p) nd then
           (if lon_search (ab_passive p) nd
            then Some (Keep (p\<lparr>ab_passive := lon_remove (ab_passive p) nd\<rparr>),
                       (say (t @ '': set active'') (changed st))\<lparr>lim_g := lim_g st + 1\<rparr>)
            else Some (Keep p, say (t @ '': already active'') st))
         else if lim_G st > 0 \<and> lim_G st \<le> lim_g st
         then Some (Deny p, say (t @ '': access denied (general limit '' @ dec (lim_g st) @ '')'') st)
         else if lim_A st > 0 \<and> lim_A st \<le> uplink_areas p nd all
         then Some (Deny p, say (t @ '': access denied'' @ crlf_text @ pad 41 '' '' @ ''  (limit for uplink '' @
                      znfp1 (hd (lnodes (ab_nodes p))) @ '' = '' @ dec (uplink_areas p nd all) @ '')'') st)
         else if af_mode env \<and> ab_zone p \<noteq> zone nd then
           (if ab_zone p = 0 then Some (Drop, dead_area p st)
            else if ab_zone p > 6 \<or> zone nd > 6
            then Some (Keep p, say (t @ '': different zone (Z'' @ dec (ab_zone p) @ ''), not added'') st)
            else None)
         else None)"

text \<open>The mail with the rules of the area is noted in \<open>fx_rules\<close>.\<close>

definition sub_rules :: "bool \<Rightarrow> cstring \<Rightarrow> afstate \<Rightarrow> afstate" where
  "sub_rules iswc name st = (if iswc then st else st\<lparr>fx_rules := fx_rules st @ [(fx_node st, str_upper name)]\<rparr>)"

text \<open>The area is asked for at the uplink again.  Without a list of requests \<open>tl_appendf\<close> follows NULL.\<close>

definition sub_again :: "afenv \<Rightarrow> bool \<Rightarrow> areasbbs \<Rightarrow> uplink \<Rightarrow> fnode \<Rightarrow> afstate \<Rightarrow> (areasbbs \<times> afstate) option" where
  "sub_again env has_upl p a first st =
     (if \<not> has_upl then None
      else do {
        (_, s) \<leftarrow> areasbbs_chstate (ab_state p) (Some ''UP'') CHR ''W'';
        Some (p\<lparr>ab_area := str_upper (ab_area p), ab_state := s, ab_time := af_now env,
                ab_passive := (if lon_search (ab_passive p) (fx_node st) then lon_remove (ab_passive p) (fx_node st) else ab_passive p)\<rparr>,
              say (''        (this area is currently not subscribed at uplink '' @ znf1 first @ '')'')
                (request env (znf1 first) a CHR ''+'' (ab_area p) st)) })"

definition sub_link :: "afenv \<Rightarrow> bool \<Rightarrow> bool \<Rightarrow> cstring \<Rightarrow> areasbbs \<Rightarrow> afstate \<Rightarrow> (sub_step \<times> afstate) option" where
  "sub_link env has_upl iswc name p st =
     (case lnodes (ab_nodes p) of
        [] \<Rightarrow> Some (Drop, dead_area p st)
      | first # _ \<Rightarrow>
          (let p = p\<lparr>ab_nodes := lon_add (ab_nodes p) (fx_node st)\<rparr>;
               st = (say (pad 41 (ab_area p) @ '': subscribed'') (changed st))\<lparr>lim_g := lim_g st + 1\<rparr>;
               told = (\<lambda>t. Some (Keep p, sub_rules iswc name (say t st)))
           in if areasbbs_isstate (ab_state p) CHR ''U'' \<or> areasbbs_isstate (ab_state p) CHR ''P'' then
                (case uplinks_line_get (af_mode env) first (af_uplinks env) of
                   Some a \<Rightarrow> map_option (\<lambda>(p, st). (Keep p, sub_rules iswc name st)) (sub_again env has_upl p a first st)
                 | None \<Rightarrow>
                     (let st = say (''        Please forward this message to sysop:'' @ crlf_text @
                                    ''        no entry for uplink '' @ znf1 first @ '' in uplink config file'') st
                      in Some (if has_upl then (Keep p, sub_rules iswc name st) else (Deny p, st))))
              else if areasbbs_isstate (ab_state p) CHR ''W'' then
                told (''        (this area subscribed at uplink '' @ znf1 first @ '', but no traffic yet)'')
              else if areasbbs_isstate (ab_state p) CHR ''F'' \<and> has_upl then
                told (''        (this area requested from uplink '' @ znf1 first @ '', but no traffic yet)'')
              else Some (Keep p, sub_rules iswc name st)))"

definition sub_one :: "afenv \<Rightarrow> bool \<Rightarrow> bool \<Rightarrow> cstring \<Rightarrow> areasbbs list \<Rightarrow> areasbbs \<Rightarrow> afstate \<Rightarrow> (sub_step \<times> afstate) option" where
  "sub_one env has_upl iswc name all p st =
     (case (if auth_cmdline st then None else sub_checks env all p st) of
        Some r \<Rightarrow> Some r | None \<Rightarrow> sub_link env has_upl iswc name p st)"

text \<open>
  The loop over the areas, \<open>done\<close> the ones behind: the value returned early (\<open>DELETE\<close> is 2), the number of
  areas met, the areas and the state.
\<close>

abbreviation (input) SUB_DELETE :: int where "SUB_DELETE \<equiv> 2"

fun sub_loop :: "afenv \<Rightarrow> bool \<Rightarrow> bool \<Rightarrow> cstring \<Rightarrow> areasbbs list \<Rightarrow> areasbbs list \<Rightarrow> nat \<Rightarrow> afstate
    \<Rightarrow> (int option \<times> nat \<times> areasbbs list \<times> afstate) option" where
  "sub_loop env has_upl iswc name behind [] n st = Some (None, n, behind, st)"
| "sub_loop env has_upl iswc name behind (p # ps) n st =
     (if n \<noteq> 0 \<and> \<not> iswc then Some (Some 0, n, behind @ p # ps, st)
      else
        (case wildmatch (ab_area p) (buf_copy BUFSIZ name) 1 of
           None \<Rightarrow> None
         | Some False \<Rightarrow> sub_loop env has_upl iswc name (behind @ [p]) ps n st
         | Some True \<Rightarrow>
             (case sub_one env has_upl iswc name (behind @ p # ps) p st of
                None \<Rightarrow> None
              | Some (Keep p, st) \<Rightarrow> sub_loop env has_upl iswc name (behind @ [p]) ps (Suc n) st
              | Some (Drop, st) \<Rightarrow> sub_loop env has_upl iswc name behind ps (Suc n) st
              | Some (Deny p, st) \<Rightarrow>
                  (if has_upl then sub_loop env has_upl iswc name (behind @ [p]) ps (Suc n) st
                   else Some (Some SUB_DELETE, Suc n, behind @ p # ps, st)))))"

text \<open>All of \<open>cmd_sub\<close> up to the requests for areas that are not there.\<close>

definition sub_present :: "afenv \<Rightarrow> bool \<Rightarrow> cstring \<Rightarrow> afstate \<Rightarrow> (int option \<times> nat \<times> afstate) option" where
  "sub_present env has_upl name st =
     (if \<not> authorized st then Some (Some 0, 0, say ''Command SUBSCRIBE: not authorized.'' st)
      else
        (let st = (if lim_g st < 1 then st\<lparr>lim_g := lim_g st + linked_areas (fx_node st) (ab_list (fx_areas st))\<rparr> else st)
         in case sub_loop env has_upl (is_wildcard name) name [] (ab_list (fx_areas st)) 0 st of
              None \<Rightarrow> None
            | Some (r, n, l, st) \<Rightarrow>
                (let st = set_list l st
                 in if r \<noteq> None then Some (r, n, st)
                    else if \<not> auth_fwd st
                    then Some (Some 0, n, say (pad 41 name @ '': forward request not authorized'') st)
                    else Some (None, n, st))))"

text \<open>
  \<open>cmd_sub\<close> for the area just created.  Should it have to ask for areas again, it would free the list of
  uplinks that the caller is in: \<open>None\<close>.
\<close>

definition cmd_sub_created :: "afenv \<Rightarrow> cstring \<Rightarrow> afstate \<Rightarrow> (int \<times> afstate) option" where
  "cmd_sub_created env name st =
     (case sub_present env False name st of
        None \<Rightarrow> None
      | Some (Some r, _, st) \<Rightarrow> Some (r, st)
      | Some (None, n, st) \<Rightarrow> if is_wildcard name \<or> n = 0 then None else Some (0, st))"

definition uplink_line :: "uplink \<Rightarrow> cstring option" where
  "uplink_line a =
     (case up_options a of
        None \<Rightarrow> Some (buf_copy BUFSIZ (up_areas a))
      | Some opt \<Rightarrow> map_option cstr (str_copy3 (replicate BUFSIZ ch_nul) BUFSIZ (up_areas a) '' '' opt))"

definition drop_area :: "cstring \<Rightarrow> afstate \<Rightarrow> afstate" where
  "drop_area name st =
     (case areasbbs_lookup (Some name) (fx_areas st) of
        None \<Rightarrow> st | Some i \<Rightarrow> st\<lparr>fx_areas := areasbbs_remove i (fx_areas st)\<rparr>)"

text \<open>One hit of \<open>uplinks_lookup\<close>: the area is created, subscribed and asked for.\<close>

definition forward_one :: "afenv \<Rightarrow> uplink \<Rightarrow> afstate \<Rightarrow> afstate option" where
  "forward_one env a st =
     (let failed = (\<lambda>st. Some (say (up_areas a @ '': internal areafix error (can't create area)'' @ crlf_text @
                                ''Please forward this message to sysop'') st))
      in do {
        buf \<leftarrow> uplink_line a;
        (ret, st) \<leftarrow> cmd_new_int env (up_node a) buf (Some (znf1 (fx_node st))) st;
        if ret \<noteq> 0 then failed st
        else
          (case areasbbs_lookup (Some (up_areas a)) (fx_areas st) of
             None \<Rightarrow> failed st
           | Some i \<Rightarrow> do {
               let p = ab_list (fx_areas st) ! i;
               (_, s) \<leftarrow> areasbbs_chstate (ab_state p) (Some ''S'') CHR ''F'';
               let st = changed (set_list ((ab_list (fx_areas st))[i := p\<lparr>ab_state := s\<rparr>]) st);
               (ret, st) \<leftarrow> cmd_sub_created env (ab_area p) st;
               if ret \<noteq> 0 then Some (changed (drop_area (up_areas a) st))
               else Some (say (''    Request forwarded to uplink: '' @ znfp1 (up_node a))
                            (request env (znfp1 (up_node a)) a CHR ''+'' (up_areas a) st)) }) })"

fun forward_loop :: "afenv \<Rightarrow> uplink list \<Rightarrow> nat \<Rightarrow> afstate \<Rightarrow> (nat \<times> afstate) option" where
  "forward_loop env [] n st = Some (n, st)"
| "forward_loop env (a # as) n st =
     (case uplink_line a of
        None \<Rightarrow> None
      | Some _ \<Rightarrow>
          (if areasbbs_lookup (Some (up_areas a)) (fx_areas st) \<noteq> None \<or> is_wildcard (up_areas a)
           then forward_loop env as n st
           else (case forward_one env a st of None \<Rightarrow> None | Some st \<Rightarrow> forward_loop env as (Suc n) st)))"

definition cmd_sub :: "afenv \<Rightarrow> cstring \<Rightarrow> afstate \<Rightarrow> (int \<times> afstate) option" where
  "cmd_sub env name st =
     (case sub_present env True name st of
        None \<Rightarrow> None
      | Some (Some r, _, st) \<Rightarrow> Some (r, st)
      | Some (None, n, st) \<Rightarrow> do {
          (n, st) \<leftarrow> (if is_wildcard name \<or> n = 0
                     then do { hits \<leftarrow> uplinks_lookup (af_files env) (af_mode env) name (af_uplinks env);
                               forward_loop env hits n st }
                     else Some (n, st));
          Some (0, if n \<noteq> 0
                   then (if is_wildcard name
                         then say (''* '' @ dec (int n) @ '' areas requested from pattern '' @ name) st else st)
                   else say (name @ '': no such area, or no area matching pattern'' @ crlf_text @
                             ''    No uplink found to forward this request'') st) })"

subsection \<open>UNSUBSCRIBE\<close>

definition unsub_link :: "afenv \<Rightarrow> areasbbs \<Rightarrow> afstate \<Rightarrow> (areasbbs option \<times> afstate) option" where
  "unsub_link env p st =
     (let nd = fx_node st;
          p = p\<lparr>ab_nodes := lon_remove (ab_nodes p) nd,
                ab_passive := (if lon_search (ab_passive p) nd then lon_remove (ab_passive p) nd else ab_passive p)\<rparr>;
          st = (say (pad 41 (ab_area p) @ '': unsubscribed'') (changed st))\<lparr>lim_g := lim_g st - 1\<rparr>
      in if lsize (ab_nodes p) = 1 \<and> ab_flags p AND AREASBBS_PASSTHRU \<noteq> 0 then
           (case uplinks_line_get (af_mode env) (hd (lnodes (ab_nodes p))) (af_uplinks env) of
              None \<Rightarrow> Some (None, st)
            | Some a \<Rightarrow> do {
                (_, s) \<leftarrow> areasbbs_chstate (ab_state p) (Some ''SWF'') CHR ''U'';
                Some (Some (p\<lparr>ab_state := s, ab_area := str_upper (ab_area p)\<rparr>),
                      request env (znfp1 (up_node a)) a CHR ''-'' (ab_area p) st) })
         else if lsize (ab_nodes p) = 0 \<and> ab_flags p AND AREASBBS_PASSTHRU \<noteq> 0 then Some (None, st)
         else Some (Some p, st))"

text \<open>One matching area: what is left of it, and the state.\<close>

definition unsub_one :: "afenv \<Rightarrow> bool \<Rightarrow> areasbbs \<Rightarrow> afstate \<Rightarrow> (areasbbs option \<times> afstate) option" where
  "unsub_one env iswild p st =
     (if lsize (ab_nodes p) < 1 then Some (None, dead_area p st)
      else if \<not> lon_search (ab_nodes p) (fx_node st) then
        Some (Some p, if (\<not> af_mode env \<or> ab_zone p = zone (fx_node st)) \<and> \<not> iswild
                      then say (pad 41 (ab_area p) @ '': not subscribed'') st else st)
      else unsub_link env p st)"

fun unsub_loop :: "afenv \<Rightarrow> bool \<Rightarrow> cstring \<Rightarrow> areasbbs list \<Rightarrow> bool \<Rightarrow> afstate
    \<Rightarrow> (bool \<times> areasbbs list \<times> afstate) option" where
  "unsub_loop env iswild name [] m st = Some (m, [], st)"
| "unsub_loop env iswild name (p # ps) m st =
     (case wildmatch (ab_area p) name 1 of
        None \<Rightarrow> None
      | Some False \<Rightarrow> map_option (\<lambda>(m, l, st). (m, p # l, st)) (unsub_loop env iswild name ps m st)
      | Some True \<Rightarrow>
          (case unsub_one env iswild p st of
             None \<Rightarrow> None
           | Some (r, st) \<Rightarrow>
               map_option (\<lambda>(m, l, st). (m, (case r of None \<Rightarrow> l | Some p \<Rightarrow> p # l), st)) (unsub_loop env iswild name ps True st)))"

definition cmd_unsub :: "afenv \<Rightarrow> cstring \<Rightarrow> afstate \<Rightarrow> afstate option" where
  "cmd_unsub env name st =
     (if \<not> authorized st then Some (say ''Command UNSUBSCRIBE: not authorized.'' st)
      else
        (let iswild = CHR ''*'' \<in> set name \<or> CHR ''?'' \<in> set name
         in case unsub_loop env iswild name (ab_list (fx_areas st)) False st of
              None \<Rightarrow> None
            | Some (m, l, st) \<Rightarrow>
                Some (set_list l (if m then st
                       else say (pad 41 name @ (if iswild then '': no area matching pattern'' else '': no such area'')) st))))"

subsection \<open>DELETE\<close>

fun delete_loop :: "cstring \<Rightarrow> areasbbs list \<Rightarrow> bool \<Rightarrow> afstate \<Rightarrow> (bool \<times> areasbbs list \<times> afstate) option" where
  "delete_loop name [] m st = Some (m, [], st)"
| "delete_loop name (p # ps) m st =
     (case wildmatch (ab_area p) name 1 of
        None \<Rightarrow> None
      | Some False \<Rightarrow> map_option (\<lambda>(m, l, st). (m, p # l, st)) (delete_loop name ps m st)
      | Some True \<Rightarrow> delete_loop name ps True (say (pad 41 name @ '': delete'') st))"

definition cmd_delete :: "cstring \<Rightarrow> afstate \<Rightarrow> afstate option" where
  "cmd_delete name st =
     (if \<not> auth_delete st then Some (say ''Command DELETE: not authorized.'' st)
      else
        (case delete_loop name (ab_list (fx_areas st)) False st of
           None \<Rightarrow> None
         | Some (m, l, st) \<Rightarrow>
             Some (if m then changed (set_list l st)
                   else say (pad 41 name @ '': area does not exist, can't delete'') (set_list l st))))"

subsection \<open>PASSIVE and ACTIVE\<close>

text \<open>One area; the flag tells to stop.\<close>

definition passive_one :: "afenv \<Rightarrow> areasbbs \<Rightarrow> afstate \<Rightarrow> (bool \<times> areasbbs \<times> afstate) option" where
  "passive_one env p st =
     (let nd = fx_node st
      in if \<not> (lon_search (ab_nodes p) nd \<and> lsize (ab_nodes p) > 1 \<and> \<not> lon_search (ab_passive p) nd) then Some (False, p, st)
         else do {
           (stop, p, st) \<leftarrow>
             (if lsize (ab_nodes p) \<le> 2 then
                (case uplinks_line_get (af_mode env) (hd (lnodes (ab_nodes p))) (af_uplinks env) of
                   None \<Rightarrow> Some (True, p, st)
                 | Some a \<Rightarrow> do {
                     let st = request env (znfp1 (up_node a)) a CHR ''-'' (ab_area p) st;
                     let p = p\<lparr>ab_area := str_upper (ab_area p), ab_time := af_now env\<rparr>;
                     s \<leftarrow> (if ab_state p \<noteq> None \<and> (areasbbs_isstate (ab_state p) CHR ''W'' \<or>
                              areasbbs_isstate (ab_state p) CHR ''F'' \<or> areasbbs_isstate (ab_state p) CHR ''S'')
                           then map_option snd (areasbbs_chstate (ab_state p) (Some ''WFS'') CHR ''P'')
                           else Some (ab_state p));
                     Some (False, p\<lparr>ab_state := s\<rparr>, st) })
              else Some (False, p, st));
           if stop then Some (True, p, st)
           else Some (False, p\<lparr>ab_nodes := lon_remove (ab_nodes p) nd, ab_passive := lon_add (ab_passive p) nd\<rparr>,
                      say (pad 41 (ab_area p) @ '': set passive'') (changed st)) })"

definition active_one :: "afenv \<Rightarrow> areasbbs \<Rightarrow> afstate \<Rightarrow> (bool \<times> areasbbs \<times> afstate) option" where
  "active_one env p st =
     (let nd = fx_node st
      in if \<not> lon_search (ab_passive p) nd then
           Some (False, p, if lon_search (ab_nodes p) nd then say (pad 41 (ab_area p) @ '': already active'') st else st)
         else if lon_search (ab_nodes p) nd then Some (False, p, st)
         else do {
           (stop, p, st) \<leftarrow>
             (if lsize (ab_nodes p) = 1 \<and> \<not> node_eq (hd (lnodes (ab_nodes p))) nd then
                (case uplinks_line_get (af_mode env) (hd (lnodes (ab_nodes p))) (af_uplinks env) of
                   None \<Rightarrow> Some (True, p, st)
                 | Some a \<Rightarrow> do {
                     let st = request env (znfp1 (up_node a)) a CHR ''+'' (ab_area p) st;
                     let p = p\<lparr>ab_area := str_upper (ab_area p)\<rparr>;
                     s \<leftarrow> (if areasbbs_isstate (ab_state p) CHR ''P'' \<or> areasbbs_isstate (ab_state p) CHR ''U''
                           then map_option snd (areasbbs_chstate (ab_state p) (Some ''P'') CHR ''W'')
                           else Some (ab_state p));
                     Some (False, p\<lparr>ab_state := s\<rparr>, st) })
              else Some (False, p, st));
           if stop then Some (True, p, st)
           else Some (False, p\<lparr>ab_passive := lon_remove (ab_passive p) nd, ab_nodes := lon_add (ab_nodes p) nd\<rparr>,
                      say (pad 41 (ab_area p) @ '': set active'') (changed st)) })"

fun each_area :: "(areasbbs \<Rightarrow> afstate \<Rightarrow> (bool \<times> areasbbs \<times> afstate) option) \<Rightarrow> cstring \<Rightarrow> areasbbs list \<Rightarrow> afstate
    \<Rightarrow> (areasbbs list \<times> afstate) option" where
  "each_area step name [] st = Some ([], st)"
| "each_area step name (p # ps) st = do {
     m \<leftarrow> (if name = [] then Some True else wildmatch (ab_area p) name 1);
     (stop, p, st) \<leftarrow> (if m then step p st else Some (False, p, st));
     if stop then Some (p # ps, st)
     else map_option (\<lambda>(l, st). (p # l, st)) (each_area step name ps st) }"

definition cmd_passive :: "afenv \<Rightarrow> cstring \<Rightarrow> afstate \<Rightarrow> afstate option" where
  "cmd_passive env name st =
     (if \<not> authorized st then Some (say ''Command PASSIVE: not authorized.'' st)
      else map_option (\<lambda>(l, st). set_list l st) (each_area (passive_one env) name (ab_list (fx_areas st)) st))"

definition cmd_active :: "afenv \<Rightarrow> cstring \<Rightarrow> afstate \<Rightarrow> afstate option" where
  "cmd_active env name st =
     (if \<not> authorized st then Some (say ''Command ACTIVE: not authorized.'' st)
      else map_option (\<lambda>(l, st). set_list l st) (each_area (active_one env) name (ab_list (fx_areas st)) st))"

subsection \<open>A command line\<close>

datatype af_cmd = Cmd_list | Cmd_query | Cmd_unlinked | Cmd_sub | Cmd_unsub | Cmd_help | Cmd_passwd | Cmd_listall
  | Cmd_new | Cmd_delete | Cmd_passive | Cmd_active | Cmd_avail

definition cmd_words :: "(cstring \<times> af_cmd) list" where
  "cmd_words =
     [(''list'', Cmd_list), (''query'', Cmd_query), (''unlinked'', Cmd_unlinked), (''subscribe'', Cmd_sub),
      (''sub'', Cmd_sub), (''unsubscribe'', Cmd_unsub), (''unsub'', Cmd_unsub), (''help'', Cmd_help),
      (''passwd'', Cmd_passwd), (''password'', Cmd_passwd), (''from'', Cmd_passwd), (''listall'', Cmd_listall),
      (''new'', Cmd_new), (''create'', Cmd_new), (''delete'', Cmd_delete), (''passive'', Cmd_passive),
      (''pause'', Cmd_passive), (''active'', Cmd_active), (''resume'', Cmd_active), (''avail'', Cmd_avail)]"

text \<open>The command of a line without the percent sign, and its argument.\<close>

definition cmd_of :: "cstring \<Rightarrow> (af_cmd \<times> cstring) option" where
  "cmd_of text =
     (if peek text = CHR ''+'' then Some (Cmd_sub, tl text)
      else if peek text = CHR ''-'' then Some (Cmd_unsub, tl text)
      else if peek text = CHR ''&'' then Some (Cmd_new, tl text)
      else if peek text = CHR ''~'' then Some (Cmd_delete, tl text)
      else
        (let buf = take 31 (takeWhile (\<lambda>c. \<not> is_space c) text)
         in map_option (\<lambda>kv. (snd kv, drop (length buf) text)) (List.find (\<lambda>kv. stricmp buf (fst kv) = 0) cmd_words)))"

text \<open>A line that is no command is the name of an area to subscribe to; \<open>Inl\<close> is the text of a refusal.\<close>

definition parse_cmd_line :: "config \<Rightarrow> cstring \<Rightarrow> cstring + (af_cmd \<times> cstring)" where
  "parse_cmd_line cf text =
     (let percent = (peek text = CHR ''%'');
          text = (if percent then tl text else text);
          buf = take 31 (takeWhile (\<lambda>c. \<not> is_space c) text)
      in case cmd_of text of
           Some (cmd, arg) \<Rightarrow> Inr (cmd, dropWhile is_space arg)
         | None \<Rightarrow>
             if percent then Inl (''Unknown command %'' @ buf)
             else if cfg cf ''AreaFixSubscribeOnlyIfPlus'' = None then Inr (Cmd_sub, dropWhile is_space text)
             else Inl (''Unknown command '' @ buf))"

definition areafix_do_cmd :: "afenv \<Rightarrow> fnode \<Rightarrow> target \<Rightarrow> cstring \<Rightarrow> afstate \<Rightarrow> afstate option" where
  "areafix_do_cmd env junk out text st =
     (let st = st\<lparr>fx_target := out\<rparr>
      in case parse_cmd_line (fx_cf st) text of
           Inl t \<Rightarrow> Some (say t st)
         | Inr (cmd, arg) \<Rightarrow>
             (case cmd of
                Cmd_list \<Rightarrow> Some (cmd_list env True st)
              | Cmd_query \<Rightarrow> Some (cmd_query st)
              | Cmd_unlinked \<Rightarrow> Some (cmd_unlinked env st)
              | Cmd_sub \<Rightarrow> map_option snd (cmd_sub env arg st)
              | Cmd_unsub \<Rightarrow> cmd_unsub env arg st
              | Cmd_help \<Rightarrow> cmd_help env st
              | Cmd_passwd \<Rightarrow> cmd_passwd env junk arg st
              | Cmd_listall \<Rightarrow> Some (cmd_listall env st)
              | Cmd_new \<Rightarrow> map_option snd (cmd_new env (fx_node st) arg None False st)
              | Cmd_delete \<Rightarrow> cmd_delete arg st
              | Cmd_passive \<Rightarrow> cmd_passive env arg st
              | Cmd_active \<Rightarrow> cmd_active env arg st
              | Cmd_avail \<Rightarrow> Some (cmd_list env False st)))"

subsection \<open>A mail to the manager\<close>

text \<open>A line without its end and trailing white space; what follows a signature is not read.\<close>

definition mail_text :: "cstring \<Rightarrow> cstring" where
  "mail_text l = rev (dropWhile is_space (rev (chomp l)))"

fun areafix_lines :: "afenv \<Rightarrow> fnode \<Rightarrow> target \<Rightarrow> cstring list \<Rightarrow> afstate \<Rightarrow> afstate option" where
  "areafix_lines env junk out [] st = Some st"
| "areafix_lines env junk out (l # ls) st =
     (let p = mail_text l; q = dropWhile is_space p
      in if take 3 p = '' * '' then areafix_lines env junk out ls st
         else if take 2 p = ''--'' then Some st
         else if q = [] then areafix_lines env junk out ls st
         else (case areafix_do_cmd env junk out q st of None \<Rightarrow> None | Some st \<Rightarrow> areafix_lines env junk out ls st))"

text \<open>The subject holds the password and the options \<open>-q\<close> and \<open>-l\<close>.\<close>

definition subject_options :: "cstring \<Rightarrow> cstring option \<times> bool \<times> bool" where
  "subject_options subj =
     (let (pw, l) = strtok_r (Some subj) WS None;
          opts = (case l of None \<Rightarrow> [] | Some s \<Rightarrow> tokens ch_nul WS s)
      in (pw, list_ex (\<lambda>q. stricmp q ''-q'' = 0) opts, list_ex (\<lambda>q. stricmp q ''-l'' = 0) opts))"

text \<open>Everything in front of \<open>send_request\<close>.\<close>

definition areafix_commands :: "afenv \<Rightarrow> fnode \<Rightarrow> bool \<Rightarrow> cstring \<Rightarrow> cstring list \<Rightarrow> afstate \<Rightarrow> afstate option" where
  "areafix_commands env junk mail subj ls st =
     (let (pw, q_flag, l_flag) = subject_options subj;
          st = areafix_auth_check env (fx_node st) pw True (areafix_auth_init st);
          st = (if (q_flag \<or> l_flag) \<and> mail then st\<lparr>fx_target := To_mail\<rparr> else st);
          st = (if q_flag then cmd_query st else st);
          st = (if l_flag then cmd_list env True st else st)
      in areafix_lines env junk (if mail then To_mail else To_stdout) ls (st\<lparr>fx_upl := []\<rparr>))"

subsection \<open>The requests as mails\<close>

definition substring :: "cstring \<Rightarrow> cstring \<Rightarrow> bool" where
  "substring w s \<longleftrightarrow> list_ex (\<lambda>k. take (length w) (drop k s) = w) [0..<Suc (length s)]"

definition request_addr :: "cstring \<Rightarrow> cstring option" where
  "request_addr l = fst (xstrtok (Some l) '','' None)"

text \<open>
  One pass over the requests: the first address that is no part of the text \<open>links\<close> of those already handled is
  taken, and the requests for it are collected.  \<open>None\<close>: the text runs over its array.
\<close>

fun collect :: "cstring list \<Rightarrow> cbuf \<Rightarrow> cstring option \<Rightarrow> cstring list \<Rightarrow> (cbuf \<times> cstring option \<times> cstring list) option" where
  "collect [] links link out = Some (links, link, out)"
| "collect (t # ts) links link out =
     (case request_addr t of
        None \<Rightarrow> collect ts links link out
      | Some w \<Rightarrow>
          (case (if link = None \<and> \<not> substring w (cstr links)
                 then map_option (\<lambda>b. (b, Some w)) (str_append2 links BUFSIZ w '','')
                 else Some (links, link)) of
             None \<Rightarrow> None
           | Some (links, link) \<Rightarrow> collect ts links link (if link = Some w then out @ [t] else out)))"

record request_msg =
  rq_from :: fnode
  rq_to :: fnode
  rq_name_to :: cstring
  rq_name_from :: cstring
  rq_subject :: cstring
  rq_lines :: "cstring list"

text \<open>The text behind the last comma.\<close>

definition last_field :: "cstring \<Rightarrow> cstring" where
  "last_field s = rev (takeWhile (\<lambda>c. c \<noteq> CHR '','') (rev s))"

text \<open>The mail: \<open>None\<close> for a missing field, or a configuration without an address.\<close>

definition request_mail :: "config \<Rightarrow> cstring list \<Rightarrow> (request_msg \<times> config) option" where
  "request_mail cf out =
     (case out of
        [] \<Rightarrow> None
      | t # ts \<Rightarrow>
          (case tokens ch_dquote '','' t of
             a # nt # nf # sj # l # _ \<Rightarrow>
               (let to_node = snd (asc_to_node (cf_defzone cf) a (mk_node 0 0 0 0) False)
                in map_option (\<lambda>cf. (\<lparr>rq_from = cf_addr cf, rq_to = to_node, rq_name_to = take (NAMEBUFSIZE - 1) nt,
                       rq_name_from = take (NAMEBUFSIZE - 1) nf, rq_subject = take (SUBJBUFSIZE - 1) sj,
                       rq_lines = take 4095 (crlf_text @ l) # map last_field ts\<rparr>, cf))
                     (cf_set_best (zone to_node) (net to_node) (node to_node) cf))
           | _ \<Rightarrow> None))"

fun request_loop :: "nat \<Rightarrow> config \<Rightarrow> cstring list \<Rightarrow> cbuf \<Rightarrow> (request_msg list \<times> config) option" where
  "request_loop 0 cf upl links = None"
| "request_loop (Suc k) cf upl links =
     (case collect upl links None [] of
        None \<Rightarrow> None
      | Some (links, None, out) \<Rightarrow> Some ([], cf)
      | Some (links, Some w, out) \<Rightarrow>
          (case request_mail cf out of
             None \<Rightarrow> None
           | Some (m, cf) \<Rightarrow> map_option (\<lambda>(ms, cf). (m # ms, cf)) (request_loop k cf upl links)))"

text \<open>A pass more than there are requests is enough.\<close>

definition send_request :: "config \<Rightarrow> cstring list \<Rightarrow> (request_msg list \<times> config) option" where
  "send_request cf upl = request_loop (Suc (length upl)) cf upl (replicate BUFSIZ ch_nul)"

text \<open>The state and the mails that go to the uplinks.\<close>

definition areafix_do :: "afenv \<Rightarrow> fnode \<Rightarrow> bool \<Rightarrow> cstring \<Rightarrow> cstring list \<Rightarrow> afstate \<Rightarrow> (afstate \<times> request_msg list) option" where
  "areafix_do env junk mail subj ls st = do {
     st \<leftarrow> areafix_commands env junk mail subj ls st;
     (ms, cf) \<leftarrow> send_request (fx_cf st) (fx_upl st);
     Some (st\<lparr>fx_cf := cf\<rparr>, ms) }"

end
