(* ===== verification/Areafix_Laws.thy ===== *)
theory Areafix_Laws
  imports Areafix
begin

text \<open>
  What the area manager guarantees: who can change the area table, that the table stays well formed, what
  UNSUBSCRIBE does, and that every request reaches the uplink.
\<close>

subsection \<open>Replies\<close>

definition replied :: "afstate \<Rightarrow> afstate \<Rightarrow> bool" where
  "replied st st' \<longleftrightarrow> st' = st\<lparr>fx_reply := fx_reply st', fx_stdout := fx_stdout st'\<rparr>"

lemma replied_refl [intro, simp]: "replied st st"
  by (simp add: replied_def)

lemma replied_trans: "replied a b \<Longrightarrow> replied b c \<Longrightarrow> replied a c"
  unfolding replied_def by (cases a, cases b, cases c) simp

lemma replied_say [simp, intro]: "replied st (say t st)"
  unfolding replied_def say_def by (cases "fx_target st") simp_all

lemma replied_say_all [simp, intro]: "replied st (say_all ts st)"
  unfolding say_all_def by (induction ts arbitrary: st) (auto intro: replied_trans)

lemma replied_say_formats: "say_formats fs st = Some st' \<Longrightarrow> replied st st'"
  by (induction fs st rule: say_formats.induct) (auto split: option.splits intro: replied_trans)

lemma replied_fields:
  assumes "replied st st'"
  shows "fx_areas st' = fx_areas st" "fx_cf st' = fx_cf st" "fx_node st' = fx_node st" "fx_target st' = fx_target st"
    "fx_upl st' = fx_upl st" "fx_rules st' = fx_rules st" "fx_log st' = fx_log st" "authorized st' = authorized st"
    "auth_lvl st' = auth_lvl st" "auth_key st' = auth_key st" "auth_cmdline st' = auth_cmdline st"
    "auth_new st' = auth_new st" "auth_fwd st' = auth_fwd st" "auth_delete st' = auth_delete st"
    "auth_listall st' = auth_listall st" "lim_A st' = lim_A st" "lim_G st' = lim_G st" "lim_g st' = lim_g st"
  using assms unfolding replied_def by (cases st, cases st', simp)+

lemmas say_fields [simp] = replied_fields [OF replied_say]
lemmas say_all_fields [simp] = replied_fields [OF replied_say_all]

subsection \<open>Commands without authorization\<close>

text \<open>The work of the manager and the rights of the sender are as before.\<close>

definition untouched :: "afstate \<Rightarrow> afstate \<Rightarrow> bool" where
  "untouched st st' \<longleftrightarrow> fx_areas st' = fx_areas st \<and> fx_upl st' = fx_upl st \<and> fx_rules st' = fx_rules st \<and>
     fx_log st' = fx_log st \<and> authorized st' = authorized st \<and> auth_delete st' = auth_delete st"

lemma untouched_refl [simp]: "untouched st st"
  by (simp add: untouched_def)

lemma untouched_trans: "untouched a b \<Longrightarrow> untouched b c \<Longrightarrow> untouched a c"
  by (simp add: untouched_def)

lemma untouched_replied: "replied st st' \<Longrightarrow> untouched st st'"
  by (simp add: untouched_def replied_fields)

lemma untouched_say [simp]: "untouched st (say t st)"
  by (rule untouched_replied) simp

lemma untouched_target: "untouched (st\<lparr>fx_target := out\<rparr>) st' \<Longrightarrow> untouched st st'"
  by (simp add: untouched_def)

lemma cmd_help_untouched: "cmd_help env st = Some st' \<Longrightarrow> untouched st st'"
  by (rule untouched_replied) (auto simp: cmd_help_def Let_def split: option.splits dest: replied_say_formats)

lemma areafix_do_cmd_cases:
  assumes "areafix_do_cmd env junk out text st = Some st'"
  obtains (refused) t where "parse_cmd_line (fx_cf st) text = Inl t" "st' = say t (st\<lparr>fx_target := out\<rparr>)"
  | (shown) s where "replied (st\<lparr>fx_target := out\<rparr>) s" "untouched s st'" "fx_node st' = fx_node st"
  | (subs) arg ret where "parse_cmd_line (fx_cf st) text = Inr (Cmd_sub, arg)" "cmd_sub env arg (st\<lparr>fx_target := out\<rparr>) = Some (ret, st')"
  | (unsubs) arg where "parse_cmd_line (fx_cf st) text = Inr (Cmd_unsub, arg)" "cmd_unsub env arg (st\<lparr>fx_target := out\<rparr>) = Some st'"
  | (passwds) arg where "parse_cmd_line (fx_cf st) text = Inr (Cmd_passwd, arg)" "cmd_passwd env junk arg (st\<lparr>fx_target := out\<rparr>) = Some st'"
  | (news) arg ret where "parse_cmd_line (fx_cf st) text = Inr (Cmd_new, arg)"
      "cmd_new env (fx_node st) arg None False (st\<lparr>fx_target := out\<rparr>) = Some (ret, st')"
  | (deletes) arg where "parse_cmd_line (fx_cf st) text = Inr (Cmd_delete, arg)" "cmd_delete arg (st\<lparr>fx_target := out\<rparr>) = Some st'"
  | (passives) arg where "parse_cmd_line (fx_cf st) text = Inr (Cmd_passive, arg)" "cmd_passive env arg (st\<lparr>fx_target := out\<rparr>) = Some st'"
  | (actives) arg where "parse_cmd_line (fx_cf st) text = Inr (Cmd_active, arg)" "cmd_active env arg (st\<lparr>fx_target := out\<rparr>) = Some st'"
proof (cases "parse_cmd_line (fx_cf st) text")
  case (Inl t)
  then show ?thesis using assms refused by (simp add: areafix_do_cmd_def)
next
  case (Inr r)
  obtain cmd arg where r: "r = (cmd, arg)" by (cases r)
  define s where "s = st\<lparr>fx_target := out\<rparr>"
  have ca: "areafix_do_cmd env junk out text st = (case cmd of
                Cmd_list \<Rightarrow> Some (cmd_list env True s)
              | Cmd_query \<Rightarrow> Some (cmd_query s)
              | Cmd_unlinked \<Rightarrow> Some (cmd_unlinked env s)
              | Cmd_sub \<Rightarrow> map_option snd (cmd_sub env arg s)
              | Cmd_unsub \<Rightarrow> cmd_unsub env arg s
              | Cmd_help \<Rightarrow> cmd_help env s
              | Cmd_passwd \<Rightarrow> cmd_passwd env junk arg s
              | Cmd_listall \<Rightarrow> Some (cmd_listall env s)
              | Cmd_new \<Rightarrow> map_option snd (cmd_new env (fx_node s) arg None False s)
              | Cmd_delete \<Rightarrow> cmd_delete arg s
              | Cmd_passive \<Rightarrow> cmd_passive env arg s
              | Cmd_active \<Rightarrow> cmd_active env arg s
              | Cmd_avail \<Rightarrow> Some (cmd_list env False s))"
    unfolding areafix_do_cmd_def Let_def s_def [symmetric] by (simp add: Inr r s_def)
  have lst: "untouched s (cmd_list env f s) \<and> fx_node (cmd_list env f s) = fx_node st" for f
    by (simp add: cmd_list_def Let_def untouched_def s_def)
  have rest: "untouched s (cmd_query s) \<and> fx_node (cmd_query s) = fx_node st"
    "untouched s (cmd_unlinked env s) \<and> fx_node (cmd_unlinked env s) = fx_node st"
    "untouched s (cmd_listall env s) \<and> fx_node (cmd_listall env s) = fx_node st"
    by (simp_all add: cmd_query_def cmd_unlinked_def cmd_listall_def Let_def untouched_def s_def)
  have hlp: "untouched s st' \<and> fx_node st' = fx_node st" if "cmd_help env s = Some st'"
  proof -
    have "replied s st'" using that by (auto simp: cmd_help_def Let_def split: option.splits dest: replied_say_formats)
    then show ?thesis using replied_fields(3) untouched_replied by (fastforce simp: s_def)
  qed
  have sh: "replied (st\<lparr>fx_target := out\<rparr>) s" by (simp add: s_def)
  show ?thesis
  proof (cases cmd)
    case Cmd_list
    then show ?thesis using assms ca lst shown [OF sh] by auto
  next
    case Cmd_avail
    then show ?thesis using assms ca lst shown [OF sh] by auto
  next
    case Cmd_query
    then show ?thesis using assms ca rest shown [OF sh] by auto
  next
    case Cmd_unlinked
    then show ?thesis using assms ca rest shown [OF sh] by auto
  next
    case Cmd_listall
    then show ?thesis using assms ca rest shown [OF sh] by auto
  next
    case Cmd_help
    then show ?thesis using assms ca hlp shown [OF sh] by auto
  next
    case Cmd_sub
    then show ?thesis using assms ca subs Inr r s_def by auto
  next
    case Cmd_unsub
    then show ?thesis using assms ca unsubs Inr r s_def by auto
  next
    case Cmd_passwd
    then show ?thesis using assms ca passwds Inr r s_def by auto
  next
    case Cmd_new
    then show ?thesis using assms ca news Inr r s_def by auto
  next
    case Cmd_delete
    then show ?thesis using assms ca deletes Inr r s_def by auto
  next
    case Cmd_passive
    then show ?thesis using assms ca passives Inr r s_def by auto
  next
    case Cmd_active
    then show ?thesis using assms ca actives Inr r s_def by auto
  qed
qed

text \<open>Which command a line gives does not depend on the configuration, but for the default.\<close>

definition asks :: "af_cmd \<Rightarrow> cstring \<Rightarrow> bool" where
  "asks cmd text = (case cmd_of (if peek text = CHR ''%'' then tl text else text) of Some (c, _) \<Rightarrow> c = cmd | None \<Rightarrow> False)"

lemma asks_parse: "parse_cmd_line cf text = Inr (cmd, arg) \<Longrightarrow> cmd \<noteq> Cmd_sub \<Longrightarrow> asks cmd text"
  by (auto simp: asks_def parse_cmd_line_def Let_def split: if_splits option.splits prod.splits)

lemma unauthorized_cmd:
  assumes "areafix_do_cmd env junk out text st = Some st'" "\<not> authorized st"
    and "\<not> asks Cmd_passwd text" "asks Cmd_delete text \<longrightarrow> \<not> auth_delete st"
  shows "untouched st st'"
  using assms(1)
proof (cases rule: areafix_do_cmd_cases)
  case (shown s)
  show ?thesis by (rule untouched_target, rule untouched_trans, rule untouched_replied, rule shown(1), rule shown(2))
next
  case (passwds arg)
  show ?thesis using assms(3) asks_parse [OF passwds(1)] by simp
next
  case (deletes arg)
  have "\<not> auth_delete st" using assms(4) asks_parse [OF deletes(1)] by simp
  then show ?thesis using deletes(2) by - (rule untouched_target [where out = out], auto simp: cmd_delete_def)
next
  case (refused t)
  show ?thesis unfolding refused(2) by (rule untouched_target, rule untouched_say)
next
  case (subs arg ret)
  then show ?thesis using assms(2) by - (rule untouched_target [where out = out], auto simp: cmd_sub_def sub_present_def)
next
  case (unsubs arg)
  then show ?thesis using assms(2) by - (rule untouched_target [where out = out], auto simp: cmd_unsub_def)
next
  case (news arg ret)
  then show ?thesis using assms(2) by - (rule untouched_target [where out = out], auto simp: cmd_new_def)
next
  case (passives arg)
  then show ?thesis using assms(2) by - (rule untouched_target [where out = out], auto simp: cmd_passive_def)
next
  case (actives arg)
  then show ?thesis using assms(2) by - (rule untouched_target [where out = out], auto simp: cmd_active_def)
qed

text \<open>The command in a line of the mail.\<close>

definition command_text :: "cstring \<Rightarrow> cstring" where
  "command_text l = dropWhile is_space (mail_text l)"

lemma areafix_lines_Cons:
  "areafix_lines env junk out (l # ls) st =
     (if take 3 (mail_text l) = '' * '' then areafix_lines env junk out ls st
      else if take 2 (mail_text l) = ''--'' then Some st
      else if command_text l = [] then areafix_lines env junk out ls st
      else (case areafix_do_cmd env junk out (command_text l) st of
              None \<Rightarrow> None | Some st \<Rightarrow> areafix_lines env junk out ls st))"
  by (simp only: areafix_lines.simps command_text_def Let_def)

declare areafix_lines.simps(2) [simp del]

lemma unauthorized_lines:
  assumes "areafix_lines env junk out ls st = Some st'" "\<not> authorized st"
    and "list_all (\<lambda>l. \<not> asks Cmd_passwd (command_text l) \<and> (asks Cmd_delete (command_text l) \<longrightarrow> \<not> auth_delete st)) ls"
  shows "untouched st st'"
  using assms
proof (induction ls arbitrary: st)
  case (Cons l ls)
  show ?case
  proof (cases "take 3 (mail_text l) = '' * '' \<or> take 2 (mail_text l) = ''--'' \<or> command_text l = []")
    case True
    then show ?thesis using Cons by (auto simp: areafix_lines_Cons split: if_splits)
  next
    case False
    then obtain s where s: "areafix_do_cmd env junk out (command_text l) st = Some s" "areafix_lines env junk out ls s = Some st'"
      using Cons.prems(1) by (auto simp: areafix_lines_Cons split: option.splits)
    then have u: "untouched st s" using unauthorized_cmd [OF s(1)] Cons.prems by simp
    then show ?thesis
      using Cons.IH [OF s(2)] Cons.prems untouched_trans by (auto simp: untouched_def)
  qed
qed simp

lemma auth_limits_fields:
  "fx_areas (auth_limits p st) = fx_areas st" "fx_rules (auth_limits p st) = fx_rules st" "fx_log (auth_limits p st) = fx_log st"
  "authorized (auth_limits p st) = authorized st" "auth_key (auth_limits p st) = auth_key st"
  "auth_delete (auth_limits p st) = auth_delete st" "fx_node (auth_limits p st) = fx_node st" "fx_cf (auth_limits p st) = fx_cf st"
  by (cases p; simp add: auth_limits_def Let_def split: option.split prod.split)+

lemma auth_args_fields:
  "fx_areas (auth_args env pw st) = fx_areas st" "fx_rules (auth_args env pw st) = fx_rules st" "fx_log (auth_args env pw st) = fx_log st"
  "authorized (auth_args env pw st) = authorized st" "auth_delete (auth_args env pw st) = auth_delete st"
  "fx_node (auth_args env pw st) = fx_node st" "fx_cf (auth_args env pw st) = fx_cf st"
  by (simp_all add: auth_args_def Let_def auth_limits_fields split_beta split: option.split)

definition password_given :: "afenv \<Rightarrow> fnode \<Rightarrow> cstring option \<Rightarrow> bool" where
  "password_given env nd pw =
     (case (pw, passwd_lookup (af_context env) nd (af_passwd env)) of
        (Some w, Some p) \<Rightarrow> stricmp w (pw_passwd p) = 0 | _ \<Rightarrow> False)"

lemma auth_check_fields:
  "fx_areas (areafix_auth_check env nd pw ck st) = fx_areas st" "fx_rules (areafix_auth_check env nd pw ck st) = fx_rules st"
  "fx_log (areafix_auth_check env nd pw ck st) = fx_log st" "fx_node (areafix_auth_check env nd pw ck st) = fx_node st"
  "fx_cf (areafix_auth_check env nd pw ck st) = fx_cf st"
  "authorized (areafix_auth_check env nd pw True st) = password_given env nd pw"
  by (auto simp: areafix_auth_check_def auth_keys_def auth_args_fields areafix_auth_init_def Let_def password_given_def
      split: option.split)

text \<open>The state in which the lines of the mail are read.\<close>

lemma areafix_do_start:
  assumes "areafix_do env junk mail subj ls st = Some (st', ms)"
  obtains s t where "areafix_lines env junk (if mail then To_mail else To_stdout) ls s = Some t"
    "st' = t\<lparr>fx_cf := fx_cf st'\<rparr>" "send_request (fx_cf t) (fx_upl t) = Some (ms, fx_cf st')"
    "fx_areas s = fx_areas st" "fx_rules s = fx_rules st" "fx_log s = fx_log st" "fx_upl s = []"
    "fx_node s = fx_node st"
    "authorized s = password_given env (fx_node st) (fst (strtok_r (Some subj) WS None))"
    "auth_delete s = auth_delete (areafix_auth_check env (fx_node st) (fst (strtok_r (Some subj) WS None)) True (areafix_auth_init st))"
proof -
  obtain u where u: "areafix_commands env junk mail subj ls st = Some u" "st' = u\<lparr>fx_cf := fx_cf st'\<rparr>"
    "send_request (fx_cf u) (fx_upl u) = Some (ms, fx_cf st')"
    using assms by (auto simp: areafix_do_def split: bind_splits)
  obtain pw q l where o: "subject_options subj = (pw, q, l)" by (metis prod_cases3)
  then have pw: "fst (strtok_r (Some subj) WS None) = pw" by (auto simp: subject_options_def Let_def split: prod.splits)
  define s0 where "s0 = areafix_auth_check env (fx_node st) pw True (areafix_auth_init st)"
  have n: "fx_areas (areafix_auth_init st) = fx_areas st" "fx_node (areafix_auth_init st) = fx_node st"
    "fx_rules (areafix_auth_init st) = fx_rules st" "fx_log (areafix_auth_init st) = fx_log st"
    by (simp_all add: areafix_auth_init_def)
  have s0: "fx_areas s0 = fx_areas st" "fx_rules s0 = fx_rules st" "fx_log s0 = fx_log st" "fx_node s0 = fx_node st"
    "authorized s0 = password_given env (fx_node st) pw"
    by (simp_all add: s0_def auth_check_fields n)
  define s1 where "s1 = (if (q \<or> l) \<and> mail then s0\<lparr>fx_target := To_mail\<rparr> else s0)"
  define t where "t = (if l then cmd_list env True (if q then cmd_query s1 else s1) else if q then cmd_query s1 else s1)"
  have fin: "areafix_lines env junk (if mail then To_mail else To_stdout) ls (t\<lparr>fx_upl := []\<rparr>) = Some u"
    unfolding t_def s1_def s0_def using u(1) unfolding areafix_commands_def o Let_def prod.case .
  have s1: "fx_areas s1 = fx_areas st" "fx_rules s1 = fx_rules st" "fx_log s1 = fx_log st" "fx_node s1 = fx_node st"
    "authorized s1 = password_given env (fx_node st) pw" "auth_delete s1 = auth_delete s0"
    using s0 by (simp_all add: s1_def)
  have qs: "fx_areas (cmd_query s) = fx_areas s \<and> fx_rules (cmd_query s) = fx_rules s \<and> fx_log (cmd_query s) = fx_log s \<and>
      fx_node (cmd_query s) = fx_node s \<and> authorized (cmd_query s) = authorized s \<and> auth_delete (cmd_query s) = auth_delete s" for s
    by (simp add: cmd_query_def Let_def)
  have lss: "fx_areas (cmd_list env True s) = fx_areas s \<and> fx_rules (cmd_list env True s) = fx_rules s \<and>
      fx_log (cmd_list env True s) = fx_log s \<and> fx_node (cmd_list env True s) = fx_node s \<and>
      authorized (cmd_list env True s) = authorized s \<and> auth_delete (cmd_list env True s) = auth_delete s" for s
    by (simp add: cmd_list_def Let_def)
  have "fx_areas t = fx_areas st \<and> fx_rules t = fx_rules st \<and> fx_log t = fx_log st \<and> fx_node t = fx_node st \<and>
      authorized t = password_given env (fx_node st) pw \<and> auth_delete t = auth_delete s0"
    by (simp add: t_def qs lss s1)
  then show ?thesis using that [OF fin u(2,3)] by (simp add: pw s0_def)
qed

text \<open>
  C35. A mail to the area manager whose subject does not start with the password of the sender,
  and without a PASSWD or DELETE command, changes nothing: the area table is as before, no
  request goes to an uplink, and no rules file or log entry is written.
\<close>

theorem areafix_needs_password:
  assumes "areafix_do env junk mail subj ls st = Some (st', ms)"
    and "\<not> password_given env (fx_node st) (fst (strtok_r (Some subj) WS None))"
    and "list_all (\<lambda>l. \<not> asks Cmd_passwd (command_text l) \<and> \<not> asks Cmd_delete (command_text l)) ls"
  shows "fx_areas st' = fx_areas st \<and> ms = [] \<and> fx_rules st' = fx_rules st \<and> fx_log st' = fx_log st"
proof -
  obtain s t where s: "areafix_lines env junk (if mail then To_mail else To_stdout) ls s = Some t"
    and t: "st' = t\<lparr>fx_cf := fx_cf st'\<rparr>" "send_request (fx_cf t) (fx_upl t) = Some (ms, fx_cf st')"
    and f: "fx_areas s = fx_areas st" "fx_rules s = fx_rules st" "fx_log s = fx_log st" "fx_upl s = []"
    and a: "authorized s = password_given env (fx_node st) (fst (strtok_r (Some subj) WS None))"
    using areafix_do_start [OF assms(1)] .
  have u: "untouched s t"
    by (rule unauthorized_lines [OF s]) (use a assms(2,3) in \<open>auto simp: list_all_iff\<close>)
  then have "ms = []" using f t(2) by (simp add: untouched_def send_request_def)
  moreover have "fx_areas st' = fx_areas t" "fx_rules st' = fx_rules t" "fx_log st' = fx_log t"
    by (subst t(1), simp)+
  ultimately show ?thesis using f u by (simp add: untouched_def)
qed

text \<open>A manager with one password, for a system that may delete areas.\<close>

definition afs_env :: afenv where
  "afs_env = \<lparr>af_mode = True, af_context = ''areafix'',
     af_passwd = [\<lparr>pw_context = ''areafix'', pw_node = mk_node 2 5020 7 0, pw_passwd = ''secret'', pw_args = Some ''1 ~''\<rparr>],
     af_uplinks = [], af_files = (\<lambda>f. None), af_stale = None, af_now = 0, af_log_ok = False,
     af_make_dir = (\<lambda>p d. True), af_listall = (\<lambda>n a u. [])\<rparr>"

definition afs_state :: afstate where
  "afs_state = \<lparr>fx_areas = sample_areas, fx_cf = scf_start, fx_node = mk_node 2 5020 7 0, fx_target = To_mail,
     fx_reply = [], fx_stdout = [], fx_upl = [], fx_rules = [], fx_log = [], authorized = False, auth_lvl = 0,
     auth_key = [], auth_name = [], auth_node = mk_node 0 0 0 0, auth_cmdline = False, auth_new = False, auth_fwd = False,
     auth_delete = False, auth_listall = False, lim_A = 0, lim_G = 0, lim_g = 0\<rparr>"

lemmas afs_defs = afs_env_def afs_state_def sample_areas_def sample_area_def areasbbs_new_def

lemma afs_word: "strtok_r (Some ''wrong'') WS None = (Some ''wrong'', None)"
  by (simp add: strtok_r_def strtok_r_ext_def WS_def)

lemma afs_subject: "subject_options ''wrong'' = (Some ''wrong'', False, False)"
  by (simp add: subject_options_def afs_word)

lemma afs_args: "xstrtok (Some ''1 ~'') WS None = (Some ''1'', Some ''~'')" "xstrtok None WS (Some ''~'') = (Some ''~'', None)"
    "xstrtok None WS None = (None, None)"
  by (simp_all add: xstrtok_def strtok_r_ext_def WS_def)

definition afs_checked :: afstate where
  "afs_checked = afs_state\<lparr>auth_lvl := 1, auth_key := ''~'', auth_name := ''Sysop'', auth_node := mk_node 2 5020 7 0,
     auth_delete := True, lim_A := -1, lim_G := -1\<rparr>"

lemma afs_check:
  "areafix_auth_check afs_env (mk_node 2 5020 7 0) (Some ''wrong'') True (areafix_auth_init afs_state) = afs_checked"
  "auth_delete (areafix_auth_check afs_env (mk_node 2 5020 7 0) None True afs_state)"
  by (simp_all add: areafix_auth_check_def afs_checked_def afs_env_def afs_state_def areafix_auth_init_def passwd_lookup_def
      node_eq_def auth_args_def afs_args auth_limits_def auth_keys_def stricmp_zero strieq_def tolower_def isupper_def code_def
      atoi_def dec_digits_def is_space_def is_digit_def c_int_def Let_def)

lemma afs_do:
  assumes "areafix_lines afs_env junk To_mail ls afs_checked = Some t" "fx_upl t = []"
  shows "\<exists>ms. areafix_do afs_env junk True ''wrong'' ls afs_state = Some (t, ms)"
proof -
  have "fx_node afs_state = mk_node 2 5020 7 0" "afs_checked\<lparr>fx_upl := []\<rparr> = afs_checked"
    by (simp_all add: afs_state_def afs_checked_def)
  then have "areafix_commands afs_env junk True ''wrong'' ls afs_state = Some t"
    using assms(1) unfolding areafix_commands_def afs_subject Let_def prod.case by (simp add: afs_check(1))
  then show ?thesis using assms(2) by (simp add: areafix_do_def send_request_def)
qed

lemma afs_lines: "mail_text ''-T'' = ''-T''" "command_text ''-T'' = ''-T''" "mail_text ''~T'' = ''~T''" "command_text ''~T'' = ''~T''"
    "mail_text ''+T'' = ''+T''" "command_text ''+T'' = ''+T''"
  by (simp_all add: command_text_def mail_text_def chomp_def is_space_def)

theorem areafix_needs_password_witness:
  "map_option (\<lambda>r. fx_areas (fst r)) (areafix_do afs_env (mk_node 0 0 0 0) True ''wrong'' [''-T''] afs_state) = Some sample_areas"
proof -
  obtain t where "areafix_lines afs_env (mk_node 0 0 0 0) To_mail [''-T''] afs_checked = Some t" "fx_upl t = []"
    unfolding areafix_lines_Cons afs_lines
    by (simp add: areafix_do_cmd_def parse_cmd_line_def cmd_of_def is_space_def cmd_unsub_def afs_checked_def afs_state_def
        Let_def say_def)
  then obtain st' ms where st': "areafix_do afs_env (mk_node 0 0 0 0) True ''wrong'' [''-T''] afs_state = Some (st', ms)"
    using afs_do by blast
  have n: "fx_node afs_state = mk_node 2 5020 7 0" "fx_areas afs_state = sample_areas" by (simp_all add: afs_state_def)
  have "fx_areas st' = fx_areas afs_state \<and> ms = [] \<and> fx_rules st' = fx_rules afs_state \<and> fx_log st' = fx_log afs_state"
  proof (rule areafix_needs_password [OF st'])
    show "\<not> password_given afs_env (fx_node afs_state) (fst (strtok_r (Some ''wrong'') WS None))"
      by (simp add: afs_word n password_given_def afs_env_def passwd_lookup_def node_eq_def stricmp_zero strieq_def
          tolower_def isupper_def code_def)
    show "list_all (\<lambda>l. \<not> asks Cmd_passwd (command_text l) \<and> \<not> asks Cmd_delete (command_text l)) [''-T'']"
      by (simp add: afs_lines asks_def cmd_of_def)
  qed
  then show ?thesis using st' n by simp
qed

lemma afs_match: "wildmatch ''T'' ''T'' 1 = Some True"
  by (simp add: wildmatch_def wm_loop.simps wm_one_def adv_def char_eq_def schar_def code_def)

text \<open>The password is wrong, and the area is deleted.\<close>

lemma afs_delete:
  "\<exists>st' ms. areafix_do afs_env junk True ''wrong'' [''~T''] afs_state = Some (st', ms)"
proof -
  obtain t where "areafix_lines afs_env junk To_mail [''~T''] afs_checked = Some t" "fx_upl t = []"
    unfolding areafix_lines_Cons afs_lines
    by (simp add: areafix_do_cmd_def parse_cmd_line_def cmd_of_def is_space_def cmd_delete_def afs_checked_def afs_state_def
      sample_areas_def sample_area_def Let_def afs_match say_def)
  then show ?thesis using afs_do by blast
qed

end
