(* ===== verification/Areafix_Typed.thy ===== *)
theory Areafix_Typed
  imports Areafix_Laws "HOL-Library.Sublist"
begin

text \<open>
  The area table stays well formed under every command: the names of the areas are pairwise different, whatever
  the case of their letters, and the sizes of the node lists are those of the lists.
\<close>

subsection \<open>Well-formed tables\<close>

definition area_key :: "areasbbs \<Rightarrow> cstring" where
  "area_key p = map tolower (ab_area p)"

definition counted :: "lon \<Rightarrow> bool" where
  "counted l \<longleftrightarrow> lsize l = c_int (int (length (lnodes l)))"

definition area_typed :: "areasbbs \<Rightarrow> bool" where
  "area_typed p \<longleftrightarrow> counted (ab_nodes p) \<and> counted (ab_passive p)"

definition areas_typed :: "areas \<Rightarrow> bool" where
  "areas_typed a \<longleftrightarrow> list_all area_typed (ab_list a) \<and> distinct (map area_key (ab_list a))"

lemma counted_init [simp]: "counted lon_init"
  by (simp add: counted_def lon_init_def c_int_def)

lemma c_int_step_add: "c_int (c_int a + b) = c_int (a + b)"
proof -
  have "(a + 2147483648) mod 4294967296 - 2147483648 + b + 2147483648 = (a + 2147483648) mod 4294967296 + b" by simp
  then show ?thesis unfolding c_int_def by (simp only: mod_add_left_eq) (simp add: algebra_simps)
qed

lemma c_int_step: "c_int (c_int a + b) = c_int (a + b)" "c_int (c_int a - b) = c_int (a - b)"
  using c_int_step_add [of a b] c_int_step_add [of a "- b"] by simp_all

lemma counted_add [simp]: "counted l \<Longrightarrow> counted (lon_add l nd)"
  by (simp add: counted_def lon_add_def c_int_step) (simp add: add.commute)

lemma remove_first_length: "remove_first nd ps = Some qs \<Longrightarrow> length ps = Suc (length qs)"
  by (induction ps arbitrary: qs) (auto split: if_splits option.splits)

lemma counted_remove [simp]: "counted l \<Longrightarrow> counted (lon_remove l nd)"
  by (auto simp: counted_def lon_remove_def c_int_step dest!: remove_first_length split: option.split)

lemma key_upper [simp]: "map tolower (str_upper s) = map tolower s"
  by (auto simp: str_upper_def tolower_def isupper_def islower_def toupper_def)

subsection \<open>Changes that keep the names\<close>

definition same_area :: "areasbbs \<Rightarrow> areasbbs \<Rightarrow> bool" where
  "same_area p q \<longleftrightarrow> area_key q = area_key p \<and> (area_typed p \<longrightarrow> area_typed q)"

definition shrinks :: "areasbbs list \<Rightarrow> areasbbs list \<Rightarrow> bool" where
  "shrinks l l' \<longleftrightarrow> subseq (map area_key l') (map area_key l) \<and> (list_all area_typed l \<longrightarrow> list_all area_typed l')"

lemma same_area_refl [simp]: "same_area p p"
  by (simp add: same_area_def)

lemma same_area_trans: "same_area p q \<Longrightarrow> same_area q r \<Longrightarrow> same_area p r"
  by (auto simp: same_area_def)

lemma shrinks_refl [simp]: "shrinks l l"
  by (simp add: shrinks_def)

lemma shrinks_trans: "shrinks a b \<Longrightarrow> shrinks b c \<Longrightarrow> shrinks a c"
  unfolding shrinks_def using subseq_order.order_trans by blast

lemma shrinks_Cons: "same_area p q \<Longrightarrow> shrinks l l' \<Longrightarrow> shrinks (p # l) (q # l')"
  by (auto simp: shrinks_def same_area_def)

lemma shrinks_drop: "shrinks l l' \<Longrightarrow> shrinks (p # l) l'"
  by (auto simp: shrinks_def)

lemma shrinks_append: "shrinks l l' \<Longrightarrow> shrinks (b @ l) (b @ l')"
  by (auto simp: shrinks_def subseq_append')

lemma subseq_distinct: "subseq xs ys \<Longrightarrow> distinct ys \<Longrightarrow> distinct xs"
  by (induction rule: list_emb.induct) (auto dest: list_emb_set)

lemma shrinks_typed:
  "shrinks (ab_list a) (ab_list b) \<Longrightarrow> areas_typed a \<Longrightarrow> areas_typed b"
  by (auto simp: shrinks_def areas_typed_def intro: subseq_distinct)

lemmas same_areaI = same_area_def area_key_def area_typed_def

subsection \<open>The commands\<close>

abbreviation alist :: "afstate \<Rightarrow> areasbbs list" where
  "alist st \<equiv> ab_list (fx_areas st)"

lemma delete_loop_shrinks: "delete_loop name l m st = Some (m', l', st') \<Longrightarrow> shrinks l l'"
proof (induction l arbitrary: m st m' l' st')
  case (Cons p ps)
  then show ?case
    by (auto split: option.splits bool.splits intro!: shrinks_Cons intro: shrinks_drop)
qed simp

lemma cmd_delete_shrinks: "cmd_delete name st = Some st' \<Longrightarrow> shrinks (alist st) (alist st')"
  by (auto simp: cmd_delete_def dest!: delete_loop_shrinks split: if_splits option.splits)

lemma unsub_link_same: "unsub_link env p st = Some (Some q, st') \<Longrightarrow> same_area p q"
  unfolding unsub_link_def Let_def
  by (auto simp: same_areaI split: if_splits option.splits bind_splits)

lemma unsub_one_same: "unsub_one env w p st = Some (Some q, st') \<Longrightarrow> same_area p q"
  by (auto simp: unsub_one_def dest: unsub_link_same split: if_splits)

lemma unsub_loop_shrinks: "unsub_loop env w name l m st = Some (m', l', st') \<Longrightarrow> shrinks l l'"
proof (induction l arbitrary: m st m' l' st')
  case (Cons p ps)
  then show ?case
    by (fastforce split: option.splits bool.splits intro!: shrinks_Cons intro: shrinks_drop dest: unsub_one_same)
qed simp

lemma cmd_unsub_shrinks: "cmd_unsub env name st = Some st' \<Longrightarrow> shrinks (alist st) (alist st')"
  by (auto simp: cmd_unsub_def Let_def dest!: unsub_loop_shrinks split: if_splits option.splits)

lemma passive_one_same: "passive_one env p st = Some (b, q, st') \<Longrightarrow> same_area p q"
  unfolding passive_one_def Let_def
  by (auto simp: same_areaI split: if_splits option.splits bind_splits)

lemma active_one_same: "active_one env p st = Some (b, q, st') \<Longrightarrow> same_area p q"
  unfolding active_one_def Let_def
  by (auto simp: same_areaI split: if_splits option.splits bind_splits)

lemma each_area_shrinks:
  assumes "\<And>p st b q st'. step p st = Some (b, q, st') \<Longrightarrow> same_area p q"
  shows "each_area step name l st = Some (l', st') \<Longrightarrow> shrinks l l'"
proof (induction l arbitrary: st l' st')
  case (Cons p ps)
  then show ?case
    by (auto split: option.splits bool.splits if_splits bind_splits intro!: shrinks_Cons dest: assms)
qed simp

lemma cmd_passive_shrinks: "cmd_passive env name st = Some st' \<Longrightarrow> shrinks (alist st) (alist st')"
  by (auto simp: cmd_passive_def split: if_splits intro: each_area_shrinks [where step = "passive_one env"] passive_one_same)

lemma cmd_active_shrinks: "cmd_active env name st = Some st' \<Longrightarrow> shrinks (alist st) (alist st')"
  by (auto simp: cmd_active_def split: if_splits intro: each_area_shrinks [where step = "active_one env"] active_one_same)

lemma sub_checks_same:
  "sub_checks env all p st = Some (Keep q, st') \<Longrightarrow> same_area p q"
  "sub_checks env all p st = Some (Deny q, st') \<Longrightarrow> same_area p q"
  by (auto simp: sub_checks_def Let_def same_areaI split: if_splits option.splits)

lemma sub_again_same: "sub_again env u p a n st = Some (q, st') \<Longrightarrow> same_area p q"
  by (auto simp: sub_again_def same_areaI split: if_splits bind_splits)

lemma sub_link_same:
  "sub_link env u w name p st = Some (Keep q, st') \<Longrightarrow> same_area p q"
  "sub_link env u w name p st = Some (Deny q, st') \<Longrightarrow> same_area p q"
proof -
  have linked: "same_area p (p\<lparr>ab_nodes := lon_add (ab_nodes p) nd\<rparr>)" for nd by (simp add: same_areaI)
  show "sub_link env u w name p st = Some (Keep q, st') \<Longrightarrow> same_area p q"
    by (auto simp: sub_link_def Let_def linked split: list.splits if_splits option.splits prod.splits
        dest!: sub_again_same intro: same_area_trans [OF linked])
  show "sub_link env u w name p st = Some (Deny q, st') \<Longrightarrow> same_area p q"
    by (auto simp: sub_link_def Let_def linked split: list.splits if_splits option.splits prod.splits)
qed

lemma sub_one_same:
  "sub_one env u w name all p st = Some (Keep q, st') \<Longrightarrow> same_area p q"
  "sub_one env u w name all p st = Some (Deny q, st') \<Longrightarrow> same_area p q"
  by (auto simp: sub_one_def dest: sub_checks_same sub_link_same split: option.splits if_splits)

lemma sub_loop_shrinks:
  "sub_loop env u w name behind l n st = Some (r, n', l', st') \<Longrightarrow> shrinks (behind @ l) l'"
proof (induction l arbitrary: behind n st)
  case (Cons p ps)
  show ?case
  proof (cases "n \<noteq> 0 \<and> \<not> w")
    case False
    then obtain m where m: "wildmatch (ab_area p) (buf_copy BUFSIZ name) 1 = Some m"
      using Cons.prems by (auto split: option.splits)
    show ?thesis
    proof (cases m)
      case False
      then show ?thesis using Cons.prems Cons.IH [of "behind @ [p]"] m \<open>\<not> (n \<noteq> 0 \<and> \<not> w)\<close> by (simp split: if_splits)
    next
      case True
      then obtain step s where one: "sub_one env u w name (behind @ p # ps) p st = Some (step, s)"
        using Cons.prems m False by (auto split: option.splits if_splits)
      show ?thesis
      proof (cases step)
        case (Keep q)
        then have "shrinks ((behind @ [q]) @ ps) l'" using Cons.prems Cons.IH [of "behind @ [q]"] m True False one by (simp split: if_splits)
        moreover have "shrinks (behind @ p # ps) (behind @ q # ps)"
          using sub_one_same(1) one Keep by (intro shrinks_append shrinks_Cons) auto
        ultimately show ?thesis using shrinks_trans by simp
      next
        case Drop
        then have "shrinks (behind @ ps) l'" using Cons.prems Cons.IH [of behind] m True False one by (simp split: if_splits)
        moreover have "shrinks (behind @ p # ps) (behind @ ps)" by (intro shrinks_append shrinks_drop shrinks_refl)
        ultimately show ?thesis using shrinks_trans by blast
      next
        case (Deny q)
        have pq: "shrinks (behind @ p # ps) (behind @ q # ps)"
          using sub_one_same(2) one Deny by (intro shrinks_append shrinks_Cons) auto
        show ?thesis
        proof (cases u)
          case True
          then have "shrinks ((behind @ [q]) @ ps) l'" using Cons.prems Cons.IH [of "behind @ [q]"] m \<open>m\<close> one Deny \<open>\<not> (n \<noteq> 0 \<and> \<not> w)\<close> by (simp split: if_splits)
          then show ?thesis using pq shrinks_trans by simp
        next
          case last: False
          then show ?thesis using Cons.prems m \<open>m\<close> \<open>\<not> (n \<noteq> 0 \<and> \<not> w)\<close> one Deny pq by (simp split: if_splits)
        qed
      qed
    qed
  qed (use Cons.prems in auto)
qed simp

lemma sub_present_shrinks: "sub_present env u name st = Some (r, n, st') \<Longrightarrow> shrinks (alist st) (alist st')"
  unfolding sub_present_def Let_def
  by (auto dest!: sub_loop_shrinks split: if_splits option.splits)

lemma cmd_sub_created_shrinks: "cmd_sub_created env name st = Some (r, st') \<Longrightarrow> shrinks (alist st) (alist st')"
  unfolding cmd_sub_created_def by (auto dest!: sub_present_shrinks split: if_splits option.splits)


subsection \<open>New areas\<close>

lemma new_flag_same: "ab_area (new_flag a b o1 p) = ab_area p" "ab_nodes (new_flag a b o1 p) = ab_nodes p"
    "ab_passive (new_flag a b o1 p) = ab_passive p"
  by (simp_all add: new_flag_def)

lemma new_argument_same: "ab_area (new_argument z o1 o2 p) = ab_area p" "ab_nodes (new_argument z o1 o2 p) = ab_nodes p"
    "ab_passive (new_argument z o1 o2 p) = ab_passive p"
  by (simp_all add: new_argument_def)

lemma new_options_same: "ab_area (new_options z a b ws p) = ab_area p \<and> ab_nodes (new_options z a b ws p) = ab_nodes p \<and>
    ab_passive (new_options z a b ws p) = ab_passive p"
  by (induction z a b ws p rule: new_options.induct) (simp_all add: new_flag_same new_argument_same)

lemma new_dir_same: "new_dir env cf name p = Some (Inr q) \<Longrightarrow> ab_area q = ab_area p \<and> ab_nodes q = ab_nodes p \<and> ab_passive q = ab_passive p"
  by (auto simp: new_dir_def Let_def split: if_splits option.splits)

lemma subscribe_words_counted: "counted l \<Longrightarrow> counted (subscribe_words prev ws l)"
  by (induction prev ws l rule: subscribe_words.induct) (auto split: prod.splits bool.splits)

lemma subscribe_nodes_counted: "counted l \<Longrightarrow> counted (subscribe_nodes name cf l)"
proof -
  have "counted l \<Longrightarrow> counted (fold (\<lambda>s. subscribe_words n (f s)) ss l)" for n f ss
    by (induction ss arbitrary: l) (auto intro: subscribe_words_counted)
  then show "counted l \<Longrightarrow> counted (subscribe_nodes name cf l)" by (simp add: subscribe_nodes_def)
qed

lemma stricmp_same_key: "map tolower a = map tolower b \<Longrightarrow> stricmp a b = 0"
proof (induction a arbitrary: b)
  case (Cons x a)
  then obtain y c where "b = y # c" by (cases b) auto
  then show ?case using Cons by simp
qed simp

lemma lookup_None: "areasbbs_lookup (Some name) a = None \<Longrightarrow> map tolower name \<notin> set (map area_key (ab_list a))"
proof
  assume l: "areasbbs_lookup (Some name) a = None" and "map tolower name \<in> set (map area_key (ab_list a))"
  then obtain i where i: "i < length (ab_list a)" "map tolower name = map tolower (ab_area (ab_list a ! i))"
    by (auto simp: area_key_def in_set_conv_nth)
  then have "stricmp name (ab_area (ab_list a ! i)) = 0" using stricmp_same_key by blast
  then show False using l i(1) by (simp add: areasbbs_lookup_def find_None_iff)
qed

lemma new_area_typed:
  assumes "new_area env nd dwnl internal name ws st = Some (r, st')" "areasbbs_lookup (Some name) (fx_areas st) = None"
    and "areas_typed (fx_areas st)"
  shows "areas_typed (fx_areas st')"
proof -
  define p where "p = new_options (cf_defzone (fx_cf st)) (cfg (fx_cf st) ''IgnorePRLKey'' = None \<or> internal) (dwnl = None \<or> internal)
     ws (areasbbs_new\<lparr>ab_area := str_upper name, ab_zone := zone nd, ab_time := af_now env\<rparr>)"
  define q where "q = (if ab_state p = None then p\<lparr>ab_state := Some ''S''\<rparr> else p)"
  have q: "ab_area q = str_upper name" "ab_passive q = lon_init"
    unfolding q_def p_def by (simp_all add: new_options_same) (simp_all add: areasbbs_new_def)
  note unf = assms(1) [unfolded new_area_def Let_def, folded p_def, folded q_def]
  show ?thesis
  proof (cases "new_dir env (fx_cf st) name q")
    case (Some d)
    show ?thesis
    proof (cases d)
      case (Inr e)
      have e: "ab_area e = str_upper name" "ab_passive e = lon_init" using new_dir_same Some Inr q by auto
      obtain f l where "ab_list (fx_areas st') = alist st @ [f]" "f = e\<lparr>ab_nodes := l\<rparr>" "counted l"
        using unf Some Inr
        by (auto simp: areasbbs_add_def subscribe_nodes_counted split: if_splits)
      then show ?thesis using assms(3) lookup_None [OF assms(2)] e
        by (auto simp: areas_typed_def area_typed_def area_key_def)
    qed (use unf Some assms(3) in auto)
  qed (use unf in simp)
qed

lemma cmd_new_typed:
  assumes "cmd_new env nd text dwnl internal st = Some (r, st')" "areas_typed (fx_areas st)"
  shows "areas_typed (fx_areas st')"
  using assms new_area_typed unfolding cmd_new_def
  by (auto split: if_splits list.splits option.splits bind_splits)

lemma cmd_new_int_typed:
  "cmd_new_int env nd text dwnl st = Some (r, st') \<Longrightarrow> areas_typed (fx_areas st) \<Longrightarrow> areas_typed (fx_areas st')"
  by (auto simp: cmd_new_int_def dest!: cmd_new_typed)

lemma shrinks_update:
  "same_area (l ! i) p \<Longrightarrow> shrinks l (l[i := p])"
proof (induction l arbitrary: i)
  case (Cons q l)
  then show ?case by (cases i) (auto intro: shrinks_Cons)
qed simp

lemma shrinks_remove: "shrinks l (take i l @ drop (Suc i) l)"
proof (induction l arbitrary: i)
  case (Cons q l)
  show ?case
  proof (cases i)
    case (Suc j)
    then show ?thesis using shrinks_Cons [OF same_area_refl Cons.IH [of j]] by simp
  qed (simp add: shrinks_drop)
qed simp

lemma drop_area_shrinks: "shrinks (alist st) (alist (drop_area name st))"
  by (auto simp: drop_area_def areasbbs_remove_def shrinks_remove split: option.split)


lemma forward_one_typed:
  assumes "forward_one env a st = Some st'" "areas_typed (fx_areas st)"
  shows "areas_typed (fx_areas st')"
proof -
  obtain buf ret s where s: "uplink_line a = Some buf" "cmd_new_int env (up_node a) buf (Some (znf1 (fx_node st))) st = Some (ret, s)"
    using assms(1) unfolding forward_one_def Let_def by (auto split: bind_splits prod.splits)
  have ty: "areas_typed (fx_areas s)" using cmd_new_int_typed [OF s(2) assms(2)] .
  show ?thesis
  proof (cases "ret \<noteq> 0 \<or> areasbbs_lookup (Some (up_areas a)) (fx_areas s) = None")
    case True
    then show ?thesis using assms(1) s ty unfolding forward_one_def Let_def by (auto split: if_splits option.splits)
  next
    case False
    then obtain i where i: "areasbbs_lookup (Some (up_areas a)) (fx_areas s) = Some i" "ret = 0" by auto
    define p where "p = alist s ! i"
    obtain b c where ch: "areasbbs_chstate (ab_state p) (Some ''S'') CHR ''F'' = Some (b, c)"
      using assms(1) s i unfolding forward_one_def Let_def p_def by (auto split: bind_splits prod.splits)
    define t where "t = changed (set_list ((alist s)[i := p\<lparr>ab_state := c\<rparr>]) s)"
    have t: "areas_typed (fx_areas t)"
      by (rule shrinks_typed [OF _ ty]) (simp add: t_def p_def shrinks_update same_areaI)
    obtain r u where u: "cmd_sub_created env (ab_area p) t = Some (r, u)"
      and res: "st' = (if r \<noteq> 0 then changed (drop_area (up_areas a) u)
          else say (''    Request forwarded to uplink: '' @ znfp1 (up_node a)) (request env (znfp1 (up_node a)) a CHR ''+'' (up_areas a) u))"
      using assms(1) s i ch unfolding forward_one_def Let_def p_def t_def
      by (auto split: bind_splits prod.splits if_splits)
    have "areas_typed (fx_areas u)" by (rule shrinks_typed [OF cmd_sub_created_shrinks [OF u] t])
    then have "areas_typed (fx_areas (drop_area (up_areas a) u))" "areas_typed (fx_areas u)"
      using shrinks_typed drop_area_shrinks by blast+
    then show ?thesis unfolding res by (simp add: areas_typed_def request_def)
  qed
qed

lemma forward_loop_typed: "forward_loop env as n st = Some (n', st') \<Longrightarrow> areas_typed (fx_areas st) \<Longrightarrow> areas_typed (fx_areas st')"
proof (induction as arbitrary: n st)
  case (Cons a as)
  then show ?case by (auto split: option.splits if_splits dest!: forward_one_typed)
qed simp

lemma cmd_sub_typed:
  assumes "cmd_sub env name st = Some (r, st')" "areas_typed (fx_areas st)"
  shows "areas_typed (fx_areas st')"
proof -
  obtain r n s where s: "sub_present env True name st = Some (r, n, s)"
    using assms(1) by (auto simp: cmd_sub_def split: option.splits)
  have "areas_typed (fx_areas s)" using shrinks_typed [OF sub_present_shrinks [OF s] assms(2)] .
  then show ?thesis using assms(1) s forward_loop_typed unfolding cmd_sub_def
    by (auto split: option.splits bind_splits if_splits)
qed

lemma cmd_passwd_areas: "cmd_passwd env junk arg st = Some st' \<Longrightarrow> fx_areas st' = fx_areas st"
  unfolding cmd_passwd_def Let_def
  by (auto simp: auth_check_fields split: prod.splits option.splits bool.splits bind_splits if_splits)

lemma areafix_do_cmd_typed:
  assumes "areafix_do_cmd env junk out text st = Some st'" "areas_typed (fx_areas st)"
  shows "areas_typed (fx_areas st')"
  using assms(1)
proof (cases rule: areafix_do_cmd_cases)
  case (shown s)
  then have "fx_areas st' = fx_areas st" by (simp add: untouched_def replied_fields)
  then show ?thesis using assms(2) by simp
next
  case (passwds arg)
  then show ?thesis using assms(2) by (auto dest: cmd_passwd_areas)
next
  case (subs arg ret)
  show ?thesis by (rule cmd_sub_typed [OF subs(2)]) (simp add: assms(2))
next
  case (news arg ret)
  show ?thesis by (rule cmd_new_typed [OF news(2)]) (simp add: assms(2))
next
  case (unsubs arg)
  show ?thesis by (rule shrinks_typed [OF cmd_unsub_shrinks [OF unsubs(2)]]) (simp add: assms(2))
next
  case (deletes arg)
  show ?thesis by (rule shrinks_typed [OF cmd_delete_shrinks [OF deletes(2)]]) (simp add: assms(2))
next
  case (passives arg)
  show ?thesis by (rule shrinks_typed [OF cmd_passive_shrinks [OF passives(2)]]) (simp add: assms(2))
next
  case (actives arg)
  show ?thesis by (rule shrinks_typed [OF cmd_active_shrinks [OF actives(2)]]) (simp add: assms(2))
qed (simp add: assms(2))

lemma areafix_lines_typed:
  "areafix_lines env junk out ls st = Some st' \<Longrightarrow> areas_typed (fx_areas st) \<Longrightarrow> areas_typed (fx_areas st')"
proof (induction ls arbitrary: st)
  case (Cons l ls)
  then show ?case by (auto simp: areafix_lines_Cons dest!: areafix_do_cmd_typed split: if_splits option.splits)
qed simp

subsection \<open>Any number of mails\<close>

text \<open>The tables that mails from anybody make of a table.\<close>

inductive served :: "afenv \<Rightarrow> areas \<Rightarrow> areas \<Rightarrow> bool" for env where
  unserved: "served env a a"
| mail: "served env a b \<Longrightarrow> fx_areas st = b \<Longrightarrow> areafix_do env junk mail subj ls st = Some (st', ms) \<Longrightarrow>
    served env a (fx_areas st')"

lemma areafix_do_typed:
  assumes "areafix_do env junk mail subj ls st = Some (st', ms)" "areas_typed (fx_areas st)"
  shows "areas_typed (fx_areas st')"
proof -
  obtain s t where s: "areafix_lines env junk (if mail then To_mail else To_stdout) ls s = Some t" "fx_areas s = fx_areas st"
    and t: "st' = t\<lparr>fx_cf := fx_cf st'\<rparr>"
    using areafix_do_start [OF assms(1)] by blast
  have "areas_typed (fx_areas t)" by (rule areafix_lines_typed [OF s(1)]) (simp add: s(2) assms(2))
  moreover have "fx_areas st' = fx_areas t" by (subst t) simp
  ultimately show ?thesis by simp
qed

text \<open>
  C40. In every area table that comes from a well-formed one by mails to the manager, from
  anybody and with any commands, the names of the areas differ pairwise, ignoring case, and the
  sizes kept in the node lists are right.
\<close>

theorem area_table_stays_well_formed:
  assumes "served env a b" "areas_typed a"
  shows "areas_typed b"
  using assms by (induction rule: served.induct) (auto dest: areafix_do_typed)

lemma afs_typed: "areas_typed sample_areas"
  by (simp add: areas_typed_def area_typed_def sample_areas_def sample_area_def areasbbs_new_def counted_def lon_init_def c_int_def)

theorem area_table_stays_well_formed_witness:
  "\<exists>st' ms. areafix_do afs_env (mk_node 0 0 0 0) True ''wrong'' [''~T''] afs_state = Some (st', ms) \<and> areas_typed (fx_areas st')"
proof -
  obtain st' ms where st': "areafix_do afs_env (mk_node 0 0 0 0) True ''wrong'' [''~T''] afs_state = Some (st', ms)"
    using afs_delete by blast
  have "served afs_env sample_areas (fx_areas st')"
    by (rule served.mail [OF served.unserved _ st']) (simp add: afs_state_def)
  from area_table_stays_well_formed [OF this afs_typed] show ?thesis using st' by blast
qed

end
