(* ===== verification/Areafix_Subs.thy ===== *)
theory Areafix_Subs
  imports Areafix_Typed
begin

text \<open>
  What DELETE, UNSUBSCRIBE and SUBSCRIBE do to the areas and to the systems linked to them, and who may do it.
\<close>

subsection \<open>DELETE\<close>

lemma auth_limits_authorized: "auth_limits p (st\<lparr>authorized := b\<rparr>) = (auth_limits p st)\<lparr>authorized := b\<rparr>"
  by (cases p) (simp_all add: auth_limits_def Let_def split_beta split: option.split)

lemma auth_args_authorized: "auth_args env p (st\<lparr>authorized := b\<rparr>) = (auth_args env p st)\<lparr>authorized := b\<rparr>"
proof -
  obtain a1 l1 where 1: "(case pw_args p of Some s \<Rightarrow> xstrtok (Some s) WS None | None \<Rightarrow> xstrtok None WS (af_stale env)) = (a1, l1)"
    by fastforce
  obtain a2 l2 where 2: "xstrtok None WS l1 = (a2, l2)" by fastforce
  obtain a3 l3 where 3: "xstrtok None WS l2 = (a3, l3)" by fastforce
  obtain a4 l4 where 4: "xstrtok None WS l3 = (a4, l4)" by fastforce
  show ?thesis unfolding auth_args_def Let_def 1 2 3 4 prod.case
    by (cases st; cases a1; cases a2; cases a3; simp add: 2 3 4 auth_limits_authorized [symmetric])
qed

lemma auth_init_idem: "areafix_auth_init (areafix_auth_init st) = areafix_auth_init st"
  by (simp add: areafix_auth_init_def node_invalid_def)

text \<open>What the entry of a node lets it do does not depend on the password.\<close>

lemma auth_delete_any_password:
  "auth_delete (areafix_auth_check env nd pw True (areafix_auth_init st)) =
     auth_delete (areafix_auth_check env nd None True st)"
proof -
  have k: "auth_delete (auth_keys (auth_args env p (s\<lparr>authorized := b\<rparr>))) = auth_delete (auth_keys (auth_args env p s))" for p s b
    by (simp add: auth_args_authorized auth_keys_def)
  show ?thesis unfolding areafix_auth_check_def Let_def auth_init_idem
    by (auto simp: k split: option.split)
qed

lemma delete_loop_filter:
  "delete_loop name l m st = Some (m', l', st') \<Longrightarrow> l' = filter (\<lambda>p. wildmatch (ab_area p) name 1 \<noteq> Some True) l"
proof (induction l arbitrary: m st m' l' st')
  case (Cons p ps)
  then show ?case by (fastforce split: option.splits bool.splits)
qed simp

lemma cmd_delete_filter:
  "cmd_delete name st = Some st' \<Longrightarrow> auth_delete st \<Longrightarrow>
     alist st' = filter (\<lambda>p. wildmatch (ab_area p) name 1 \<noteq> Some True) (alist st)"
  by (auto simp: cmd_delete_def dest: delete_loop_filter split: option.splits if_splits)

lemma delete_line:
  "parse_cmd_line cf (CHR ''~'' # name) = Inr (Cmd_delete, dropWhile is_space name)"
  by (simp add: parse_cmd_line_def cmd_of_def)

text \<open>
  C36. The DELETE command asks for the right to delete only, which the PASSWD entry of the
  sender gives whatever the password was: a mail from such an address with a wrong password
  deletes the areas matching the pattern.
\<close>

theorem delete_ignores_password:
  assumes "areafix_do env junk mail subj [l] st = Some (st', ms)"
    and "mail_text l = CHR ''~'' # name" "dropWhile is_space name = name"
    and "auth_delete (areafix_auth_check env (fx_node st) None True st)"
  shows "alist st' = filter (\<lambda>p. wildmatch (ab_area p) name 1 \<noteq> Some True) (alist st)"
proof -
  define out where "out = (if mail then To_mail else To_stdout)"
  obtain s t where s: "areafix_lines env junk out [l] s = Some t" "fx_areas s = fx_areas st"
    "auth_delete s = auth_delete (areafix_auth_check env (fx_node st) (fst (strtok_r (Some subj) WS None)) True (areafix_auth_init st))"
    and t: "st' = t\<lparr>fx_cf := fx_cf st'\<rparr>"
    using areafix_do_start [OF assms(1)] unfolding out_def by metis
  have d: "auth_delete s" using s(3) assms(4) auth_delete_any_password by simp
  have "command_text l = CHR ''~'' # name" by (simp add: command_text_def assms(2) is_space_def)
  then have "areafix_do_cmd env junk out (CHR ''~'' # name) s = Some t"
    using s(1) assms(2) by (simp add: areafix_lines_Cons split: option.splits)
  then have "cmd_delete name (s\<lparr>fx_target := out\<rparr>) = Some t"
    unfolding areafix_do_cmd_def by (simp add: delete_line assms(3))
  then have "alist t = filter (\<lambda>p. wildmatch (ab_area p) name 1 \<noteq> Some True) (alist st)"
    using cmd_delete_filter [of name "s\<lparr>fx_target := out\<rparr>" t] d s(2) by simp
  moreover have "alist st' = alist t" by (subst t) simp
  ultimately show ?thesis by simp
qed

subsection \<open>UNSUBSCRIBE\<close>

text \<open>What becomes of one area when the node gives the pattern.\<close>

definition unsubscribed :: "fnode \<Rightarrow> cstring \<Rightarrow> areasbbs \<Rightarrow> areasbbs list \<Rightarrow> bool" where
  "unsubscribed nd name p r \<longleftrightarrow>
     (if wildmatch (ab_area p) name 1 \<noteq> Some True then r = [p]
      else if lsize (ab_nodes p) < 1 then r = []
      else if \<not> lon_search (ab_nodes p) nd then r = [p]
      else
        (case r of
           [] \<Rightarrow> ab_flags p AND AREASBBS_PASSTHRU \<noteq> 0 \<and> lsize (lon_remove (ab_nodes p) nd) \<in> {0, 1}
         | [q] \<Rightarrow> area_key q = area_key p \<and> ab_nodes q = lon_remove (ab_nodes p) nd \<and>
             (lon_search (ab_passive p) nd \<longrightarrow> ab_passive q = lon_remove (ab_passive p) nd) \<and>
             (\<not> lon_search (ab_passive p) nd \<longrightarrow> ab_passive q = ab_passive p) \<and>
             (ab_flags p AND AREASBBS_PASSTHRU = 0 \<longrightarrow> ab_state q = ab_state p)
         | _ \<Rightarrow> False))"

lemma unsub_link_unsubscribed:
  assumes "unsub_link env p st = Some (r, st')" "wildmatch (ab_area p) name 1 = Some True"
    "\<not> lsize (ab_nodes p) < 1" "lon_search (ab_nodes p) (fx_node st)"
  shows "unsubscribed (fx_node st) name p (case r of None \<Rightarrow> [] | Some q \<Rightarrow> [q])"
  using assms unfolding unsub_link_def Let_def unsubscribed_def
  by (auto simp: area_key_def split: if_splits option.splits bind_splits)

lemma unsub_one_unsubscribed:
  "unsub_one env w p st = Some (r, st') \<Longrightarrow> wildmatch (ab_area p) name 1 = Some True \<Longrightarrow>
     unsubscribed (fx_node st) name p (case r of None \<Rightarrow> [] | Some q \<Rightarrow> [q])"
  unfolding unsub_one_def using unsub_link_unsubscribed
  by (auto simp: unsubscribed_def split: if_splits)

lemma unsub_one_node: "unsub_one env w p st = Some (r, st') \<Longrightarrow> fx_node st' = fx_node st"
  by (auto simp: unsub_one_def unsub_link_def Let_def request_def dead_area_def split: if_splits option.splits bind_splits)

lemma unsub_loop_unsubscribed:
  "unsub_loop env w name l m st = Some (m', l', st') \<Longrightarrow>
     \<exists>rs. l' = concat rs \<and> list_all2 (unsubscribed (fx_node st) name) l rs"
proof (induction l arbitrary: m st m' l' st')
  case (Cons p ps)
  show ?case
  proof (cases "wildmatch (ab_area p) name 1 = Some True")
    case True
    then obtain r s l1 where s: "unsub_one env w p st = Some (r, s)" "unsub_loop env w name ps True s = Some (m', l1, st')"
      and l': "l' = (case r of None \<Rightarrow> [] | Some q \<Rightarrow> [q]) @ l1"
      using Cons.prems by (auto split: option.splits)
    obtain rs where "l1 = concat rs" "list_all2 (unsubscribed (fx_node st) name) ps rs"
      using Cons.IH [OF s(2)] unsub_one_node [OF s(1)] by auto
    then show ?thesis using unsub_one_unsubscribed [OF s(1) True] l'
      by (intro exI [of _ "(case r of None \<Rightarrow> [] | Some q \<Rightarrow> [q]) # rs"]) simp
  next
    case False
    then obtain l1 where s: "unsub_loop env w name ps m st = Some (m', l1, st')" "l' = p # l1"
      using Cons.prems by (auto split: option.splits bool.splits)
    obtain rs where "l1 = concat rs" "list_all2 (unsubscribed (fx_node st) name) ps rs" using Cons.IH [OF s(1)] by auto
    moreover have "unsubscribed (fx_node st) name p [p]" using False by (simp add: unsubscribed_def)
    ultimately show ?thesis using s(2) by (intro exI [of _ "[p] # rs"]) simp
  qed
qed simp


subsection \<open>SUBSCRIBE\<close>

definition granted :: "afstate \<Rightarrow> areasbbs \<Rightarrow> bool" where
  "granted st p \<longleftrightarrow> ab_lvl p \<le> auth_lvl st \<and>
     (case ab_key p of None \<Rightarrow> True | Some k \<Rightarrow> list_ex (\<lambda>c. c \<in> set (auth_key st)) k)"

definition subscribed :: "afstate \<Rightarrow> areasbbs \<Rightarrow> areasbbs \<Rightarrow> bool" where
  "subscribed st p q \<longleftrightarrow> area_key q = area_key p \<and>
     (ab_nodes q = ab_nodes p \<or>
      granted st p \<and> \<not> lon_search (ab_nodes p) (fx_node st) \<and> ab_nodes q = lon_add (ab_nodes p) (fx_node st))"

lemma subscribed_refl [simp]: "subscribed st p p"
  by (simp add: subscribed_def)

text \<open>The sender and its rights are the same.\<close>

definition same_rights :: "afstate \<Rightarrow> afstate \<Rightarrow> bool" where
  "same_rights st st' \<longleftrightarrow> fx_node st' = fx_node st \<and> auth_lvl st' = auth_lvl st \<and> auth_key st' = auth_key st \<and>
     auth_cmdline st' = auth_cmdline st \<and> auth_fwd st' = auth_fwd st"

lemma same_rights_trans: "same_rights a b \<Longrightarrow> same_rights b c \<Longrightarrow> same_rights a c"
  by (simp add: same_rights_def)

lemma same_rights_subscribed: "same_rights a b \<Longrightarrow> subscribed b = subscribed a"
  by (simp add: same_rights_def subscribed_def granted_def fun_eq_iff split: option.split)

lemma sub_checks_rights: "sub_checks env all p st = Some (step, st') \<Longrightarrow> same_rights st st'"
  by (auto simp: sub_checks_def Let_def dead_area_def same_rights_def split: if_splits option.splits)

lemma sub_checks_granted: "sub_checks env all p st = None \<Longrightarrow> granted st p \<and> \<not> lon_search (ab_nodes p) (fx_node st)"
  by (auto simp: sub_checks_def Let_def granted_def split: if_splits option.splits)

lemma sub_checks_subscribed:
  "sub_checks env all p st = Some (Keep q, st') \<Longrightarrow> subscribed st p q"
  "sub_checks env all p st = Some (Deny q, st') \<Longrightarrow> q = p"
  by (auto simp: sub_checks_def Let_def subscribed_def area_key_def split: if_splits option.splits)

lemma sub_again_nodes: "sub_again env u p a n st = Some (q, st') \<Longrightarrow> area_key q = area_key p \<and> ab_nodes q = ab_nodes p \<and> same_rights st st'"
  by (auto simp: sub_again_def area_key_def same_rights_def request_def split: if_splits bind_splits)

lemma same_rights_steps [simp]:
  "same_rights st (say t s) = same_rights st s" "same_rights st (sub_rules w name s) = same_rights st s"
  "same_rights st (dead_area p s) = same_rights st s" "same_rights st st"
  by (simp_all add: same_rights_def sub_rules_def dead_area_def)

lemma sub_link_rights:
  assumes "sub_link env u w name p st = Some (step, st')"
  shows "same_rights st st'"
proof -
  define s1 where "s1 = (say (pad 41 (ab_area (p\<lparr>ab_nodes := lon_add (ab_nodes p) (fx_node st)\<rparr>)) @ '': subscribed'') (changed st))\<lparr>lim_g := lim_g st + 1\<rparr>"
  have s1: "same_rights st s1" by (simp add: s1_def same_rights_def)
  have again: "same_rights st s" if "sub_again env u q a n s1 = Some (r, s)" for q a n r s
    using sub_again_nodes [OF that] same_rights_trans [OF s1] by blast
  show ?thesis
    using assms again s1 unfolding sub_link_def Let_def s1_def [symmetric]
    by (auto split: list.splits if_splits option.splits prod.splits)
qed

lemma sub_link_nodes:
  assumes "sub_link env u w name p st = Some (step, st')"
  shows "step = Keep q \<or> step = Deny q \<Longrightarrow> area_key q = area_key p \<and> ab_nodes q = lon_add (ab_nodes p) (fx_node st)"
proof -
  define p1 where "p1 = p\<lparr>ab_nodes := lon_add (ab_nodes p) (fx_node st)\<rparr>"
  have p1: "area_key p1 = area_key p" "ab_nodes p1 = lon_add (ab_nodes p) (fx_node st)" by (simp_all add: p1_def area_key_def)
  assume q: "step = Keep q \<or> step = Deny q"
  then have "area_key q = area_key p1 \<and> ab_nodes q = ab_nodes p1"
    using assms sub_again_nodes unfolding sub_link_def Let_def p1_def [symmetric]
    by (auto split: list.splits if_splits option.splits prod.splits)
  then show ?thesis using p1 by simp
qed

lemma sub_one_subscribed:
  assumes "sub_one env u w name all p st = Some (step, st')" "\<not> auth_cmdline st"
  shows "same_rights st st' \<and> (step = Keep q \<or> step = Deny q \<longrightarrow> subscribed st p q)"
proof (cases "sub_checks env all p st")
  case None
  then have l: "sub_link env u w name p st = Some (step, st')" using assms by (simp add: sub_one_def)
  show ?thesis using sub_link_rights [OF l] sub_link_nodes [OF l] sub_checks_granted [OF None]
    unfolding subscribed_def by simp
next
  case (Some r)
  then have c: "sub_checks env all p st = Some (step, st')" using assms by (simp add: sub_one_def)
  then show ?thesis using sub_checks_rights sub_checks_subscribed [of env all p st q st'] by auto
qed

lemma sub_loop_subscribed:
  assumes "sub_loop env u w name behind l n st = Some (r, n', l', st')" "\<not> auth_cmdline st"
    and "\<forall>q\<in>set behind. \<exists>p\<in>P. subscribed st p q" "set l \<subseteq> P"
  shows "same_rights st st' \<and> (\<forall>q\<in>set l'. \<exists>p\<in>P. subscribed st p q)"
  using assms
proof (induction l arbitrary: behind n st)
  case Nil
  then show ?case by (simp add: same_rights_def)
next
  case (Cons p ps)
  have ps: "\<forall>q\<in>set (behind @ p # ps). \<exists>p\<in>P. subscribed st p q"
  proof
    fix q assume "q \<in> set (behind @ p # ps)"
    then consider "q \<in> set behind" | "q \<in> P" using Cons.prems(4) by auto
    then show "\<exists>p\<in>P. subscribed st p q" using Cons.prems(3) subscribed_refl by cases blast+
  qed
  show ?case
  proof (cases "n \<noteq> 0 \<and> \<not> w")
    case True
    then show ?thesis using Cons.prems(1) ps by (auto simp: same_rights_def)
  next
    case go: False
    then obtain m where m: "wildmatch (ab_area p) (buf_copy BUFSIZ name) 1 = Some m"
      using Cons.prems by (auto split: option.splits)
    show ?thesis
    proof (cases m)
      case False
      then have "sub_loop env u w name (behind @ [p]) ps n st = Some (r, n', l', st')"
        using Cons.prems(1) m go by (simp split: if_splits)
      then show ?thesis by (rule Cons.IH) (use Cons.prems(2,4) ps in auto)
    next
      case True
      then obtain step s where one: "sub_one env u w name (behind @ p # ps) p st = Some (step, s)"
        using Cons.prems(1) m go by (auto split: option.splits if_splits)
      have sr: "same_rights st s" and kq: "\<And>q. step = Keep q \<or> step = Deny q \<Longrightarrow> subscribed st p q"
        using sub_one_subscribed [OF one Cons.prems(2)] by blast+
      have more_: "same_rights st st' \<and> (\<forall>q\<in>set l'. \<exists>p\<in>P. subscribed st p q)"
        if "sub_loop env u w name b ps (Suc n) s = Some (r, n', l', st')" "\<forall>q\<in>set b. \<exists>p\<in>P. subscribed st p q" for b
      proof -
        have "\<not> auth_cmdline s" using sr Cons.prems(2) by (simp add: same_rights_def)
        moreover have "\<forall>q\<in>set b. \<exists>p\<in>P. subscribed s p q" using that(2) same_rights_subscribed [OF sr] by simp
        moreover have "set ps \<subseteq> P" using Cons.prems(4) by simp
        ultimately have "same_rights s st' \<and> (\<forall>q\<in>set l'. \<exists>p\<in>P. subscribed s p q)" by (rule Cons.IH [OF that(1)])
        then show ?thesis using same_rights_trans [OF sr] same_rights_subscribed [OF sr] by simp
      qed
      have bq: "\<forall>q\<in>set (behind @ [q]). \<exists>p\<in>P. subscribed st p q" if "step = Keep q \<or> step = Deny q" for q
        using kq [OF that] Cons.prems(3,4) by auto
      show ?thesis
      proof (cases step)
        case (Keep q)
        then have "sub_loop env u w name (behind @ [q]) ps (Suc n) s = Some (r, n', l', st')"
          using Cons.prems(1) m True go one by (simp split: if_splits)
        then show ?thesis using more_ bq Keep by blast
      next
        case Drop
        then have "sub_loop env u w name behind ps (Suc n) s = Some (r, n', l', st')"
          using Cons.prems(1) m True go one by (simp split: if_splits)
        then show ?thesis using more_ Cons.prems(3) by blast
      next
        case (Deny q)
        then have "if u then sub_loop env u w name (behind @ [q]) ps (Suc n) s = Some (r, n', l', st')
            else l' = behind @ q # ps \<and> st' = s"
          using Cons.prems(1) m True go one by (simp split: if_splits)
        then consider "sub_loop env u w name (behind @ [q]) ps (Suc n) s = Some (r, n', l', st')" | "l' = behind @ q # ps" "st' = s"
          by (cases u) auto
        then show ?thesis
        proof cases
          case 1
          then show ?thesis using more_ bq Deny by blast
        next
          case 2
          have "\<exists>p\<in>P. subscribed st p x" if "x \<in> set l'" for x
          proof (cases "x = q")
            case True
            then show ?thesis using bq [of q] Deny by simp
          next
            case False
            then have "x \<in> set (behind @ p # ps)" using that 2(1) by simp
            then show ?thesis by (rule bspec [OF ps])
          qed
          then show ?thesis using sr 2(2) by simp
        qed
      qed
    qed
  qed
qed

lemma sub_present_loop:
  assumes "sub_present env u name st = Some (r, n, st')" "authorized st"
  shows "\<exists>l t. (sub_loop env u (is_wildcard name) name [] (alist st) 0
        (if lim_g st < 1 then st\<lparr>lim_g := lim_g st + linked_areas (fx_node st) (alist st)\<rparr> else st) = Some (r, n, l, t) \<or>
      r = Some 0 \<and> \<not> auth_fwd t \<and> sub_loop env u (is_wildcard name) name [] (alist st) 0
        (if lim_g st < 1 then st\<lparr>lim_g := lim_g st + linked_areas (fx_node st) (alist st)\<rparr> else st) = Some (None, n, l, t)) \<and>
      alist st' = l \<and> (r = None \<longrightarrow> auth_fwd t)"
proof -
  define s where "s = (if lim_g st < 1 then st\<lparr>lim_g := lim_g st + linked_areas (fx_node st) (alist st)\<rparr> else st)"
  have a: "alist s = alist st" by (simp add: s_def)
  obtain r1 n1 l t where l: "sub_loop env u (is_wildcard name) name [] (alist st) 0 s = Some (r1, n1, l, t)"
    using assms unfolding sub_present_def Let_def s_def [symmetric] a by (auto split: option.splits)
  have "(r, n, st') = (if r1 \<noteq> None then (r1, n1, set_list l t)
      else if \<not> auth_fwd t then (Some 0, n1, say (pad 41 name @ '': forward request not authorized'') (set_list l t))
      else (None, n1, set_list l t))"
    using assms unfolding sub_present_def Let_def s_def [symmetric] a l by (auto split: if_splits)
  then show ?thesis unfolding s_def [symmetric] using l by (auto split: if_splits)
qed


subsection \<open>Instances\<close>

theorem delete_ignores_password_witness:
  "\<exists>st' ms. areafix_do afs_env (mk_node 0 0 0 0) True ''wrong'' [''~T''] afs_state = Some (st', ms) \<and> alist st' = []"
proof -
  obtain st' ms where st': "areafix_do afs_env (mk_node 0 0 0 0) True ''wrong'' [''~T''] afs_state = Some (st', ms)"
    using afs_delete by blast
  have n: "fx_node afs_state = mk_node 2 5020 7 0" "alist afs_state = [sample_area]" by (simp_all add: afs_state_def sample_areas_def)
  have "alist st' = filter (\<lambda>p. wildmatch (ab_area p) ''T'' 1 \<noteq> Some True) (alist afs_state)"
    by (rule delete_ignores_password [OF st']) (simp_all add: afs_lines is_space_def n afs_check)
  then show ?thesis using st' by (simp add: n sample_area_def afs_match)
qed

lemma afs_nodes: "lon_search (ab_nodes sample_area) (mk_node 2 5020 7 0)" "\<not> lon_search (ab_nodes sample_area) (mk_node 2 5020 9 0)"
    "ab_area sample_area = ''T''" "ab_passive sample_area = lon_init" "lnodes (ab_nodes sample_area) = [mk_node 2 5020 1 0, mk_node 2 5020 7 0]"
    "lsize (ab_nodes sample_area) = 2" "ab_flags sample_area AND AREASBBS_PASSTHRU = 0" "ab_state sample_area = Some ''S''"
    "ab_lvl sample_area = -1" "ab_key sample_area = None" "ab_zone sample_area = 2"
  by (simp_all add: sample_area_def areasbbs_new_def lon_search_def node_eq_def)




end
