(* ===== verification/Areafix_Requests.thy ===== *)
theory Areafix_Requests
  imports Areafix
begin

text \<open>
  Every request of the manager is sent to its uplink, when no address is a part of another one; when one is,
  requests are lost.
\<close>

subsection \<open>Parts of a text\<close>

lemma substring_iff: "substring w s \<longleftrightarrow> (\<exists>ps ss. s = ps @ w @ ss)"
proof
  assume "substring w s"
  then obtain k where "take (length w) (drop k s) = w" by (auto simp: substring_def list_ex_iff)
  then have "s = take k s @ w @ drop (length w) (drop k s)" by (metis append_take_drop_id)
  then show "\<exists>ps ss. s = ps @ w @ ss" by blast
next
  assume "\<exists>ps ss. s = ps @ w @ ss"
  then obtain ps ss where s: "s = ps @ w @ ss" by blast
  then have "take (length w) (drop (length ps) s) = w" "length ps < Suc (length s)" by simp_all
  then show "substring w s" unfolding substring_def list_ex_iff by (metis atLeast0LessThan lessThan_iff set_upt)
qed

lemma substring_refl [simp]: "substring w w"
  unfolding substring_iff by (intro exI [of _ "[]"]) simp

lemma substring_comma:
  assumes "CHR '','' \<notin> set w" "w \<noteq> []"
  shows "substring w (h @ CHR '','' # t) \<longleftrightarrow> substring w h \<or> substring w t"
proof
  assume "substring w (h @ CHR '','' # t)"
  then obtain ps ss where e: "h @ CHR '','' # t = ps @ w @ ss" by (auto simp: substring_iff)
  then consider us where "ps = h @ us" "CHR '','' # t = us @ w @ ss" | us where "h = ps @ us" "us @ CHR '','' # t = w @ ss"
    by (auto simp: append_eq_append_conv2)
  then show "substring w h \<or> substring w t"
  proof cases
    case 1
    then have "\<exists>vs. t = vs @ w @ ss" using assms by (cases us; cases w) auto
    then show ?thesis by (auto simp: substring_iff)
  next
    case 2
    then consider vs where "us = w @ vs" | vs where "w = us @ vs" "vs @ ss = CHR '','' # t"
      by (auto simp: append_eq_append_conv2)
    then show ?thesis
    proof cases
      case (1 vs)
      then show ?thesis using 2 by (auto simp: substring_iff)
    next
      case b: (2 vs)
      then have "vs = []" using assms(1) by (cases vs) auto
      then show ?thesis using b 2 substring_iff by fastforce
    qed
  qed
next
  assume "substring w h \<or> substring w t"
  then show "substring w (h @ CHR '','' # t)"
  proof
    assume "substring w t"
    then obtain ps ss where "t = ps @ w @ ss" by (auto simp: substring_iff)
    then have "h @ CHR '','' # t = (h @ CHR '','' # ps) @ w @ ss" by simp
    then show ?thesis unfolding substring_iff by blast
  next
    assume "substring w h"
    then obtain ps ss where "h = ps @ w @ ss" by (auto simp: substring_iff)
    then have "h @ CHR '','' # t = ps @ w @ (ss @ CHR '','' # t)" by simp
    then show ?thesis unfolding substring_iff by blast
  qed
qed

definition handled_text :: "cstring list \<Rightarrow> cstring" where
  "handled_text hs = concat (map (\<lambda>h. h @ '','') hs)"

lemma substring_handled:
  "CHR '','' \<notin> set w \<Longrightarrow> w \<noteq> [] \<Longrightarrow> substring w (handled_text hs) \<longleftrightarrow> (\<exists>h\<in>set hs. substring w h)"
  by (induction hs) (auto simp: handled_text_def substring_comma, simp add: substring_def)

subsection \<open>Requests and their text\<close>

record afrequest =
  ar_addr :: cstring
  ar_robot :: cstring
  ar_from :: cstring
  ar_password :: cstring
  ar_cmd :: cstring

definition request_text :: "afrequest \<Rightarrow> cstring" where
  "request_text r = ar_addr r @ '','' @ ar_robot r @ '','' @ ar_from r @ '','' @ ar_password r @ '','' @ ar_cmd r"

definition field_ok :: "cstring \<Rightarrow> bool" where
  "field_ok w \<longleftrightarrow> w \<noteq> [] \<and> CHR '','' \<notin> set w \<and> ch_dquote \<notin> set w \<and> no_nul w"

definition request_ok :: "afrequest \<Rightarrow> bool" where
  "request_ok r \<longleftrightarrow> field_ok (ar_addr r) \<and> field_ok (ar_robot r) \<and> field_ok (ar_from r) \<and> field_ok (ar_password r) \<and>
     field_ok (ar_cmd r) \<and> length (request_text r) < 4094"

text \<open>This is the text a command leaves.\<close>

lemma request_appends:
  "length (request_text r) < 4096 \<Longrightarrow>
     r = \<lparr>ar_addr = addr, ar_robot = up_robot a, ar_from = fix_name env st, ar_password = up_password a, ar_cmd = sign # str_upper name\<rparr> \<Longrightarrow>
     fx_upl (request env addr a sign name st) = fx_upl st @ [request_text r]"
  by (simp add: request_def request_text_def)

lemma field_hd: "field_ok w \<Longrightarrow> hd w \<noteq> ch_dquote"
  by (metis field_ok_def hd_in_set)

lemma written_field: "field_ok w \<Longrightarrow> written ch_dquote '','' w w"
  by (rule written.plain) (auto simp: field_ok_def field_hd)

lemma token_last: "field_ok w \<Longrightarrow> tokens ch_dquote '','' w = [w]"
proof -
  assume w: "field_ok w"
  then have c: "CHR '','' \<notin> set w" "w \<noteq> []" "hd w \<noteq> ch_dquote" using field_hd by (auto simp: field_ok_def)
  have "dropWhile (\<lambda>c. c \<in> set '','') w = w" using c by (cases w) auto
  moreover have "takeWhile (\<lambda>c. c \<notin> set '','') w = w" "dropWhile (\<lambda>c. c \<notin> set '','') w = []"
    using c by (auto simp: takeWhile_eq_all_conv dropWhile_eq_Nil_conv)
  ultimately have "next_token ch_dquote '','' (Some w) = Some (w, None)"
    using c by (simp add: next_token_def strtok_r_ext_def Let_def)
  then show ?thesis by (subst tokens_unfold) simp
qed

lemma request_tokens:
  assumes "request_ok r"
  shows "tokens ch_dquote '','' (request_text r) = [ar_addr r, ar_robot r, ar_from r, ar_password r, ar_cmd r]"
proof -
  have t: "tokens ch_dquote '','' (w @ '','' @ s) = w # tokens ch_dquote '','' s" if "field_ok w" for w s
    using tokens_written [OF written_field [OF that], of "CHR '',''" s] by simp
  show ?thesis unfolding request_text_def using assms t token_last by (simp add: request_ok_def)
qed

lemma strtok_fst: "fst (strtok_r_ext (Some s) d None q) = map_option fst (next_token q d (Some s))"
proof -
  have "strtok_r_ext (Some s) d None q = strtok_r_ext None d (Some s) q" by (simp add: strtok_r_ext_def)
  then show ?thesis by (auto simp: next_token_def split: prod.split option.split)
qed

lemma request_addr_text: "request_ok r \<Longrightarrow> request_addr (request_text r) = Some (ar_addr r)"
proof -
  assume "request_ok r"
  then have f: "field_ok (ar_addr r)" by (simp add: request_ok_def)
  have "next_token ch_dquote '','' (Some (ar_addr r @ CHR '','' # s)) = Some (ar_addr r, Some (dropWhile (\<lambda>c. c \<in> set '','') s))" for s
    using f by (intro next_token_plain) (auto simp: field_ok_def field_hd)
  then show ?thesis by (simp add: request_addr_def xstrtok_def strtok_fst request_text_def)
qed

lemma last_field_text: "request_ok r \<Longrightarrow> last_field (request_text r) = ar_cmd r"
  by (simp add: last_field_def request_text_def takeWhile_tail request_ok_def field_ok_def takeWhile_eq_all_conv takeWhile_append)

subsection \<open>One pass\<close>

definition requests_to :: "cstring \<Rightarrow> afrequest list \<Rightarrow> cstring list" where
  "requests_to w rs = map request_text (filter (\<lambda>r. ar_addr r = w) rs)"

lemma collect_chosen:
  "list_all request_ok rs \<Longrightarrow> collect (map request_text rs) links (Some w) out = Some (links, Some w, out @ requests_to w rs)"
  by (induction rs arbitrary: out) (auto simp: request_addr_text requests_to_def)

text \<open>The text of the handled addresses in its array.\<close>

definition holds_handled :: "cstring list \<Rightarrow> cbuf \<Rightarrow> bool" where
  "holds_handled hs links \<longleftrightarrow> length links = BUFSIZ \<and> cstr links = handled_text hs"

lemma handled_append:
  assumes "holds_handled hs links" "no_nul w" "length (handled_text (hs @ [w])) < BUFSIZ"
  shows "\<exists>b. str_append2 links BUFSIZ w '','' = Some b \<and> holds_handled (hs @ [w]) b"
proof -
  have c: "cstr links = handled_text hs" "length links = BUFSIZ" using assms(1) by (simp_all add: holds_handled_def)
  have "length (cstr links) + length (concat [w, '','']) < BUFSIZ" using assms(3) c by (simp add: handled_text_def)
  from copy_close_fits [OF this] obtain r
    where r: "str_append2 links BUFSIZ w '','' = Some (cstr links @ w @ '','' @ ch_nul # r)"
      "r = drop (Suc (length (cstr links) + length (concat [w, '','']))) links"
    using c(2) by (simp add: str_copies_close take_cstr)
  have "cstr (cstr links @ w @ '','' @ ch_nul # r) = cstr links @ w @ '',''"
    using cstr_append [of "cstr links @ w @ '',''" r] assms(2) by simp
  moreover have "length (cstr links @ w @ '','' @ ch_nul # r) = BUFSIZ"
    using r(2) c assms(3) by (simp add: handled_text_def)
  ultimately show ?thesis using r(1) c by (simp add: holds_handled_def handled_text_def)
qed

lemma collect_pass:
  assumes "list_all request_ok rs" "holds_handled hs links"
    and "\<forall>r\<in>set rs. substring (ar_addr r) (handled_text hs) \<longleftrightarrow> ar_addr r \<in> set hs"
    and "\<forall>r\<in>set rs. ar_addr r \<notin> set hs \<longrightarrow> length (handled_text (hs @ [ar_addr r])) < BUFSIZ"
  shows "(\<forall>r\<in>set rs. ar_addr r \<in> set hs) \<and> collect (map request_text rs) links None [] = Some (links, None, []) \<or>
    (\<exists>r\<in>set rs. \<exists>b. ar_addr r \<notin> set hs \<and> holds_handled (hs @ [ar_addr r]) b \<and>
       collect (map request_text rs) links None [] = Some (b, Some (ar_addr r), requests_to (ar_addr r) rs))"
  using assms(1,3,4)
proof (induction rs)
  case (Cons r rs)
  have ok: "request_addr (request_text r) = Some (ar_addr r)" using Cons.prems(1) request_addr_text by simp
  have links: "cstr links = handled_text hs" using assms(2) by (simp add: holds_handled_def)
  show ?case
  proof (cases "ar_addr r \<in> set hs")
    case True
    have "collect (map request_text (r # rs)) links None [] = collect (map request_text rs) links None []"
      using ok links True Cons.prems(2) by simp
    moreover have "requests_to w (r # rs) = requests_to w rs" if "w \<notin> set hs" for w
      using True that by (auto simp: requests_to_def)
    ultimately show ?thesis using Cons.IH Cons.prems True by auto
  next
    case False
    have "no_nul (ar_addr r)" using Cons.prems(1) by (simp add: request_ok_def field_ok_def)
    then obtain b where b: "str_append2 links BUFSIZ (ar_addr r) '','' = Some b" "holds_handled (hs @ [ar_addr r]) b"
      using handled_append [OF assms(2)] Cons.prems(3) False by fastforce
    have "collect (map request_text (r # rs)) links None [] = Some (b, Some (ar_addr r), requests_to (ar_addr r) (r # rs))"
      using ok links False Cons.prems(1,2) b(1) collect_chosen [of rs b "ar_addr r" "[request_text r]"]
      by (simp add: requests_to_def)
    then show ?thesis using b(2) False by auto
  qed
qed simp

subsection \<open>The mail of a pass\<close>

text \<open>The mail goes to the address of the request and has its command among its lines.\<close>

definition carries :: "config \<Rightarrow> afrequest \<Rightarrow> request_msg \<Rightarrow> bool" where
  "carries cf r m \<longleftrightarrow>
     rq_to m = snd (asc_to_node (cf_defzone cf) (ar_addr r) (mk_node 0 0 0 0) False) \<and>
     (ar_cmd r \<in> set (rq_lines m) \<or> crlf_text @ ar_cmd r \<in> set (rq_lines m))"

lemma has_best: "0 < scf_naddr cf \<Longrightarrow> snd (cf_get_best cf d) \<noteq> None"
  by (simp add: cf_get_best_def Let_def split: option.split)

lemma set_best_config:
  assumes "0 < scf_naddr cf"
  obtains cf' where "cf_set_best z n f cf = Some cf'" "cf_defzone cf' = cf_defzone cf" "scf_naddr cf' = scf_naddr cf"
proof -
  obtain rc aka up i where "cf_get_best cf ((mk_node z n f 0)\<lparr>net := -1, node := -1\<rparr>) = (rc, Some (aka, up, i))"
    using has_best [OF assms] by (metis option.exhaust prod_cases3 snd_conv)
  then show ?thesis using that by (simp add: cf_set_best_def cf_defzone_def)
qed

lemma request_mail_carries:
  assumes "list_all request_ok rs" "r0 \<in> set rs" "0 < scf_naddr cf"
  shows "\<exists>m cf'. request_mail cf (requests_to (ar_addr r0) rs) = Some (m, cf') \<and> cf_defzone cf' = cf_defzone cf \<and>
    scf_naddr cf' = scf_naddr cf \<and> (\<forall>r\<in>set rs. ar_addr r = ar_addr r0 \<longrightarrow> carries cf r m)"
proof -
  define g where "g = filter (\<lambda>r. ar_addr r = ar_addr r0) rs"
  have g: "list_all request_ok g" "r0 \<in> set g" using assms(1,2) by (auto simp: g_def list_all_iff)
  then obtain q qs where q: "g = q # qs" by (cases g) auto
  have qa: "ar_addr q = ar_addr r0" using arg_cong [OF q, of set] by (auto simp: g_def)
  have qok: "request_ok q" using g q by simp
  define nd where "nd = snd (asc_to_node (cf_defzone cf) (ar_addr q) (mk_node 0 0 0 0) False)"
  obtain cf' where cf': "cf_set_best (zone nd) (net nd) (node nd) cf = Some cf'" "cf_defzone cf' = cf_defzone cf" "scf_naddr cf' = scf_naddr cf"
    using set_best_config [OF assms(3)] by metis
  define m where "m = \<lparr>rq_from = cf_addr cf', rq_to = nd, rq_name_to = take (NAMEBUFSIZE - 1) (ar_robot q),
    rq_name_from = take (NAMEBUFSIZE - 1) (ar_from q), rq_subject = take (SUBJBUFSIZE - 1) (ar_password q),
    rq_lines = take 4095 (crlf_text @ ar_cmd q) # map last_field (map request_text qs)\<rparr>"
  have "request_mail cf (map request_text g) = Some (m, cf')"
    unfolding q by (simp add: request_mail_def request_tokens [OF qok] nd_def [symmetric] cf' m_def)
  moreover have "carries cf r m" if "r \<in> set g" for r
  proof -
    have "length (crlf_text @ ar_cmd q) \<le> 4095"
      using qok by (simp add: request_ok_def request_text_def crlf_text_def)
    moreover have "\<forall>r\<in>set qs. last_field (request_text r) = ar_cmd r"
      using g(1) q last_field_text by (simp add: list_all_iff)
    moreover have "ar_addr r = ar_addr q" using that qa by (simp add: g_def)
    ultimately show ?thesis using that q by (auto simp: carries_def m_def nd_def)
  qed
  ultimately show ?thesis using cf' by (auto simp: requests_to_def g_def [symmetric]) (auto simp: g_def)
qed

subsection \<open>All passes\<close>

definition independent :: "afrequest list \<Rightarrow> bool" where
  "independent rs \<longleftrightarrow> list_all (\<lambda>r. list_all (\<lambda>s. ar_addr r = ar_addr s \<or> \<not> substring (ar_addr r) (ar_addr s)) rs) rs"

definition addresses :: "afrequest list \<Rightarrow> cstring list" where
  "addresses rs = remdups (map ar_addr rs)"

lemma length_handled_text: "length (handled_text hs) = sum_list (map (\<lambda>h. Suc (length h)) hs)"
  by (induction hs) (simp_all add: handled_text_def)

lemma handled_fits:
  assumes "distinct hs" "set hs \<subseteq> set (addresses rs)"
  shows "length (handled_text hs) \<le> length (handled_text (addresses rs))"
proof -
  have "distinct (addresses rs)" by (simp add: addresses_def)
  then show ?thesis using assms unfolding length_handled_text
    by (simp only: sum_list_distinct_conv_sum_set) (intro sum_mono2, auto)
qed

lemma request_loop_sends:
  assumes "list_all request_ok rs" "independent rs" "length (handled_text (addresses rs)) < BUFSIZ"
  shows "distinct hs \<Longrightarrow> set hs \<subseteq> set (addresses rs) \<Longrightarrow> holds_handled hs links \<Longrightarrow> 0 < scf_naddr cf \<Longrightarrow>
    length (addresses rs) < k + length hs \<Longrightarrow>
    \<exists>ms c. request_loop k cf (map request_text rs) links = Some (ms, c) \<and>
      (\<forall>r\<in>set rs. ar_addr r \<notin> set hs \<longrightarrow> (\<exists>m\<in>set ms. carries cf r m))"
proof (induction k arbitrary: hs links cf)
  case 0
  have "length hs \<le> length (addresses rs)"
    using 0(1,2) card_mono [of "set (addresses rs)" "set hs"] by (simp add: addresses_def distinct_card length_remdups_card_conv)
  then show ?case using 0(5) by simp
next
  case (Suc k)
  have sub: "\<forall>r\<in>set rs. substring (ar_addr r) (handled_text hs) \<longleftrightarrow> ar_addr r \<in> set hs"
  proof
    fix r assume r: "r \<in> set rs"
    have f: "CHR '','' \<notin> set (ar_addr r)" "ar_addr r \<noteq> []" using assms(1) r by (auto simp: list_all_iff request_ok_def field_ok_def)
    have "substring (ar_addr r) h \<longleftrightarrow> ar_addr r = h" if "h \<in> set hs" for h
      using that Suc.prems(2) r assms(2) by (auto simp: addresses_def independent_def list_all_iff)
    then show "substring (ar_addr r) (handled_text hs) \<longleftrightarrow> ar_addr r \<in> set hs" using substring_handled [OF f] by auto
  qed
  have fits: "\<forall>r\<in>set rs. ar_addr r \<notin> set hs \<longrightarrow> length (handled_text (hs @ [ar_addr r])) < BUFSIZ"
  proof (intro ballI impI)
    fix r assume "r \<in> set rs" "ar_addr r \<notin> set hs"
    then have "length (handled_text (hs @ [ar_addr r])) \<le> length (handled_text (addresses rs))"
      using Suc.prems(1,2) by (intro handled_fits) (auto simp: addresses_def)
    then show "length (handled_text (hs @ [ar_addr r])) < BUFSIZ" using assms(3) by simp
  qed
  from collect_pass [OF assms(1) Suc.prems(3) sub fits] show ?case
  proof
    assume "\<exists>r\<in>set rs. \<exists>b. ar_addr r \<notin> set hs \<and> holds_handled (hs @ [ar_addr r]) b \<and>
       collect (map request_text rs) links None [] = Some (b, Some (ar_addr r), requests_to (ar_addr r) rs)"
    then obtain r b where r: "r \<in> set rs" "ar_addr r \<notin> set hs" "holds_handled (hs @ [ar_addr r]) b"
      "collect (map request_text rs) links None [] = Some (b, Some (ar_addr r), requests_to (ar_addr r) rs)" by blast
    obtain m cf' where m: "request_mail cf (requests_to (ar_addr r) rs) = Some (m, cf')" "cf_defzone cf' = cf_defzone cf"
      "scf_naddr cf' = scf_naddr cf" "\<forall>s\<in>set rs. ar_addr s = ar_addr r \<longrightarrow> carries cf s m"
      using request_mail_carries [OF assms(1) r(1) Suc.prems(4)] by blast
    have "distinct (hs @ [ar_addr r])" "set (hs @ [ar_addr r]) \<subseteq> set (addresses rs)" "0 < scf_naddr cf'"
      "length (addresses rs) < k + length (hs @ [ar_addr r])"
      using Suc.prems r m(3) by (auto simp: addresses_def)
    from Suc.IH [OF this(1,2) r(3) this(3,4)] obtain ms c where ms: "request_loop k cf' (map request_text rs) b = Some (ms, c)"
      "\<forall>s\<in>set rs. ar_addr s \<notin> set (hs @ [ar_addr r]) \<longrightarrow> (\<exists>m\<in>set ms. carries cf' s m)" by blast
    have "carries cf' s x = carries cf s x" for s x by (simp add: carries_def m(2))
    then have "\<forall>s\<in>set rs. ar_addr s \<notin> set hs \<longrightarrow> (\<exists>x\<in>set (m # ms). carries cf s x)"
      using ms(2) m(4) by auto
    moreover have "request_loop (Suc k) cf (map request_text rs) links = Some (m # ms, c)"
      using r(4) m(1) ms(1) by simp
    ultimately show ?thesis by blast
  qed simp
qed

text \<open>
  C39. When no address of an uplink is a part of another one, send_request ends and every
  request noted by the commands is in a mail addressed to its uplink.
\<close>

theorem requests_reach_their_uplinks:
  assumes "list_all request_ok rs" "independent rs" "length (handled_text (addresses rs)) < BUFSIZ" "0 < scf_naddr cf"
  shows "\<exists>ms c. send_request cf (map request_text rs) = Some (ms, c) \<and> (\<forall>r\<in>set rs. \<exists>m\<in>set ms. carries cf r m)"
proof -
  have "holds_handled [] (replicate BUFSIZ ch_nul)"
    by (simp add: holds_handled_def handled_text_def cstr_def BUFSIZ_def)
  moreover have "length (addresses rs) < Suc (length rs) + length []"
    using length_remdups_leq [of "map ar_addr rs"] by (simp add: addresses_def)
  ultimately show ?thesis
    using request_loop_sends [OF assms(1-3), of "[]" _ cf "Suc (length rs)"] assms(4) by (simp add: send_request_def)
qed


text \<open>Two uplinks and three requests.\<close>

definition afs_requests :: "afrequest list" where
  "afs_requests =
     [\<lparr>ar_addr = ''2:5020/1'', ar_robot = ''A'', ar_from = ''B'', ar_password = ''p'', ar_cmd = ''+X''\<rparr>,
      \<lparr>ar_addr = ''2:5020/7'', ar_robot = ''A'', ar_from = ''B'', ar_password = ''q'', ar_cmd = ''-Y''\<rparr>,
      \<lparr>ar_addr = ''2:5020/1'', ar_robot = ''A'', ar_from = ''B'', ar_password = ''p'', ar_cmd = ''+Z''\<rparr>]"

theorem requests_reach_their_uplinks_witness:
  "\<exists>ms c. send_request (scf_start\<lparr>scf_naddr := 1\<rparr>) (map request_text afs_requests) = Some (ms, c) \<and>
     list_all (\<lambda>r. list_ex (carries (scf_start\<lparr>scf_naddr := 1\<rparr>) r) ms) afs_requests"
proof -
  have "\<exists>ms c. send_request (scf_start\<lparr>scf_naddr := 1\<rparr>) (map request_text afs_requests) = Some (ms, c) \<and>
     (\<forall>r\<in>set afs_requests. \<exists>m\<in>set ms. carries (scf_start\<lparr>scf_naddr := 1\<rparr>) r m)"
  proof (rule requests_reach_their_uplinks)
    show "list_all request_ok afs_requests"
      by (simp add: afs_requests_def request_ok_def field_ok_def request_text_def)
    show "independent afs_requests" by (simp add: afs_requests_def independent_def substring_def)
    show "length (handled_text (addresses afs_requests)) < BUFSIZ"
      by (simp add: afs_requests_def addresses_def handled_text_def BUFSIZ_def)
  qed simp
  then show ?thesis by (simp add: list_all_iff list_ex_iff)
qed

text \<open>The condition on the addresses is needed: a request to an address that is a part of the one before is lost.\<close>

lemma address_in_address_loses_request:
  assumes "request_ok r" "request_ok s" "ar_addr s \<noteq> ar_addr r" "substring (ar_addr s) (ar_addr r)" "0 < scf_naddr cf"
  shows "\<exists>m c. send_request cf [request_text r, request_text s] = Some ([m], c) \<and> rq_lines m = [crlf_text @ ar_cmd r]"
proof -
  have a: "request_addr (request_text r) = Some (ar_addr r)" "request_addr (request_text s) = Some (ar_addr s)"
    using assms request_addr_text by simp_all
  have f: "CHR '','' \<notin> set (ar_addr x)" "ar_addr x \<noteq> []" "no_nul (ar_addr x)" "length (ar_addr x) < 4094" if "request_ok x" for x
    using that by (auto simp: request_ok_def field_ok_def request_text_def)
  define b0 where "b0 = replicate BUFSIZ ch_nul"
  have b0: "holds_handled [] b0" "cstr b0 = []"
    by (simp_all add: b0_def holds_handled_def handled_text_def cstr_def BUFSIZ_def)
  have "length (handled_text ([] @ [ar_addr r])) < BUFSIZ" using f(4) [OF assms(1)] by (simp add: handled_text_def BUFSIZ_def)
  then obtain b where b: "str_append2 b0 BUFSIZ (ar_addr r) '','' = Some b" "holds_handled ([] @ [ar_addr r]) b"
    using handled_append [OF b0(1) f(3) [OF assms(1)]] by blast
  have cb: "cstr b = handled_text [ar_addr r]" using b(2) by (simp add: holds_handled_def)
  have s: "substring (ar_addr r) (cstr b)" "substring (ar_addr s) (cstr b)" "\<not> substring (ar_addr r) []"
    unfolding cb using substring_handled [OF f(1,2), OF assms(1) assms(1), of "[ar_addr r]"]
      substring_handled [OF f(1,2), OF assms(2) assms(2), of "[ar_addr r]"] assms(4) f(2) [OF assms(1)]
    by (simp_all, simp add: substring_def)
  obtain m cf' where m: "request_mail cf [request_text r] = Some (m, cf')"
    using request_mail_carries [of "[r]" r cf] assms by (auto simp: requests_to_def)
  have "rq_lines m = [crlf_text @ ar_cmd r]"
  proof -
    have "length (crlf_text @ ar_cmd r) \<le> 4095" using assms(1) by (simp add: request_ok_def request_text_def crlf_text_def)
    then show ?thesis using m by (auto simp: request_mail_def request_tokens [OF assms(1)] Let_def)
  qed
  moreover have "send_request cf [request_text r, request_text s] = Some ([m], cf')"
    using a s b(1) b0(2) m assms(3) by (simp add: send_request_def b0_def [symmetric])
  ultimately show ?thesis by blast
qed


end
