(* ===== verification/Spec2Isabelle.thy ===== *)
theory Spec2Isabelle
  imports Toss Mime Areafix_Subs Areafix_Requests
begin

text \<open>
  FIDOGATE: the gateway, tosser and area manager of a FidoNet node.
\<close>

end
